(* ===== verification/Prelude.thy ===== *)
theory Prelude
  imports Main "HOL-Library.AList" "HOL-Library.Sublist" "HOL-Library.Char_ord"
    "HOL-Library.List_Lexorder"
begin

section \<open>Prelude: the pieces of the JavaScript runtime the packages share\<close>

text \<open>
  The packages are TypeScript compiled to JavaScript. This theory fixes, once, how the
  runtime's data is represented and what the runtime functions used by several packages do.

  \<^item> A string is a list of code units. HOL's \<open>char\<close> has 256 values, so the model covers
    the strings whose code units are below 256 (Latin-1); every operation below agrees with
    ECMAScript on those strings.
  \<^item> A \<open>Map\<close> is an association list in insertion order: \<open>set\<close> overwrites in place or
    appends (\<open>AList.update\<close>), \<open>get\<close> is \<open>map_of\<close>.
  \<^item> A \<open>Set\<close> is a list without repetition in insertion order.
  \<^item> A thrown exception is the left injection of a sum.
\<close>

named_theorems js_defs \<open>definitions of the runtime functions\<close>
named_theorems js_set_simps \<open>what the insertion-ordered containers hold\<close>

subsection \<open>Insertion-ordered maps and sets\<close>

type_synonym ('k, 'v) js_map = "('k \<times> 'v) list"

abbreviation map_get :: "('k, 'v) js_map \<Rightarrow> 'k \<Rightarrow> 'v option" where
  "map_get m k \<equiv> map_of m k"

abbreviation map_set :: "'k \<Rightarrow> 'v \<Rightarrow> ('k, 'v) js_map \<Rightarrow> ('k, 'v) js_map" where
  "map_set k v m \<equiv> AList.update k v m"

abbreviation map_keys :: "('k, 'v) js_map \<Rightarrow> 'k list" where
  "map_keys m \<equiv> map fst m"

abbreviation map_values :: "('k, 'v) js_map \<Rightarrow> 'v list" where
  "map_values m \<equiv> map snd m"

definition map_has :: "('k, 'v) js_map \<Rightarrow> 'k \<Rightarrow> bool" where
  "map_has m k \<longleftrightarrow> map_of m k \<noteq> None"

definition map_delete :: "'k \<Rightarrow> ('k, 'v) js_map \<Rightarrow> ('k, 'v) js_map" where
  "map_delete k m = filter (\<lambda>p. fst p \<noteq> k) m"

definition set_add :: "'a \<Rightarrow> 'a list \<Rightarrow> 'a list" where
  "set_add x xs = (if x \<in> set xs then xs else xs @ [x])"

definition set_of_list :: "'a list \<Rightarrow> 'a list" where
  "set_of_list xs = foldl (\<lambda>acc x. set_add x acc) [] xs"

lemma map_of_update [simp]: "map_of (AList.update k v m) = (map_of m)(k \<mapsto> v)"
  by (rule update_conv')

lemma map_of_delete [simp]: "map_of (map_delete k m) = (map_of m)(k := None)"
  by (induction m) (auto simp: map_delete_def)

lemma mem_keys: "(k, v) \<in> set m \<Longrightarrow> k \<in> set (map fst m)"
  by (simp add: rev_image_eqI)

lemma set_map_delete: "set (map_delete k m) \<subseteq> set m"
  by (auto simp: map_delete_def)

lemma set_update_subset: "set (AList.update k v m) \<subseteq> insert (k, v) (set m)"
  by (induction m) auto

lemma keys_update_mem [simp]: "k \<in> set (map fst m) \<Longrightarrow> map fst (AList.update k v m) = map fst m"
  by (induction m) auto

lemma map_delete_keys: "map fst (map_delete k m) = filter (\<lambda>j. j \<noteq> k) (map fst m)"
  by (induction m) (auto simp: map_delete_def)

lemma distinct_map_delete [simp]: "distinct (map fst m) \<Longrightarrow> distinct (map fst (map_delete k m))"
  by (simp add: map_delete_keys)

lemma map_delete_absent [simp]: "map_of m k = None \<Longrightarrow> map_delete k m = m"
  by (induction m) (auto simp: map_delete_def split: if_splits)

lemma length_map_delete_le [simp]: "length (map_delete k m) \<le> length m"
  by (simp add: map_delete_def)

lemma update_absent: "map_of m k = None \<Longrightarrow> AList.update k v m = m @ [(k, v)]"
  by (induction m) (auto split: if_splits)

lemma length_update:
  "length (AList.update k v m) = (if map_of m k = None then Suc (length m) else length m)"
  by (induction m) auto

text \<open>\<open>value_sum f m\<close> adds up \<open>f\<close> over the values of a map: what one insertion, deletion or update
  does to it.\<close>

definition value_sum :: "('v \<Rightarrow> nat) \<Rightarrow> ('k, 'v) js_map \<Rightarrow> nat" where
  "value_sum f m = sum_list (map (\<lambda>p. f (snd p)) m)"

lemma value_sum_simps [simp]:
  "value_sum f [] = 0" "value_sum f ((k, v) # m) = f v + value_sum f m"
  "value_sum f (m @ n) = value_sum f m + value_sum f n"
  by (simp_all add: value_sum_def)

lemma value_sum_insert [simp]:
  "map_of m k = None \<Longrightarrow> value_sum f (AList.update k v m) = value_sum f m + f v"
  by (simp add: update_absent)

lemma value_sum_delete:
  "distinct (map fst m) \<Longrightarrow> map_of m k = Some v \<Longrightarrow> value_sum f m = f v + value_sum f (map_delete k m)"
proof (induction m)
  case (Cons p m)
  show ?case
  proof (cases "fst p = k")
    case True
    with Cons.prems have "map_delete k (p # m) = m" and "snd p = v"
      by (auto simp: map_delete_def filter_id_conv rev_image_eqI)
    then show ?thesis by (simp add: value_sum_def)
  next
    case False
    with Cons show ?thesis by (cases p) (auto simp: map_delete_def)
  qed
qed simp

lemma value_sum_update:
  "distinct (map fst m) \<Longrightarrow> map_of m k = Some v \<Longrightarrow>
   value_sum f (AList.update k w m) + f v = value_sum f m + f w"
  by (induction m) auto

lemma value_sum_pos: "map_of m k = Some v \<Longrightarrow> 0 < f v \<Longrightarrow> 0 < value_sum f m"
  by (induction m) (auto split: if_splits)

lemma value_sum_zero: "value_sum f m = 0 \<longleftrightarrow> (\<forall>v \<in> set (map snd m). f v = 0)"
  by (induction m) auto

lemma length_map_delete:
  "distinct (map fst m) \<Longrightarrow> map_of m k = Some v \<Longrightarrow> length m = Suc (length (map_delete k m))"
  using value_sum_delete [of m k v "\<lambda>_. 1"] by (simp add: value_sum_def sum_list_triv)

lemma set_set_add [simp, js_set_simps]: "set (set_add x xs) = insert x (set xs)"
  by (auto simp: set_add_def)

lemma distinct_set_add [simp, js_set_simps]: "distinct (set_add x xs) = distinct xs"
  by (auto simp: set_add_def)

lemma set_add_mem [simp]: "x \<in> set xs \<Longrightarrow> set_add x xs = xs"
  by (simp add: set_add_def)

lemma set_foldl_set_add: "set (foldl (\<lambda>acc x. set_add x acc) acc xs) = set acc \<union> set xs"
  by (induction xs arbitrary: acc) auto

lemma distinct_foldl_set_add:
  "distinct acc \<Longrightarrow> distinct (foldl (\<lambda>acc x. set_add x acc) acc xs)"
  by (induction xs arbitrary: acc) auto

lemma set_set_of_list [simp, js_set_simps]: "set (set_of_list xs) = set xs"
  by (simp add: set_of_list_def set_foldl_set_add)

lemma distinct_set_of_list [simp, js_set_simps]: "distinct (set_of_list xs)"
  by (simp add: set_of_list_def distinct_foldl_set_add)

lemma foldl_set_add_distinct:
  "distinct (acc @ xs) \<Longrightarrow> foldl (\<lambda>acc x. set_add x acc) acc xs = acc @ xs"
proof (induction xs arbitrary: acc)
  case (Cons x xs)
  then have "x \<notin> set acc" and "distinct ((acc @ [x]) @ xs)"
    by auto
  then show ?case
    using Cons.IH [of "acc @ [x]"] by (simp add: set_add_def)
qed simp

text \<open>Building a \<open>Set\<close> from a list without repetition keeps it; so building it twice is
  building it once.\<close>

lemma set_of_list_distinct: "distinct xs \<Longrightarrow> set_of_list xs = xs"
  using foldl_set_add_distinct [of "[]" xs] by (simp add: set_of_list_def)

lemma set_of_list_idem [simp]: "set_of_list (set_of_list xs) = set_of_list xs"
  by (simp add: set_of_list_distinct)

lemma set_of_list_Nil_iff [simp]: "set_of_list xs = [] \<longleftrightarrow> xs = []"
  by (metis set_empty set_set_of_list)

subsection \<open>Errors as values\<close>

text \<open>\<open>bind_result\<close> runs the continuation unless an exception was thrown;
  \<open>traverse\<close> is the loop \<open>xs.map(f)\<close> with an \<open>f\<close> that may throw.\<close>

definition bind_result :: "'e + 'a \<Rightarrow> ('a \<Rightarrow> 'e + 'b) \<Rightarrow> 'e + 'b" where
  "bind_result r f = (case r of Inl e \<Rightarrow> Inl e | Inr a \<Rightarrow> f a)"

lemma bind_result_simps [simp]:
  "bind_result (Inl e) f = Inl e" "bind_result (Inr a) f = f a"
  by (simp_all add: bind_result_def)

lemma bind_result_Inr_iff:
  "bind_result r f = Inr b \<longleftrightarrow> (\<exists>a. r = Inr a \<and> f a = Inr b)"
  by (cases r) auto

lemma bind_result_cong [fundef_cong]:
  "r = s \<Longrightarrow> (\<And>a. s = Inr a \<Longrightarrow> f a = g a) \<Longrightarrow> bind_result r f = bind_result s g"
  by (cases s) auto

fun traverse :: "('a \<Rightarrow> 'e + 'b) \<Rightarrow> 'a list \<Rightarrow> 'e + 'b list" where
  "traverse f [] = Inr []"
| "traverse f (x # xs) =
     (case f x of Inl e \<Rightarrow> Inl e
      | Inr y \<Rightarrow> (case traverse f xs of Inl e \<Rightarrow> Inl e | Inr ys \<Rightarrow> Inr (y # ys)))"

lemma traverse_Inr_iff: "traverse f xs = Inr ys \<longleftrightarrow> list_all2 (\<lambda>x y. f x = Inr y) xs ys"
proof (induction xs arbitrary: ys)
  case Nil
  then show ?case by auto
next
  case (Cons x xs)
  then show ?case
    by (cases "f x"; cases "traverse f xs") (auto simp: list_all2_Cons1)
qed

lemma traverse_Inr_mem:
  "traverse f xs = Inr ys \<Longrightarrow> y \<in> set ys \<Longrightarrow> \<exists>x \<in> set xs. f x = Inr y"
  unfolding traverse_Inr_iff by (induction xs ys rule: list_all2_induct) auto

text \<open>\<open>fold_result\<close> is a \<open>for\<close> loop over a mutable state whose body may throw. Its rule
  carries an invariant indexed by the elements already processed.\<close>

fun fold_result :: "('s \<Rightarrow> 'a \<Rightarrow> 'e + 's) \<Rightarrow> 's \<Rightarrow> 'a list \<Rightarrow> 'e + 's" where
  "fold_result f s [] = Inr s"
| "fold_result f s (x # xs) = (case f s x of Inl e \<Rightarrow> Inl e | Inr s' \<Rightarrow> fold_result f s' xs)"

lemma fold_result_append:
  "fold_result f s (xs @ ys) =
     (case fold_result f s xs of Inl e \<Rightarrow> Inl e | Inr s' \<Rightarrow> fold_result f s' ys)"
  by (induction xs arbitrary: s) (auto split: sum.splits)

lemma fold_result_inv:
  assumes "I [] s"
    and "\<And>ys x zs s. xs = ys @ x # zs \<Longrightarrow> I ys s \<Longrightarrow> \<exists>s'. f s x = Inr s' \<and> I (ys @ [x]) s'"
  shows "\<exists>s'. fold_result f s xs = Inr s' \<and> I xs s'"
  using assms
proof (induction xs rule: rev_induct)
  case (snoc x xs)
  have "\<exists>s'. fold_result f s xs = Inr s' \<and> I xs s'"
    using snoc.prems by (intro snoc.IH) auto
  then obtain s1 where s1: "fold_result f s xs = Inr s1" "I xs s1"
    by blast
  from snoc.prems(2) [of xs x "[]" s1] s1(2) obtain s2 where "f s1 x = Inr s2" "I (xs @ [x]) s2"
    by auto
  with s1 show ?case by (simp add: fold_result_append)
qed simp

lemma fold_result_post:
  assumes "fold_result f s xs = Inr s'" and "I s"
    and "\<And>s x s'. x \<in> set xs \<Longrightarrow> I s \<Longrightarrow> f s x = Inr s' \<Longrightarrow> I s'"
  shows "I s'"
  using assms
proof (induction xs arbitrary: s)
  case (Cons x xs)
  then obtain s1 where "f s x = Inr s1" "fold_result f s1 xs = Inr s'"
    by (auto split: sum.splits)
  with Cons show ?case by (meson list.set_intros)
qed simp

lemma fold_result_error:
  assumes "fold_result f s xs = Inl e"
    and "\<And>s x e. x \<in> set xs \<Longrightarrow> f s x = Inl e \<Longrightarrow> bad e"
  shows "bad e"
  using assms
proof (induction xs arbitrary: s)
  case (Cons x xs)
  then show ?case by (cases "f s x") auto
qed simp

lemma traverse_error: "traverse f xs = Inl e \<Longrightarrow> \<exists>x \<in> set xs. f x = Inl e"
  by (induction xs) (auto split: sum.splits)

subsection \<open>Array searches\<close>

text \<open>\<open>xs.indexOf(x)\<close> (\<open>-1\<close> when absent) and \<open>xs.slice(i)\<close> (a negative index counts
  from the end).\<close>

definition index_of :: "'a \<Rightarrow> 'a list \<Rightarrow> int" where
  "index_of x xs = (if x \<in> set xs then int (length (takeWhile (\<lambda>y. y \<noteq> x) xs)) else - 1)"

definition slice_from :: "int \<Rightarrow> 'a list \<Rightarrow> 'a list" where
  "slice_from i xs = (if i < 0 then drop (nat (int (length xs) + i)) xs else drop (nat i) xs)"

lemma slice_from_index_of:
  "x \<in> set xs \<Longrightarrow> slice_from (index_of x xs) xs = dropWhile (\<lambda>y. y \<noteq> x) xs"
  by (simp add: slice_from_def index_of_def dropWhile_eq_drop)

end
