(* ===== verification/JsString.thy ===== *)
theory JsString
  imports Prelude
begin

section \<open>JavaScript strings\<close>

text \<open>
  The string methods the packages call, on strings of code units below 256. Where a method
  takes a search string, the packages always pass a non-empty one; the model leaves a string
  unchanged for an empty search string.
\<close>

named_theorems js_string_simps \<open>evaluation of the string methods\<close>

definition code :: "char \<Rightarrow> nat" where
  "code c = of_char c"

definition is_space :: "char \<Rightarrow> bool" where
  "is_space c \<longleftrightarrow> code c \<in> {9, 10, 11, 12, 13, 32, 160}"

definition LF :: char where "LF = CHR 0x0A"
definition CR :: char where "CR = CHR 0x0D"

definition is_terminator :: "char \<Rightarrow> bool" where
  "is_terminator c \<longleftrightarrow> c = LF \<or> c = CR"

definition is_digit :: "char \<Rightarrow> bool" where
  "is_digit c \<longleftrightarrow> 48 \<le> code c \<and> code c \<le> 57"

definition trim_start :: "string \<Rightarrow> string" where
  "trim_start s = dropWhile is_space s"

definition trim_end :: "string \<Rightarrow> string" where
  "trim_end s = rev (dropWhile is_space (rev s))"

definition trim :: "string \<Rightarrow> string" where
  "trim s = trim_end (trim_start s)"

definition lower_char :: "char \<Rightarrow> char" where
  "lower_char c =
     (if 65 \<le> code c \<and> code c \<le> 90 \<or> 192 \<le> code c \<and> code c \<le> 222 \<and> code c \<noteq> 215
      then char_of (code c + 32) else c)"

definition to_lower :: "string \<Rightarrow> string" where
  "to_lower s = map lower_char s"

definition starts_with :: "string \<Rightarrow> string \<Rightarrow> bool" where
  "starts_with s p \<longleftrightarrow> prefix p s"

definition ends_with :: "string \<Rightarrow> string \<Rightarrow> bool" where
  "ends_with s p \<longleftrightarrow> suffix p s"

fun sub_index :: "string \<Rightarrow> string \<Rightarrow> nat option" where
  "sub_index p [] = (if p = [] then Some 0 else None)"
| "sub_index p (c # s) = (if prefix p (c # s) then Some 0 else map_option Suc (sub_index p s))"

definition str_includes :: "string \<Rightarrow> string \<Rightarrow> bool" where
  "str_includes s p \<longleftrightarrow> sub_index p s \<noteq> None"

fun join :: "string \<Rightarrow> string list \<Rightarrow> string" where
  "join sep [] = []"
| "join sep [x] = x"
| "join sep (x # y # xs) = x @ sep @ join sep (y # xs)"

text \<open>\<open>s.split(c)\<close> for a separator of one code unit.\<close>

fun split_char :: "char \<Rightarrow> string \<Rightarrow> string list" where
  "split_char d [] = [[]]"
| "split_char d (c # s) =
     (if c = d then [] # split_char d s
      else (case split_char d s of [] \<Rightarrow> [[c]] | x # xs \<Rightarrow> (c # x) # xs))"

text \<open>\<open>s.split(/\r?\n/)\<close>.\<close>

definition strip_cr :: "string \<Rightarrow> string" where
  "strip_cr s = (if s \<noteq> [] \<and> last s = CR then butlast s else s)"

definition split_lines :: "string \<Rightarrow> string list" where
  "split_lines s = (let ps = split_char LF s in map strip_cr (butlast ps) @ [last ps])"

text \<open>
  \<open>s.replaceAll(p, r)\<close> with a string pattern. The replacement is a template: \<open>$$\<close> is a dollar
  sign, \<open>$&\<close> the match, \<open>$`\<close> and \<open>$'\<close> the text before and after it; with a string
  pattern there are no groups, so other dollar signs stand for themselves.
\<close>

fun expand :: "string \<Rightarrow> string \<Rightarrow> string \<Rightarrow> string \<Rightarrow> string" where
  "expand m pre after [] = []"
| "expand m pre after [c] = [c]"
| "expand m pre after (c # d # t) =
     (if c = CHR ''$'' \<and> d = CHR ''$'' then CHR ''$'' # expand m pre after t
      else if c = CHR ''$'' \<and> d = CHR ''&'' then m @ expand m pre after t
      else if c = CHR ''$'' \<and> d = CHR 0x60 then pre @ expand m pre after t
      else if c = CHR ''$'' \<and> d = CHR 0x27 then after @ expand m pre after t
      else c # expand m pre after (d # t))"

function replace_from :: "string \<Rightarrow> string \<Rightarrow> string \<Rightarrow> string \<Rightarrow> string" where
  "replace_from p r pre s =
     (case s of
        [] \<Rightarrow> []
      | c # cs \<Rightarrow>
          if p \<noteq> [] \<and> prefix p s
          then expand p pre (drop (length p) s) r @
               replace_from p r (pre @ p) (drop (length p) s)
          else c # replace_from p r (pre @ [c]) cs)"
  by pat_completeness auto
termination
  by (relation "measure (\<lambda>(p, r, pre, s). length s)") auto

declare replace_from.simps [simp del]

definition replace_all :: "string \<Rightarrow> string \<Rightarrow> string \<Rightarrow> string" where
  "replace_all s p r = replace_from p r [] s"

text \<open>\<open>replaceAll\<close> with the replacement taken as it is.\<close>

function replace_verbatim :: "string \<Rightarrow> string \<Rightarrow> string \<Rightarrow> string" where
  "replace_verbatim p r s =
     (case s of
        [] \<Rightarrow> []
      | c # cs \<Rightarrow>
          if p \<noteq> [] \<and> prefix p s then r @ replace_verbatim p r (drop (length p) s)
          else c # replace_verbatim p r cs)"
  by pat_completeness auto
termination
  by (relation "measure (\<lambda>(p, r, s). length s)") auto

declare replace_verbatim.simps [simp del]

subsection \<open>Facts about splitting and joining\<close>

lemma split_char_ne [simp]: "split_char d s \<noteq> []"
  by (induction s) (auto split: list.splits)

lemma join_Cons: "xs \<noteq> [] \<Longrightarrow> join sep (x # xs) = x @ sep @ join sep xs"
  by (cases xs) auto

lemma join_split_char: "join [d] (split_char d s) = s"
proof (induction s)
  case (Cons c s)
  obtain x xs where x: "split_char d s = x # xs"
    by (meson neq_Nil_conv split_char_ne)
  with Cons show ?case
    by (cases xs) (auto simp: join_Cons)
qed simp

lemma split_char_parts: "x \<in> set (split_char d s) \<Longrightarrow> d \<notin> set x"
proof (induction s arbitrary: x)
  case (Cons c s)
  obtain y ys where y: "split_char d s = y # ys"
    by (meson neq_Nil_conv split_char_ne)
  with Cons show ?case by (auto split: if_splits)
qed simp

lemma split_char_none: "d \<notin> set x \<Longrightarrow> split_char d x = [x]"
  by (induction x) auto

lemma split_char_append:
  "d \<notin> set x \<Longrightarrow> split_char d (x @ d # s) = x # split_char d s"
  by (induction x) auto

lemma split_char_join:
  "xs \<noteq> [] \<Longrightarrow> \<forall>x \<in> set xs. d \<notin> set x \<Longrightarrow> split_char d (join [d] xs) = xs"
proof (induction xs)
  case (Cons x xs)
  then show ?case
    by (cases xs) (auto simp: split_char_append split_char_none)
qed simp

lemma split_char_append_any: "split_char d (x @ d # s) = split_char d x @ split_char d s"
  by (induction x) (auto split: list.splits)

lemma join_append:
  "xs \<noteq> [] \<Longrightarrow> ys \<noteq> [] \<Longrightarrow> join sep (xs @ ys) = join sep xs @ sep @ join sep ys"
  by (induction xs rule: induct_list012) (auto simp: join_Cons)

lemma split_char_join_any: "xs \<noteq> [] \<Longrightarrow> split_char d (join [d] xs) = concat (map (split_char d) xs)"
  by (induction xs rule: induct_list012) (simp_all add: split_char_append_any)

text \<open>The parts of a split text are its stretches without the separator that reach from one
  separator, or the start, to the next, or the end.\<close>

definition part_of :: "char \<Rightarrow> string \<Rightarrow> string \<Rightarrow> bool" where
  "part_of d s x \<longleftrightarrow>
     d \<notin> set x \<and> (\<exists>a b. s = a @ x @ b \<and> (a = [] \<or> last a = d) \<and> (b = [] \<or> hd b = d))"

lemma set_split_char: "x \<in> set (split_char d s) \<longleftrightarrow> part_of d s x"
proof
  assume x: "x \<in> set (split_char d s)"
  then obtain p q where pq: "split_char d s = p @ x # q" by (meson split_list)
  then have s: "s = join [d] (p @ x # q)" by (metis join_split_char)
  have front: "join [d] (p @ x # q) = (if p = [] then [] else join [d] p @ [d]) @ join [d] (x # q)"
    by (simp add: join_append)
  have rest: "join [d] (x # q) = x @ (if q = [] then [] else d # join [d] q)"
    by (simp add: join_Cons)
  show "part_of d s x"
    unfolding part_of_def using split_char_parts [OF x]
    by (intro conjI exI [of _ "if p = [] then [] else join [d] p @ [d]"]
        exI [of _ "if q = [] then [] else d # join [d] q"]) (simp_all add: s front rest)
next
  assume "part_of d s x"
  then obtain a b where ab: "s = a @ x @ b" "a = [] \<or> last a = d" "b = [] \<or> hd b = d" "d \<notin> set x"
    by (auto simp: part_of_def)
  have tail: "x \<in> set (split_char d (x @ b))"
  proof (cases b)
    case Nil
    with ab(4) show ?thesis by (simp add: split_char_none)
  next
    case (Cons c b')
    with ab show ?thesis by (simp add: split_char_append)
  qed
  show "x \<in> set (split_char d s)"
  proof (cases a rule: rev_cases)
    case Nil
    with ab(1) tail show ?thesis by simp
  next
    case (snoc a' c)
    with ab have "s = a' @ d # (x @ b)" by simp
    with tail show ?thesis by (simp add: split_char_append_any)
  qed
qed

subsection \<open>Facts about searching and replacing\<close>

lemma sub_index_Some:
  "sub_index p s = Some i \<Longrightarrow> prefix p (drop i s) \<and> i + length p \<le> length s"
proof (induction p s arbitrary: i rule: sub_index.induct)
  case (1 p)
  then show ?case by (simp split: if_splits)
next
  case (2 p c s)
  show ?case
  proof (cases "prefix p (c # s)")
    case True
    with 2 show ?thesis using prefix_length_le by fastforce
  next
    case False
    with 2 show ?thesis by auto
  qed
qed

lemma sub_index_split:
  assumes "sub_index p s = Some i"
  shows "s = take i s @ p @ drop (i + length p) s"
proof -
  from sub_index_Some [OF assms] obtain r where r: "drop i s = p @ r"
    by (auto simp: prefix_def)
  then have "drop (length p) (drop i s) = r" by simp
  then have "drop (i + length p) s = r" by (simp add: add.commute)
  with r show ?thesis by (metis append_take_drop_id)
qed

lemma str_includes_iff: "str_includes s p \<longleftrightarrow> sublist p s"
proof -
  have "sub_index p s = None \<longleftrightarrow> \<not> sublist p s"
    by (induction p s rule: sub_index.induct) (auto simp: sublist_Cons_right)
  then show ?thesis by (simp add: str_includes_def)
qed

lemma expand_no_dollar: "CHR ''$'' \<notin> set r \<Longrightarrow> expand m b a r = r"
  by (induction m b a r rule: expand.induct) auto

lemma replace_from_no_dollar:
  "CHR ''$'' \<notin> set r \<Longrightarrow> replace_from p r b s = replace_verbatim p r s"
proof (induction p r b s rule: replace_from.induct)
  case (1 p r b s)
  show ?case
  proof (cases s)
    case Nil
    then show ?thesis by (simp add: replace_from.simps replace_verbatim.simps)
  next
    case (Cons c cs)
    show ?thesis
    proof (cases "p \<noteq> [] \<and> prefix p s")
      case True
      with 1 Cons show ?thesis
        by (subst replace_from.simps, subst replace_verbatim.simps) (simp add: expand_no_dollar)
    next
      case False
      with 1(2) [OF Cons] 1(3) Cons show ?thesis
        by (subst replace_from.simps, subst replace_verbatim.simps) auto
    qed
  qed
qed

lemma replace_all_no_dollar:
  "CHR ''$'' \<notin> set r \<Longrightarrow> replace_all s p r = replace_verbatim p r s"
  by (simp add: replace_all_def replace_from_no_dollar)

lemma replace_verbatim_absent: "\<not> sublist p s \<Longrightarrow> replace_verbatim p r s = s"
proof (induction p r s rule: replace_verbatim.induct)
  case (1 p r s)
  show ?case
  proof (cases s)
    case Nil
    then show ?thesis by (simp add: replace_verbatim.simps)
  next
    case (Cons c cs)
    with 1 show ?thesis
      by (subst replace_verbatim.simps) (auto simp: sublist_Cons_right)
  qed
qed

lemma replace_verbatim_parts:
  "p \<noteq> [] \<Longrightarrow> \<exists>parts. parts \<noteq> [] \<and> s = join p parts \<and> replace_verbatim p r s = join r parts"
proof (induction p r s rule: replace_verbatim.induct)
  case (1 p r s)
  show ?case
  proof (cases s)
    case Nil
    then show ?thesis by (intro exI [of _ "[[]]"]) (simp add: replace_verbatim.simps)
  next
    case (Cons c cs)
    show ?thesis
    proof (cases "prefix p s")
      case True
      with 1(1) [OF Cons] 1(3) obtain parts where "parts \<noteq> []" "drop (length p) s = join p parts"
        "replace_verbatim p r (drop (length p) s) = join r parts"
        by auto
      moreover have "s = p @ drop (length p) s" using True by (auto simp: prefix_def)
      moreover have "replace_verbatim p r s = r @ replace_verbatim p r (drop (length p) s)"
        using True Cons 1(3) by (subst replace_verbatim.simps) simp
      ultimately show ?thesis
        by (intro exI [of _ "[] # parts"]) (simp add: join_Cons)
    next
      case False
      with 1(2) [OF Cons] 1(3) obtain x xs where xs: "cs = join p (x # xs)"
        "replace_verbatim p r cs = join r (x # xs)"
        by (metis neq_Nil_conv)
      have "replace_verbatim p r s = c # replace_verbatim p r cs"
        using False Cons by (subst replace_verbatim.simps) simp
      with xs Cons show ?thesis
        by (intro exI [of _ "(c # x) # xs"]) (cases xs; simp)
    qed
  qed
qed

lemma set_replace_verbatim: "set (replace_verbatim p r s) \<subseteq> set r \<union> set s"
proof (induction p r s rule: replace_verbatim.induct)
  case (1 p r s)
  show ?case
  proof (cases s)
    case Nil
    then show ?thesis by (simp add: replace_verbatim.simps)
  next
    case (Cons c cs)
    with 1 show ?thesis
      using set_drop_subset [of "length p" s] by (subst replace_verbatim.simps) auto
  qed
qed

subsection \<open>Facts about trimming and case\<close>

lemma trim_end_append_space: "\<forall>c \<in> set t. is_space c \<Longrightarrow> trim_end (s @ t) = trim_end s"
  unfolding trim_end_def rev_append by (subst dropWhile_append2) auto

lemma trim_end_last: "trim_end s \<noteq> [] \<Longrightarrow> \<not> is_space (last (trim_end s))"
  using hd_dropWhile [of is_space "rev s"] by (simp add: trim_end_def last_rev)

lemma trim_end_id: "s = [] \<or> \<not> is_space (last s) \<Longrightarrow> trim_end s = s"
  by (cases s rule: rev_cases) (auto simp: trim_end_def)

lemma trim_end_idem [simp]: "trim_end (trim_end s) = trim_end s"
  using trim_end_last trim_end_id by blast

lemma prefix_trim_end: "prefix (trim_end s) s"
proof -
  have "suffix (dropWhile is_space (rev s)) (rev s)" by (rule suffix_dropWhile)
  then show ?thesis by (simp add: trim_end_def suffix_to_prefix)
qed

lemma trim_idem [simp]: "trim (trim s) = trim s"
proof -
  have "trim_start (trim s) = trim s"
  proof (cases "trim s")
    case (Cons c cs)
    then have "trim_start s \<noteq> []" "c = hd (trim_start s)"
      using prefix_trim_end [of "trim_start s"] by (auto simp: trim_def prefix_def)
    then have "\<not> is_space c"
      using hd_dropWhile [of is_space s] by (simp add: trim_start_def)
    with Cons show ?thesis by (simp add: trim_start_def)
  qed (simp add: trim_start_def)
  then show ?thesis by (simp add: trim_def)
qed

lemma lower_char_idem [simp]: "lower_char (lower_char c) = lower_char c"
  by (auto simp: lower_char_def code_def of_char_of)

lemma to_lower_idem [simp]: "to_lower (to_lower s) = to_lower s"
  by (simp add: to_lower_def)

lemma to_lower_Nil [simp]: "to_lower s = [] \<longleftrightarrow> s = []"
  by (simp add: to_lower_def)

end
