(* ===== verification/NodePath.thy ===== *)
theory NodePath
  imports JsString
begin

section \<open>Node's path module (POSIX)\<close>

text \<open>
  \<open>path.resolve\<close>, \<open>path.extname\<close>, \<open>path.join\<close> and \<open>path.dirname\<close>. The first argument of \<open>resolve\<close> is
  the current working directory, which the command line takes from \<open>process.cwd()\<close> and is
  absolute.
\<close>

type_synonym path = string

definition slash :: char where "slash = CHR ''/''"

fun normalize_step :: "string list \<Rightarrow> string \<Rightarrow> string list" where
  "normalize_step acc seg =
     (if seg = [] \<or> seg = ''.'' then acc
      else if seg = ''..'' then butlast acc
      else acc @ [seg])"

definition normalize_segments :: "string list \<Rightarrow> string list" where
  "normalize_segments segs = foldl normalize_step [] segs"

definition is_absolute :: "path \<Rightarrow> bool" where
  "is_absolute p \<longleftrightarrow> p \<noteq> [] \<and> hd p = slash"

definition resolve :: "path \<Rightarrow> path \<Rightarrow> path" where
  "resolve cwd p =
     slash # join [slash]
       (normalize_segments (split_char slash (if is_absolute p then p else cwd @ slash # p)))"

definition base_name :: "path \<Rightarrow> string" where
  "base_name p =
     (let stripped = rev (dropWhile (\<lambda>c. c = slash) (rev p))
      in last (split_char slash stripped))"

definition ext_name :: "path \<Rightarrow> string" where
  "ext_name p =
     (let b = base_name p; tail = takeWhile (\<lambda>c. c \<noteq> CHR ''.'') (rev b);
          i = length b - length tail
      in if CHR ''.'' \<notin> set b \<or> i = 1 \<or> b = ''..'' then [] else CHR ''.'' # rev tail)"

text \<open>\<open>path.normalize\<close>: a relative path may climb above its start, a trailing slash is kept.\<close>

fun relative_step :: "bool \<Rightarrow> string list \<Rightarrow> string \<Rightarrow> string list" where
  "relative_step abs_path acc seg =
     (if seg = [] \<or> seg = ''.'' then acc
      else if seg = ''..''
      then (if acc \<noteq> [] \<and> last acc \<noteq> ''..'' then butlast acc
            else if abs_path then acc else acc @ [seg])
      else acc @ [seg])"

definition normalize_path :: "path \<Rightarrow> path" where
  "normalize_path p =
     (if p = [] then ''.''
      else
        let body = join [slash] (foldl (relative_step (is_absolute p)) [] (split_char slash p));
            trail = (if last p = slash then [slash] else [])
        in if body = [] then (if is_absolute p then [slash] else ''.'' @ trail)
           else (if is_absolute p then [slash] else []) @ body @ trail)"

definition path_join :: "path list \<Rightarrow> path" where
  "path_join ps = (let qs = filter (\<lambda>p. p \<noteq> []) ps
     in if qs = [] then ''.'' else normalize_path (join [slash] qs))"

definition dir_name :: "path \<Rightarrow> path" where
  "dir_name p =
     (let rest = dropWhile (\<lambda>c. c \<noteq> slash) (dropWhile (\<lambda>c. c = slash) (rev (drop 1 p)))
      in if p = [] then ''.''
         else if rest = [] then (if is_absolute p then [slash] else ''.'')
         else if is_absolute p \<and> length rest = 1 then [slash, slash]
         else take (length rest) p)"

subsection \<open>Resolving an already resolved path\<close>

definition plain_segment :: "string \<Rightarrow> bool" where
  "plain_segment s \<longleftrightarrow> s \<noteq> [] \<and> s \<noteq> ''.'' \<and> s \<noteq> ''..'' \<and> slash \<notin> set s"

lemma normalize_segments_plain:
  assumes "\<forall>s \<in> set segs. slash \<notin> set s"
  shows "\<forall>s \<in> set (normalize_segments segs). plain_segment s"
proof -
  have "\<forall>s \<in> set (foldl normalize_step acc segs). plain_segment s"
    if "\<forall>s \<in> set acc. plain_segment s" for acc
    using that assms
  proof (induction segs arbitrary: acc)
    case (Cons s segs)
    have "\<forall>x \<in> set (normalize_step acc s). plain_segment x"
      using Cons.prems by (auto simp: plain_segment_def dest: in_set_butlastD)
    with Cons show ?case by simp
  qed simp
  from this [of "[]"] show ?thesis by (simp add: normalize_segments_def)
qed

lemma normalize_segments_id:
  assumes "\<forall>s \<in> set segs. plain_segment s"
  shows "normalize_segments segs = segs"
proof -
  have "foldl normalize_step acc segs = acc @ segs" for acc
    using assms by (induction segs arbitrary: acc) (auto simp: plain_segment_def)
  then show ?thesis by (simp add: normalize_segments_def)
qed

lemma resolve_absolute [simp]: "is_absolute (resolve cwd p)" "resolve cwd p \<noteq> []"
  by (simp_all add: resolve_def is_absolute_def)

lemma normalize_segments_empty_head [simp]:
  "normalize_segments ([] # segs) = normalize_segments segs"
  by (simp add: normalize_segments_def)

text \<open>Resolving is idempotent, whatever the directories.\<close>

lemma resolve_idem: "resolve cwd (resolve cwd' p) = resolve cwd' p"
proof -
  define segs where
    "segs = normalize_segments (split_char slash (if is_absolute p then p else cwd' @ slash # p))"
  have plain: "\<forall>s \<in> set segs. plain_segment s"
    unfolding segs_def by (intro normalize_segments_plain ballI) (rule split_char_parts)
  have r: "resolve cwd' p = slash # join [slash] segs"
    by (simp add: resolve_def segs_def)
  have "normalize_segments (split_char slash (slash # join [slash] segs)) = segs"
  proof (cases "segs = []")
    case True
    then show ?thesis by (simp add: normalize_segments_def)
  next
    case False
    then have "split_char slash (join [slash] segs) = segs"
      using plain by (intro split_char_join) (auto simp: plain_segment_def)
    then show ?thesis
      using plain by (simp add: normalize_segments_id)
  qed
  then show ?thesis
    by (simp add: resolve_def [of cwd] r is_absolute_def)
qed

end
