(* ===== verification/EmbedGraph.thy ===== *)
theory EmbedGraph
  imports NodePath
begin

section \<open>embedex: the dependency graph of destinations\<close>

text \<open>
  Models \<open>packages/embedex/src/lib/internal/dependencyGraph.ts\<close>: building the graph from the
  destination map, the depth-first search for a circular dependency, and Kahn's topological
  sort. Both searches mutate local maps and arrays; here those are the records \<open>dfs\<close> and
  \<open>kahn\<close>, passed along. The recursion \<open>hasCycle\<close> takes fuel (its depth is at most the number
  of destinations, \<open>detect_total\<close>); Kahn's \<open>while\<close> loop is proved to stop on every input.
\<close>

named_theorems graph_defs \<open>definitions of the graph vocabulary\<close>

record embed_source =
  src_content :: string
  src_destinations :: "path list"

record embed_destination =
  dest_content :: string
  dest_sources :: "path list"

type_synonym source_map = "(path, embed_source) js_map"
type_synonym destination_map = "(path, embed_destination) js_map"

record dependency_graph =
  dependencies :: "(path, path list) js_map"
  destinations :: "path list"

subsection \<open>buildDependencyGraph\<close>

definition add_dependency ::
  "path \<Rightarrow> path list \<Rightarrow> (path, path list) js_map \<Rightarrow> path \<Rightarrow> (path, path list) js_map" where
  "add_dependency dp ds m s =
     (if s \<in> set ds
      then (case map_get m dp of None \<Rightarrow> m | Some old \<Rightarrow> map_set dp (set_add s old) m)
      else m)"

definition build_dependency_graph :: "destination_map \<Rightarrow> dependency_graph" where
  "build_dependency_graph dm =
     (let ds = set_of_list (map_keys dm);
          deps0 = foldl (\<lambda>m d. map_set d [] m) [] ds;
          deps = foldl (\<lambda>m (dp, dest). foldl (add_dependency dp ds) m (dest_sources dest)) deps0 dm
      in \<lparr>dependencies = deps, destinations = ds\<rparr>)"

subsection \<open>detectCircularDependency\<close>

datatype mark = Unvisited | Visiting | Visited

record dfs =
  visited :: "(path, mark) js_map"
  dfs_path :: "path list"
  cycle_node :: "path option"

definition deps_of :: "dependency_graph \<Rightarrow> path \<Rightarrow> path list" where
  "deps_of g node = (case map_get (dependencies g) node of None \<Rightarrow> [] | Some ds \<Rightarrow> ds)"

definition mark_visiting :: "path \<Rightarrow> dfs \<Rightarrow> dfs" where
  "mark_visiting node st =
     st\<lparr>visited := map_set node Visiting (visited st), dfs_path := dfs_path st @ [node]\<rparr>"

definition mark_visited :: "path \<Rightarrow> dfs \<Rightarrow> dfs" where
  "mark_visited node st =
     st\<lparr>visited := map_set node Visited (visited st), dfs_path := butlast (dfs_path st)\<rparr>"

fun has_cycle :: "nat \<Rightarrow> dependency_graph \<Rightarrow> path \<Rightarrow> dfs \<Rightarrow> (bool \<times> dfs) option"
and has_cycle_deps :: "nat \<Rightarrow> dependency_graph \<Rightarrow> path list \<Rightarrow> dfs \<Rightarrow> (bool \<times> dfs) option" where
  "has_cycle 0 g node st = None"
| "has_cycle (Suc n) g node st =
     (if map_get (visited st) node = Some Visiting then Some (True, st\<lparr>cycle_node := Some node\<rparr>)
      else if map_get (visited st) node = Some Visited then Some (False, st)
      else
        (case has_cycle_deps n g (deps_of g node) (mark_visiting node st) of
           None \<Rightarrow> None
         | Some (found, st2) \<Rightarrow>
             if found then Some (True, st2) else Some (False, mark_visited node st2)))"
| "has_cycle_deps n g [] st = Some (False, st)"
| "has_cycle_deps n g (d # ds) st =
     (case has_cycle n g d st of
        None \<Rightarrow> None
      | Some (found, st2) \<Rightarrow> if found then Some (True, st2) else has_cycle_deps n g ds st2)"

text \<open>The code tests \<open>!cycleNode\<close>, which is also true of the empty string.\<close>

definition extract_cycle :: "dfs \<Rightarrow> path list" where
  "extract_cycle st =
     (case cycle_node st of
        None \<Rightarrow> []
      | Some c \<Rightarrow>
          if c = [] then [] else slice_from (index_of c (dfs_path st)) (dfs_path st) @ [c])"

fun detect_from :: "nat \<Rightarrow> dependency_graph \<Rightarrow> path list \<Rightarrow> dfs \<Rightarrow> path list option option" where
  "detect_from n g [] st = Some None"
| "detect_from n g (d # ds) st =
     (if map_get (visited st) d = Some Unvisited
      then (case has_cycle n g d st of
              None \<Rightarrow> None
            | Some (found, st2) \<Rightarrow>
                if found then Some (Some (extract_cycle st2)) else detect_from n g ds st2)
      else detect_from n g ds st)"

definition init_dfs :: "dependency_graph \<Rightarrow> dfs" where
  "init_dfs g =
     \<lparr>visited = foldl (\<lambda>m d. map_set d Unvisited m) [] (destinations g),
      dfs_path = [], cycle_node = None\<rparr>"

definition detect_circular_dependency :: "dependency_graph \<Rightarrow> path list option option" where
  "detect_circular_dependency g =
     detect_from (Suc (length (destinations g))) g (destinations g) (init_dfs g)"

subsection \<open>topologicalSort\<close>

datatype sort_error = MissingKey path | GraphHasCycle

record kahn =
  in_degree :: "(path, int) js_map"
  kahn_queue :: "path list"
  kahn_result :: "path list"

fun relax :: "kahn \<Rightarrow> path list \<Rightarrow> kahn" where
  "relax st [] = st"
| "relax st (d # ds) =
     (case map_get (in_degree st) d of
        None \<Rightarrow> relax st ds
      | Some k \<Rightarrow>
          let st2 = st\<lparr>in_degree := map_set d (k - 1) (in_degree st)\<rparr>
          in relax (if k - 1 = 0 then st2\<lparr>kahn_queue := kahn_queue st2 @ [d]\<rparr> else st2) ds)"

text \<open>What makes the loop stop: every iteration removes one queue entry, and a degree can
  only reach zero once.\<close>

definition kahn_measure :: "kahn \<Rightarrow> nat" where
  "kahn_measure st = sum_list (map (\<lambda>p. nat (snd p)) (in_degree st)) + length (kahn_queue st)"

lemma sum_update:
  "map_of m k = Some v \<Longrightarrow>
     sum_list (map (\<lambda>p. nat (snd p)) (AList.update k v' m)) + nat v =
     sum_list (map (\<lambda>p. nat (snd p)) m) + nat v'"
  by (induction m) (auto split: if_splits)

lemma relax_measure: "kahn_measure (relax st ds) \<le> kahn_measure st"
proof (induction ds arbitrary: st)
  case (Cons d ds)
  show ?case
  proof (cases "map_of (in_degree st) d")
    case None
    then show ?thesis using Cons.IH [of st] by simp
  next
    case (Some k)
    let ?st2 = "st\<lparr>in_degree := map_set d (k - 1) (in_degree st)\<rparr>"
    let ?st3 = "if k - 1 = 0 then ?st2\<lparr>kahn_queue := kahn_queue ?st2 @ [d]\<rparr> else ?st2"
    have "kahn_measure ?st3 \<le> kahn_measure st"
      using sum_update [OF Some, of "k - 1"] by (auto simp: kahn_measure_def)
    with Cons.IH [of ?st3] Some show ?thesis
      by (simp add: Let_def)
  qed
qed simp

function kahn_loop :: "(path, path list) js_map \<Rightarrow> kahn \<Rightarrow> kahn" where
  "kahn_loop dependents st =
     (case kahn_queue st of
        [] \<Rightarrow> st
      | current # rest \<Rightarrow>
          kahn_loop dependents
            (relax (st\<lparr>kahn_queue := rest, kahn_result := kahn_result st @ [current]\<rparr>)
               (case map_get dependents current of None \<Rightarrow> [] | Some ds \<Rightarrow> ds)))"
  by pat_completeness auto
termination
proof (relation "measure (\<lambda>(_, st). kahn_measure st)")
  fix dependents :: "(path, path list) js_map" and st :: kahn and current rest
  assume q: "kahn_queue st = current # rest"
  let ?st1 = "st\<lparr>kahn_queue := rest, kahn_result := kahn_result st @ [current]\<rparr>"
  have "kahn_measure ?st1 < kahn_measure st"
    using q by (simp add: kahn_measure_def)
  then show "((dependents, relax ?st1 (case map_get dependents current of None \<Rightarrow> [] | Some ds \<Rightarrow> ds)),
      dependents, st) \<in> measure (\<lambda>(_, st). kahn_measure st)"
    using relax_measure [of ?st1] le_less_trans by auto
qed simp

declare kahn_loop.simps [simp del]

definition init_in_degree :: "dependency_graph \<Rightarrow> sort_error + (path, int) js_map" where
  "init_in_degree g =
     fold_result (\<lambda>m d. case map_get (dependencies g) d of
         None \<Rightarrow> Inl (MissingKey d)
       | Some ds \<Rightarrow> Inr (map_set d (int (length ds)) m)) [] (destinations g)"

definition add_dependent ::
  "path \<Rightarrow> (path, path list) js_map \<Rightarrow> path \<Rightarrow> sort_error + (path, path list) js_map" where
  "add_dependent dest m dependency =
     (case map_get m dependency of
        None \<Rightarrow> Inl (MissingKey dependency)
      | Some old \<Rightarrow> Inr (map_set dependency (set_add dest old) m))"

definition build_dependents :: "dependency_graph \<Rightarrow> sort_error + (path, path list) js_map" where
  "build_dependents g =
     fold_result (\<lambda>m (dest, deps). fold_result (add_dependent dest) m deps)
       (foldl (\<lambda>m d. map_set d [] m) [] (destinations g)) (dependencies g)"

definition topological_sort :: "dependency_graph \<Rightarrow> sort_error + path list" where
  "topological_sort g =
     bind_result (init_in_degree g) (\<lambda>deg.
     bind_result (build_dependents g) (\<lambda>dependents.
       let queue = map fst (filter (\<lambda>(_, degree). degree = 0) deg);
           st = kahn_loop dependents \<lparr>in_degree = deg, kahn_queue = queue, kahn_result = []\<rparr>
       in if length (kahn_result st) \<noteq> length (destinations g) then Inl GraphHasCycle
          else Inr (kahn_result st)))"

subsection \<open>Well-formed graphs\<close>

text \<open>What \<open>buildDependencyGraph\<close> guarantees: one dependency set per destination, and every
  dependency is itself a destination.\<close>

definition wf_graph :: "dependency_graph \<Rightarrow> bool" where
  "wf_graph g \<longleftrightarrow>
     distinct (destinations g) \<and> distinct (map_keys (dependencies g)) \<and>
     set (map_keys (dependencies g)) = set (destinations g) \<and>
     (\<forall>(d, ds) \<in> set (dependencies g). distinct ds \<and> set ds \<subseteq> set (destinations g))"

definition depends :: "dependency_graph \<Rightarrow> (path \<times> path) set" where
  "depends g = {(a, b). b \<in> set (deps_of g a)}"

lemma wf_deps_of:
  assumes "wf_graph g"
  shows "set (deps_of g a) \<subseteq> set (destinations g)" "distinct (deps_of g a)"
    "deps_of g a \<noteq> [] \<Longrightarrow> a \<in> set (destinations g)"
proof -
  have "a \<in> set (destinations g) \<and> set ds \<subseteq> set (destinations g) \<and> distinct ds"
    if "map_of (dependencies g) a = Some ds" for ds
  proof -
    from that have "(a, ds) \<in> set (dependencies g)"
      by (rule map_of_SomeD)
    moreover from this have "a \<in> set (map_keys (dependencies g))"
      by (rule mem_keys)
    ultimately show ?thesis
      using assms unfolding wf_graph_def by blast
  qed
  note * = this
  show "set (deps_of g a) \<subseteq> set (destinations g)"
    using * by (cases "map_of (dependencies g) a") (simp_all add: deps_of_def)
  show "distinct (deps_of g a)"
    using * by (cases "map_of (dependencies g) a") (simp_all add: deps_of_def)
  show "a \<in> set (destinations g)" if "deps_of g a \<noteq> []"
    using * that by (cases "map_of (dependencies g) a") (simp_all add: deps_of_def)
qed

lemma depends_field:
  assumes "wf_graph g"
  shows "depends g \<subseteq> set (destinations g) \<times> set (destinations g)"
proof clarify
  fix a b assume "(a, b) \<in> depends g"
  then have b: "b \<in> set (deps_of g a)" by (simp add: depends_def)
  then have "deps_of g a \<noteq> []" by auto
  with wf_deps_of(1,3) [OF assms, of a] b
  show "a \<in> set (destinations g) \<and> b \<in> set (destinations g)" by blast
qed

lemma map_get_foldl_const:
  "map_of (foldl (\<lambda>m d. map_set d v m) m ds) k = (if k \<in> set ds then Some v else map_of m k)"
  by (induction ds arbitrary: m) auto

lemma keys_foldl_set:
  "distinct (map fst m @ ds) \<Longrightarrow> map fst (foldl (\<lambda>m d. map_set d v m) m ds) = map fst m @ ds"
proof (induction ds arbitrary: m)
  case (Cons d ds)
  have "map fst (map_set d v m) = map fst m @ [d]"
    using Cons.prems by (simp add: update_keys)
  with Cons.IH [of "map_set d v m"] Cons.prems show ?case by (simp del: update_keys)
qed simp

lemma foldl_keys:
  "(\<And>m x. map fst (f m x) = map fst m) \<Longrightarrow> map fst (foldl f m xs) = map fst m"
  by (induction xs arbitrary: m) auto

lemma keys_add_dependency [simp]: "map fst (add_dependency dp ds m s) = map fst m"
proof -
  have "dp \<in> set (map fst m)" if "map_of m dp \<noteq> None"
    using that by (metis list.set_map map_of_eq_None_iff)
  then show ?thesis
    by (auto simp: add_dependency_def split: option.splits)
qed

lemma add_dependency_get:
  "map_of (add_dependency dp ds m s) k =
     (if k = dp \<and> s \<in> set ds then map_option (set_add s) (map_of m dp) else map_of m k)"
  by (auto simp: add_dependency_def split: option.splits)

lemma foldl_add_dependency_get:
  assumes "map_of m dp = Some old" and "distinct old"
  shows "\<exists>new. map_of (foldl (add_dependency dp ds) m ss) dp = Some new \<and> distinct new \<and>
           set new = set old \<union> (set ss \<inter> set ds) \<and>
           (\<forall>k. k \<noteq> dp \<longrightarrow> map_of (foldl (add_dependency dp ds) m ss) k = map_of m k)"
  using assms
proof (induction ss arbitrary: m old)
  case (Cons s ss)
  let ?m = "add_dependency dp ds m s"
  have "map_of ?m dp = Some (if s \<in> set ds then set_add s old else old)"
    using Cons.prems by (simp add: add_dependency_get)
  moreover have "\<forall>k. k \<noteq> dp \<longrightarrow> map_of ?m k = map_of m k"
    by (simp add: add_dependency_get)
  ultimately show ?case
    using Cons.IH [of ?m] Cons.prems by (auto split: if_splits)
qed simp

text \<open>The dependencies built are exactly the sources that are themselves destinations.\<close>

lemma foldl_dependencies_get:
  assumes "distinct (map_keys dm)" and "\<forall>k \<in> set (map_keys dm). map_of m k = Some []"
  shows "\<forall>(dp, dest) \<in> set dm. \<exists>new.
      map_of (foldl (\<lambda>m (dp, dest). foldl (add_dependency dp ds) m (dest_sources dest)) m dm) dp
        = Some new \<and> distinct new \<and> set new = set (dest_sources dest) \<inter> set ds"
proof -
  let ?f = "\<lambda>m (dp, dest). foldl (add_dependency dp ds) m (dest_sources dest)"
  have frame: "map_of (foldl ?f m xs) k = map_of m k"
    if "k \<notin> set (map fst xs)" "\<forall>k \<in> set (map fst xs). \<exists>o'. map_of m k = Some o' \<and> distinct o'" for m xs k
    using that
  proof (induction xs arbitrary: m)
    case (Cons x xs)
    obtain dp dest where x: "x = (dp, dest)" by (cases x)
    from Cons.prems(2) x obtain o' where "map_of m dp = Some o'" "distinct o'" by auto
    note step = foldl_add_dependency_get [OF this, of ds "dest_sources dest"]
    have "\<forall>k \<in> set (map fst xs). \<exists>o'. map_of (?f m x) k = Some o' \<and> distinct o'"
    proof
      fix k' assume k': "k' \<in> set (map fst xs)"
      show "\<exists>o'. map_of (?f m x) k' = Some o' \<and> distinct o'"
      proof (cases "k' = dp")
        case True
        with step x show ?thesis by (simp only: case_prod_conv) blast
      next
        case False
        with step x have "map_of (?f m x) k' = map_of m k'" by (simp only: case_prod_conv) blast
        moreover have "k' \<in> set (map fst (x # xs))" using k' by simp
        ultimately show ?thesis using Cons.prems(2) by metis
      qed
    qed
    moreover have "map_of (?f m x) k = map_of m k"
      using step x Cons.prems(1) by (simp only: case_prod_conv list.map fst_conv list.set_intros) auto
    ultimately show ?case
      using Cons.IH [of "?f m x"] Cons.prems(1) by simp
  qed simp
  show ?thesis
    using assms
  proof (induction dm arbitrary: m)
    case (Cons x xs)
    obtain dp dest where x: "x = (dp, dest)" by (cases x)
    from Cons.prems(2) x have "map_of m dp = Some []" "distinct ([] :: path list)" by auto
    note step = foldl_add_dependency_get [OF this, of ds "dest_sources dest"]
    have notin: "dp \<notin> set (map fst xs)" using Cons.prems(1) x by simp
    have keep: "\<forall>k \<in> set (map fst xs). map_of (?f m x) k = Some []"
    proof
      fix k assume k: "k \<in> set (map fst xs)"
      with notin have "k \<noteq> dp" by blast
      with step x have "map_of (?f m x) k = map_of m k" by (simp only: case_prod_conv) blast
      moreover have "k \<in> set (map fst (x # xs))" using k by simp
      ultimately show "map_of (?f m x) k = Some []" using Cons.prems(2) by metis
    qed
    have "map_of (foldl ?f (?f m x) xs) dp = map_of (?f m x) dp"
      using keep notin by (intro frame) auto
    moreover have "distinct (map fst xs)" using Cons.prems(1) by simp
    note Cons.IH [OF this keep]
    moreover have "\<exists>new. map_of (?f m x) dp = Some new \<and> distinct new \<and>
        set new = set (dest_sources dest) \<inter> set ds"
      using step x by (simp only: case_prod_conv) (metis sup_bot.left_neutral list.set(1))
    ultimately show ?case using x by simp
  qed simp
qed

lemma build_dependency_graph_wf:
  assumes "distinct (map_keys dm)"
  shows "wf_graph (build_dependency_graph dm)"
    and "destinations (build_dependency_graph dm) = map_keys dm"
    and "map_of dm a = Some dest \<Longrightarrow>
           set (deps_of (build_dependency_graph dm) a) = set (dest_sources dest) \<inter> set (map_keys dm)"
proof -
  let ?ds = "map_keys dm"
  let ?m0 = "foldl (\<lambda>m d. map_set d [] m) [] ?ds"
  let ?f = "\<lambda>m (dp, dest). foldl (add_dependency dp ?ds) m (dest_sources dest)"
  have g: "build_dependency_graph dm = \<lparr>dependencies = foldl ?f ?m0 dm, destinations = ?ds\<rparr>"
    using assms by (simp add: build_dependency_graph_def Let_def set_of_list_distinct)
  have keys0: "map fst ?m0 = ?ds"
    using assms by (subst keys_foldl_set) auto
  have keys: "map fst (foldl ?f ?m0 dm) = ?ds"
    by (subst foldl_keys) (auto simp: keys0 intro: foldl_keys)
  have "\<forall>k \<in> set ?ds. map_of ?m0 k = Some []"
    by (simp add: map_get_foldl_const)
  from foldl_dependencies_get [OF assms this, of ?ds]
  have got: "\<exists>new. map_of (foldl ?f ?m0 dm) dp = Some new \<and> distinct new \<and>
      set new = set (dest_sources dest) \<inter> set ?ds" if "(dp, dest) \<in> set dm" for dp dest
    using that by blast
  have "distinct ds' \<and> set ds' \<subseteq> set ?ds" if "(d, ds') \<in> set (foldl ?f ?m0 dm)" for d ds'
  proof -
    have "d \<in> set ?ds" using mem_keys [OF that] keys by simp
    then obtain dest where "(d, dest) \<in> set dm" by auto
    from got [OF this] obtain new where new: "map_of (foldl ?f ?m0 dm) d = Some new"
      "distinct new" "set new = set (dest_sources dest) \<inter> set ?ds" by blast
    have "map_of (foldl ?f ?m0 dm) d = Some ds'"
      using that keys assms by (intro map_of_is_SomeI) simp_all
    with new show ?thesis by simp
  qed
  then show "wf_graph (build_dependency_graph dm)"
    unfolding wf_graph_def g using keys assms by auto
  show "destinations (build_dependency_graph dm) = map_keys dm"
    by (simp add: g)
  show "set (deps_of (build_dependency_graph dm) a) = set (dest_sources dest) \<inter> set ?ds"
    if "map_of dm a = Some dest"
  proof -
    from got [OF map_of_SomeD [OF that]] obtain new where
      "map_of (foldl ?f ?m0 dm) a = Some new" "set new = set (dest_sources dest) \<inter> set ?ds" by blast
    then show ?thesis by (simp only: g deps_of_def dependency_graph.select_convs option.case)
  qed
qed

subsection \<open>The depth-first search: invariant\<close>

definition marked :: "mark \<Rightarrow> dfs \<Rightarrow> path set" where
  "marked c st = {v. map_get (visited st) v = Some c}"

text \<open>
  Between calls: the search path is exactly the set of nodes being visited and is a chain of
  dependencies; a finished node has only finished dependencies, and no cycle runs through
  finished nodes.
\<close>

definition dfs_inv :: "dependency_graph \<Rightarrow> dfs \<Rightarrow> bool" where
  "dfs_inv g st \<longleftrightarrow>
     dom (map_of (visited st)) = set (destinations g) \<and>
     set (dfs_path st) = marked Visiting st \<and> distinct (dfs_path st) \<and>
     successively (\<lambda>a b. (a, b) \<in> depends g) (dfs_path st) \<and>
     (\<forall>v \<in> marked Visited st. set (deps_of g v) \<subseteq> marked Visited st) \<and>
     acyclic (depends g \<inter> marked Visited st \<times> UNIV)"

text \<open>What the search knows when it stops at a node it is already visiting.\<close>

definition found_cycle :: "dependency_graph \<Rightarrow> dfs \<Rightarrow> bool" where
  "found_cycle g st \<longleftrightarrow>
     (\<exists>c. cycle_node st = Some c \<and> c \<in> set (dfs_path st) \<and>
        set (dfs_path st) \<subseteq> set (destinations g) \<and>
        successively (\<lambda>a b. (a, b) \<in> depends g) (dfs_path st) \<and>
        (last (dfs_path st), c) \<in> depends g)"

lemma acyclic_add_fresh:
  assumes "acyclic R" and "v \<notin> Range R" and "v \<notin> X"
  shows "acyclic (R \<union> {v} \<times> X)"
proof -
  have "(a, b) \<in> R\<^sup>+" if "(a, b) \<in> (R \<union> {v} \<times> X)\<^sup>+" "a \<noteq> v" for a b
    using that
  proof (induction rule: trancl_induct)
    case (base y)
    then show ?case by auto
  next
    case (step y z)
    from step.IH [OF step.prems] have y: "(a, y) \<in> R\<^sup>+" .
    then have "y \<in> Range R" by (metis Range.intros trancl_range)
    with assms(2) have "y \<noteq> v" by auto
    with step.hyps(2) have "(y, z) \<in> R" by auto
    with y show ?case by (rule trancl_into_trancl)
  qed
  moreover have "v \<notin> Range ((R \<union> {v} \<times> X)\<^sup>+)"
    using assms(2,3) by (auto simp: trancl_range)
  ultimately show ?thesis
    using assms(1) unfolding acyclic_def by (metis Range.intros)
qed

lemma dfs_inv_path_subset: "dfs_inv g st \<Longrightarrow> set (dfs_path st) \<subseteq> set (destinations g)"
  unfolding dfs_inv_def marked_def by blast

lemma marked_mark_visiting:
  "map_of (visited st) v = Some Unvisited \<Longrightarrow>
     marked Visited (mark_visiting v st) = marked Visited st \<and>
     marked Visiting (mark_visiting v st) = insert v (marked Visiting st)"
  by (auto simp: marked_def mark_visiting_def)

lemma marked_mark_visited:
  "marked Visited (mark_visited v st) = insert v (marked Visited st) \<and>
   marked Visiting (mark_visited v st) = marked Visiting st - {v}"
  by (auto simp: marked_def mark_visited_def)

lemma dfs_inv_mark_visiting:
  assumes "dfs_inv g st" and "map_of (visited st) v = Some Unvisited"
    and "dfs_path st = [] \<or> (last (dfs_path st), v) \<in> depends g"
  shows "dfs_inv g (mark_visiting v st)"
proof -
  have "v \<notin> set (dfs_path st)" "v \<in> set (destinations g)"
    using assms(1,2) unfolding dfs_inv_def marked_def by (auto simp: set_eq_iff)
  moreover have "dom (map_of (visited (mark_visiting v st))) = insert v (dom (map_of (visited st)))"
    by (simp add: mark_visiting_def)
  moreover have "dfs_path (mark_visiting v st) = dfs_path st @ [v]"
    by (simp add: mark_visiting_def)
  ultimately show ?thesis
    using assms(1,3) marked_mark_visiting [OF assms(2)]
    unfolding dfs_inv_def by (auto simp: successively_append_iff)
qed

lemma dfs_inv_mark_visited:
  assumes inv: "dfs_inv g st" and path: "dfs_path st = p @ [v]"
    and deps: "set (deps_of g v) \<subseteq> marked Visited st"
  shows "dfs_inv g (mark_visited v st)"
proof -
  let ?B = "marked Visited st"
  have vp: "v \<in> marked Visiting st" "v \<notin> set p"
    using inv path unfolding dfs_inv_def by auto
  then have vB: "v \<notin> ?B" by (auto simp: marked_def)
  have dom: "dom (map_of (visited (mark_visited v st))) = dom (map_of (visited st))"
    using vp(1) by (auto simp: mark_visited_def marked_def)
  have closed: "\<forall>u \<in> ?B. set (deps_of g u) \<subseteq> ?B"
    using inv unfolding dfs_inv_def by blast
  have "depends g \<inter> insert v ?B \<times> UNIV = depends g \<inter> ?B \<times> UNIV \<union> {v} \<times> set (deps_of g v)"
    by (auto simp: depends_def)
  moreover have "acyclic (depends g \<inter> ?B \<times> UNIV \<union> {v} \<times> set (deps_of g v))"
  proof (rule acyclic_add_fresh)
    show "acyclic (depends g \<inter> ?B \<times> UNIV)"
      using inv unfolding dfs_inv_def by blast
    show "v \<notin> Range (depends g \<inter> ?B \<times> UNIV)"
      using closed vB by (auto simp: depends_def)
    show "v \<notin> set (deps_of g v)"
      using deps vB by blast
  qed
  ultimately have acyc: "acyclic (depends g \<inter> insert v ?B \<times> UNIV)" by simp
  have "dfs_path (mark_visited v st) = p"
    by (simp add: mark_visited_def path)
  moreover have "successively (\<lambda>a b. (a, b) \<in> depends g) p" "distinct p" "set p = marked Visiting st - {v}"
    using inv path vp(2) unfolding dfs_inv_def by (auto simp: successively_append_iff)
  ultimately show ?thesis
    using acyc closed deps dom inv marked_mark_visited [of v st]
    unfolding dfs_inv_def by auto
qed

subsection \<open>The depth-first search: what a call returns\<close>

definition dfs_post :: "dependency_graph \<Rightarrow> path list \<Rightarrow> dfs \<Rightarrow> bool \<Rightarrow> dfs \<Rightarrow> bool" where
  "dfs_post g nodes st found st' \<longleftrightarrow>
     (if found then found_cycle g st'
      else dfs_inv g st' \<and> dfs_path st' = dfs_path st \<and>
        set nodes \<subseteq> marked Visited st' \<and> marked Visited st \<subseteq> marked Visited st')"

lemma has_cycle_post:
  shows "wf_graph g \<Longrightarrow> has_cycle n g node st = Some (found, st') \<Longrightarrow> dfs_inv g st \<Longrightarrow>
      node \<in> set (destinations g) \<Longrightarrow>
      dfs_path st = [] \<or> (last (dfs_path st), node) \<in> depends g \<Longrightarrow> dfs_post g [node] st found st'"
    and "wf_graph g \<Longrightarrow> has_cycle_deps n g ds st = Some (found, st') \<Longrightarrow> dfs_inv g st \<Longrightarrow>
      dfs_path st \<noteq> [] \<Longrightarrow> \<forall>d \<in> set ds. (last (dfs_path st), d) \<in> depends g \<Longrightarrow>
      dfs_post g ds st found st'"
proof (induction n g node st and n g ds st arbitrary: found st' and found st'
    rule: has_cycle_has_cycle_deps.induct)
  case (2 n g node st)
  note inv = "2.prems"(3)
  consider (grey) "map_of (visited st) node = Some Visiting"
    | (black) "map_of (visited st) node = Some Visited"
    | (white) "map_of (visited st) node = Some Unvisited"
  proof -
    from "2.prems"(3,4) obtain c where "map_of (visited st) node = Some c"
      unfolding dfs_inv_def by blast
    with that show thesis by (cases c) blast+
  qed
  then show ?case
  proof cases
    case grey
    then have "node \<in> set (dfs_path st)"
      using inv unfolding dfs_inv_def by (simp add: marked_def)
    moreover have "(last (dfs_path st), node) \<in> depends g"
      using "2.prems"(5) calculation by auto
    ultimately have "found_cycle g (st\<lparr>cycle_node := Some node\<rparr>)"
      using inv dfs_inv_path_subset [OF inv] unfolding found_cycle_def dfs_inv_def by auto
    with grey "2.prems"(2) show ?thesis by (auto simp: dfs_post_def)
  next
    case black
    with "2.prems" show ?thesis by (auto simp: dfs_post_def marked_def)
  next
    case white
    let ?st1 = "mark_visiting node st"
    have inv1: "dfs_inv g ?st1"
      using inv white "2.prems"(5) by (rule dfs_inv_mark_visiting)
    have path1: "dfs_path ?st1 = dfs_path st @ [node]"
      by (simp add: mark_visiting_def)
    from "2.prems"(2) white obtain f st2 where
      sub: "has_cycle_deps n g (deps_of g node) ?st1 = Some (f, st2)"
      and res: "(found, st') = (if f then (True, st2) else (False, mark_visited node st2))"
      by (auto split: option.splits prod.splits if_splits)
    have "dfs_post g (deps_of g node) ?st1 f st2"
      using "2.IH" [OF _ _ "2.prems"(1) sub inv1] white path1 by (simp add: depends_def)
    moreover have "dfs_inv g (mark_visited node st2)" if "\<not> f"
      using calculation that path1
      by (intro dfs_inv_mark_visited [where p = "dfs_path st"]) (simp_all add: dfs_post_def)
    ultimately show ?thesis
      using res path1 marked_mark_visiting [OF white] marked_mark_visited [of node st2]
      by (auto simp: dfs_post_def mark_visited_def split: if_splits)
  qed
next
  case (4 n g d ds st)
  from "4.prems"(2) obtain f st2 where sub: "has_cycle n g d st = Some (f, st2)"
    and res: "if f then found \<and> st' = st2 else has_cycle_deps n g ds st2 = Some (found, st')"
    by (cases "has_cycle n g d st") (auto split: if_splits)
  have "d \<in> set (destinations g)"
    using "4.prems"(5) depends_field [OF "4.prems"(1)] by auto
  then have one: "dfs_post g [d] st f st2"
    using "4.IH"(1) [OF "4.prems"(1) sub "4.prems"(3)] "4.prems"(5) by simp
  show ?case
  proof (cases f)
    case True
    with one res show ?thesis by (simp add: dfs_post_def)
  next
    case False
    with one have st2: "dfs_inv g st2" "dfs_path st2 = dfs_path st" "d \<in> marked Visited st2"
      "marked Visited st \<subseteq> marked Visited st2"
      by (auto simp: dfs_post_def)
    from False res have "has_cycle_deps n g ds st2 = Some (found, st')" by simp
    from "4.IH"(2) [OF sub refl False "4.prems"(1) this st2(1)] st2(2) "4.prems"(4,5)
    have "dfs_post g ds st2 found st'" by simp
    with st2 show ?thesis by (cases found) (auto simp: dfs_post_def)
  qed
qed (auto simp: dfs_post_def)

subsection \<open>The depth-first search: fuel\<close>

definition unvisited_count :: "dfs \<Rightarrow> nat" where
  "unvisited_count st = card (marked Unvisited st)"

lemma finite_marked [simp]: "finite (marked c st)"
  by (rule finite_subset [OF _ finite_dom_map_of [of "visited st"]]) (auto simp: marked_def)

text \<open>Each nested call marks one more node, so fuel above the number of unvisited nodes is
  enough, and a call never un-marks a node.\<close>

lemma has_cycle_total:
  shows "wf_graph g \<Longrightarrow> dom (map_of (visited st)) = set (destinations g) \<Longrightarrow>
      node \<in> set (destinations g) \<Longrightarrow> unvisited_count st < n \<Longrightarrow>
      \<exists>found st'. has_cycle n g node st = Some (found, st') \<and>
        dom (map_of (visited st')) = set (destinations g) \<and> unvisited_count st' \<le> unvisited_count st"
    and "wf_graph g \<Longrightarrow> dom (map_of (visited st)) = set (destinations g) \<Longrightarrow>
      set ds \<subseteq> set (destinations g) \<Longrightarrow> unvisited_count st < n \<Longrightarrow>
      \<exists>found st'. has_cycle_deps n g ds st = Some (found, st') \<and>
        dom (map_of (visited st')) = set (destinations g) \<and> unvisited_count st' \<le> unvisited_count st"
proof (induction n g node st and n g ds st rule: has_cycle_has_cycle_deps.induct)
  case (2 n g node st)
  from "2.prems"(2,3) obtain c where c: "map_of (visited st) node = Some c"
    by blast
  show ?case
  proof (cases c)
    case Unvisited
    let ?st1 = "mark_visiting node st"
    have "marked Unvisited st = insert node (marked Unvisited ?st1)" "node \<notin> marked Unvisited ?st1"
      using c Unvisited by (auto simp: marked_def mark_visiting_def)
    then have less: "unvisited_count ?st1 < unvisited_count st"
      by (simp add: unvisited_count_def)
    have dom1: "dom (map_of (visited ?st1)) = set (destinations g)"
      using "2.prems"(2,3) by (auto simp: mark_visiting_def)
    have "unvisited_count ?st1 < n"
      using less "2.prems"(4) by simp
    from "2.IH" [OF _ _ "2.prems"(1) dom1 wf_deps_of(1) [OF "2.prems"(1)] this] c Unvisited
    obtain f st2 where st2: "has_cycle_deps n g (deps_of g node) ?st1 = Some (f, st2)"
      "dom (map_of (visited st2)) = set (destinations g)" "unvisited_count st2 \<le> unvisited_count ?st1"
      by auto
    have "marked Unvisited (mark_visited node st2) \<subseteq> marked Unvisited st2"
      by (auto simp: marked_def mark_visited_def)
    then have "unvisited_count (mark_visited node st2) \<le> unvisited_count st2"
      unfolding unvisited_count_def by (simp add: card_mono)
    moreover have "dom (map_of (visited (mark_visited node st2))) = set (destinations g)"
      using st2(2) "2.prems"(3) by (auto simp: mark_visited_def)
    ultimately show ?thesis
      using c Unvisited st2 less by (cases f) auto
  qed (use c "2.prems" in \<open>auto simp: unvisited_count_def marked_def\<close>)
next
  case (4 n g d ds st)
  from "4.IH"(1) "4.prems" obtain f st2 where st2: "has_cycle n g d st = Some (f, st2)"
      "dom (map_of (visited st2)) = set (destinations g)" "unvisited_count st2 \<le> unvisited_count st"
    by auto
  show ?case
  proof (cases f)
    case False
    from "4.IH"(2) [OF st2(1) refl False "4.prems"(1) st2(2)] "4.prems"(3,4) st2(3)
    show ?thesis using st2(1) False by fastforce
  qed (use st2 in auto)
qed auto

lemma detect_from_total:
  "wf_graph g \<Longrightarrow> dom (map_of (visited st)) = set (destinations g) \<Longrightarrow>
     set ds \<subseteq> set (destinations g) \<Longrightarrow> unvisited_count st < n \<Longrightarrow>
     \<exists>r. detect_from n g ds st = Some r"
proof (induction ds arbitrary: st)
  case (Cons d ds)
  from has_cycle_total(1) [OF Cons.prems(1,2) _ Cons.prems(4), of d] Cons.prems(3)
  obtain f st2 where st2: "has_cycle n g d st = Some (f, st2)"
      "dom (map_of (visited st2)) = set (destinations g)" "unvisited_count st2 \<le> unvisited_count st"
    by auto
  with Cons.IH [of st2] Cons.IH [of st] Cons.prems show ?case
    by (auto split: if_splits)
qed simp

lemma detect_from_post:
  "detect_from n g ds st = Some r \<Longrightarrow> wf_graph g \<Longrightarrow> dfs_inv g st \<Longrightarrow> dfs_path st = [] \<Longrightarrow>
     set ds \<subseteq> set (destinations g) \<Longrightarrow>
     (case r of
        Some c \<Rightarrow> \<exists>st'. found_cycle g st' \<and> c = extract_cycle st'
      | None \<Rightarrow> \<exists>st'. dfs_inv g st' \<and> set ds \<union> marked Visited st \<subseteq> marked Visited st')"
proof (induction ds arbitrary: st)
  case Nil
  then show ?case by auto
next
  case (Cons d ds)
  show ?case
  proof (cases "map_of (visited st) d = Some Unvisited")
    case True
    with Cons.prems(1) obtain f st2 where sub: "has_cycle n g d st = Some (f, st2)"
      and res: "if f then r = Some (extract_cycle st2) else detect_from n g ds st2 = Some r"
      by (auto split: option.splits if_splits)
    have post: "dfs_post g [d] st f st2"
      using has_cycle_post(1) [OF Cons.prems(2) sub Cons.prems(3)] Cons.prems(4,5) by simp
    show ?thesis
    proof (cases f)
      case True
      with post res show ?thesis by (auto simp: dfs_post_def)
    next
      case False
      with post have st2: "dfs_inv g st2" "dfs_path st2 = []" "d \<in> marked Visited st2"
        "marked Visited st \<subseteq> marked Visited st2"
        using Cons.prems(4) by (auto simp: dfs_post_def)
      with Cons.IH [of st2] res False Cons.prems show ?thesis
        by (fastforce split: option.splits)
    qed
  next
    case False
    have "d \<in> marked Visited st"
    proof -
      obtain c where c: "map_of (visited st) d = Some c"
        using Cons.prems(3,5) unfolding dfs_inv_def by (metis domD list.set_intros(1) subsetD)
      have "d \<notin> marked Visiting st"
        using Cons.prems(3,4) unfolding dfs_inv_def by simp
      with c False show ?thesis by (cases c) (auto simp: marked_def)
    qed
    with Cons.IH [of st] False Cons.prems show ?thesis
      by (fastforce split: option.splits)
  qed
qed

lemma init_dfs_inv:
  "wf_graph g \<Longrightarrow> dfs_inv g (init_dfs g) \<and> dfs_path (init_dfs g) = [] \<and>
     unvisited_count (init_dfs g) < Suc (length (destinations g))"
proof -
  assume wf: "wf_graph g"
  have marks: "marked c (init_dfs g) = (if c = Unvisited then set (destinations g) else {})" for c
    by (auto simp: marked_def init_dfs_def map_get_foldl_const)
  have "dom (map_of (visited (init_dfs g))) = set (destinations g)"
    by (auto simp: init_dfs_def map_get_foldl_const dom_def)
  with marks show ?thesis
    unfolding dfs_inv_def unvisited_count_def
    by (auto simp: init_dfs_def acyclic_def less_Suc_eq_le card_length)
qed

text \<open>A walk that returns to its first node.\<close>

definition closed_walk :: "dependency_graph \<Rightarrow> path list \<Rightarrow> bool" where
  "closed_walk g c \<longleftrightarrow>
     2 \<le> length c \<and> hd c = last c \<and> successively (\<lambda>a b. (a, b) \<in> depends g) c"

lemma successively_trancl:
  "successively (\<lambda>a b. (a, b) \<in> r) (x # y # xs) \<Longrightarrow> (x, last (y # xs)) \<in> r\<^sup>+"
  by (induction xs arbitrary: x y) (auto intro: trancl_into_trancl2)

lemma closed_walk_cyclic: "closed_walk g c \<Longrightarrow> \<not> acyclic (depends g)"
proof -
  assume c: "closed_walk g c"
  then obtain x y xs where xs: "c = x # y # xs"
    unfolding closed_walk_def by (metis One_nat_def Suc_1 Suc_le_length_iff)
  from c have "successively (\<lambda>a b. (a, b) \<in> depends g) c" "hd c = last c"
    by (simp_all add: closed_walk_def)
  with xs have "successively (\<lambda>a b. (a, b) \<in> depends g) (x # y # xs)" "last (y # xs) = x"
    by (simp_all only: list.sel last.simps(1) list.simps if_False)
  from successively_trancl [OF this(1)] this(2) have "(x, x) \<in> (depends g)\<^sup>+"
    by metis
  then show ?thesis by (auto simp: acyclic_def)
qed

lemma extract_cycle_walk:
  assumes "found_cycle g st" and "[] \<notin> set (destinations g)"
  shows "closed_walk g (extract_cycle st)" "set (extract_cycle st) \<subseteq> set (destinations g)"
proof -
  from assms(1) obtain c where c: "cycle_node st = Some c" "c \<in> set (dfs_path st)"
    "set (dfs_path st) \<subseteq> set (destinations g)"
    "successively (\<lambda>a b. (a, b) \<in> depends g) (dfs_path st)" "(last (dfs_path st), c) \<in> depends g"
    unfolding found_cycle_def by blast
  let ?w = "dropWhile (\<lambda>y. y \<noteq> c) (dfs_path st)"
  from c(2,3) assms(2) have "c \<noteq> []" by blast
  with c have ex: "extract_cycle st = ?w @ [c]"
    by (simp add: extract_cycle_def slice_from_index_of)
  have ne: "?w \<noteq> []" using c(2) by (simp add: dropWhile_eq_Nil_conv)
  then have hd: "hd ?w = c" using hd_dropWhile [of "\<lambda>y. y \<noteq> c" "dfs_path st"] by simp
  have split: "dfs_path st = takeWhile (\<lambda>y. y \<noteq> c) (dfs_path st) @ ?w" by simp
  have succ: "successively (\<lambda>a b. (a, b) \<in> depends g) ?w"
    using c(4) split by (metis successively_append_iff)
  have "last ?w = last (dfs_path st)"
    using split ne by (metis last_append)
  with c(5) succ ne have "successively (\<lambda>a b. (a, b) \<in> depends g) (?w @ [c])"
    by (simp add: successively_append_iff)
  moreover have "1 \<le> length ?w" using ne by (cases ?w) auto
  ultimately show "closed_walk g (extract_cycle st)"
    using hd ne by (simp add: closed_walk_def ex)
  show "set (extract_cycle st) \<subseteq> set (destinations g)"
    using c(2,3) set_dropWhileD [of _ "\<lambda>y. y \<noteq> c" "dfs_path st"] by (auto simp: ex)
qed

subsection \<open>Kahn's algorithm: the tables it starts from\<close>

lemma init_in_degree_ok:
  assumes wf: "wf_graph g"
  shows "\<exists>m. init_in_degree g = Inr m \<and> map fst m = destinations g \<and>
    (\<forall>d \<in> set (destinations g). map_of m d = Some (int (length (deps_of g d))))"
  unfolding init_in_degree_def
proof (rule fold_result_inv [where I = "\<lambda>ys m. map fst m = ys \<and>
      (\<forall>d \<in> set ys. map_of m d = Some (int (length (deps_of g d))))"])
  fix ys x zs and m :: "(path, int) js_map"
  assume split: "destinations g = ys @ x # zs"
    and I: "map fst m = ys \<and> (\<forall>d \<in> set ys. map_of m d = Some (int (length (deps_of g d))))"
  have "x \<in> set (map_keys (dependencies g))"
    using wf split unfolding wf_graph_def by simp
  then obtain ds where ds: "map_of (dependencies g) x = Some ds"
    by (metis map_of_eq_None_iff list.set_map not_None_eq)
  have "x \<notin> set (map fst m)"
    using wf split I unfolding wf_graph_def by simp
  then have "map fst (map_set x (int (length ds)) m) = ys @ [x]"
    using I by (simp add: update_keys)
  with ds I show "\<exists>s'. (case map_of (dependencies g) x of None \<Rightarrow> Inl (MissingKey x)
      | Some ds \<Rightarrow> Inr (map_set x (int (length ds)) m)) = Inr s' \<and> map fst s' = ys @ [x] \<and>
      (\<forall>d \<in> set (ys @ [x]). map_of s' d = Some (int (length (deps_of g d))))"
    by (auto simp: deps_of_def)
qed simp

definition dependents_table ::
  "dependency_graph \<Rightarrow> (path \<times> path) set \<Rightarrow> (path, path list) js_map \<Rightarrow> bool" where
  "dependents_table g E m \<longleftrightarrow>
     (\<forall>k \<in> set (destinations g). \<exists>l. map_of m k = Some l \<and> distinct l \<and> set l = {a. (a, k) \<in> E})"

lemma add_dependent_ok:
  assumes "dependents_table g E m" and "k \<in> set (destinations g)"
  shows "\<exists>m'. add_dependent a m k = Inr m' \<and> dependents_table g (insert (a, k) E) m'"
proof -
  from assms obtain l where l: "map_of m k = Some l" "distinct l" "set l = {a. (a, k) \<in> E}"
    unfolding dependents_table_def by blast
  have "dependents_table g (insert (a, k) E) (map_set k (set_add a l) m)"
    unfolding dependents_table_def
  proof
    fix k' assume "k' \<in> set (destinations g)"
    with assms(1) obtain l' where "map_of m k' = Some l'" "distinct l'" "set l' = {a. (a, k') \<in> E}"
      unfolding dependents_table_def by blast
    with l show "\<exists>l2. map_of (map_set k (set_add a l) m) k' = Some l2 \<and> distinct l2 \<and>
        set l2 = {x. (x, k') \<in> insert (a, k) E}"
      by (cases "k' = k") auto
  qed
  with l show ?thesis by (simp add: add_dependent_def)
qed

lemma fold_add_dependent_ok:
  assumes "dependents_table g E m" and "set ds \<subseteq> set (destinations g)"
  shows "\<exists>m'. fold_result (add_dependent a) m ds = Inr m' \<and> dependents_table g (E \<union> {a} \<times> set ds) m'"
proof (rule fold_result_inv [where I = "\<lambda>ys m. dependents_table g (E \<union> {a} \<times> set ys) m"])
  fix ys x zs m
  assume "ds = ys @ x # zs" and "dependents_table g (E \<union> {a} \<times> set ys) m"
  moreover have "E \<union> {a} \<times> set (ys @ [x]) = insert (a, x) (E \<union> {a} \<times> set ys)" by auto
  ultimately show "\<exists>s'. add_dependent a m x = Inr s' \<and>
      dependents_table g (E \<union> {a} \<times> set (ys @ [x])) s'"
    using add_dependent_ok [of g "E \<union> {a} \<times> set ys" m x a] assms(2) by simp
qed (use assms(1) in simp)

lemma build_dependents_ok:
  assumes wf: "wf_graph g"
  shows "\<exists>m. build_dependents g = Inr m \<and> dependents_table g (depends g) m"
proof -
  let ?E = "\<lambda>ys. \<Union>(a, ds) \<in> set ys. {a} \<times> set ds"
  have "\<exists>m. build_dependents g = Inr m \<and> dependents_table g (?E (dependencies g)) m"
    unfolding build_dependents_def
  proof (rule fold_result_inv [where I = "\<lambda>ys m. dependents_table g (?E ys) m"])
    show "dependents_table g (?E []) (foldl (\<lambda>m d. map_set d [] m) [] (destinations g))"
      by (simp add: dependents_table_def map_get_foldl_const)
  next
    fix ys x zs m
    assume split: "dependencies g = ys @ x # zs" and I: "dependents_table g (?E ys) m"
    obtain a ds where x: "x = (a, ds)" by (cases x)
    have "set ds \<subseteq> set (destinations g)"
      using wf split x unfolding wf_graph_def by auto
    moreover have "?E (ys @ [x]) = ?E ys \<union> {a} \<times> set ds" using x by auto
    ultimately show "\<exists>s'. (case x of (dest, deps) \<Rightarrow> fold_result (add_dependent dest) m deps) = Inr s' \<and>
        dependents_table g (?E (ys @ [x])) s'"
      using fold_add_dependent_ok [OF I, of ds a] x by simp
  qed
  moreover have "?E (dependencies g) = depends g"
  proof -
    have "map_of (dependencies g) a = Some ds \<longleftrightarrow> (a, ds) \<in> set (dependencies g)" for a ds
      using wf unfolding wf_graph_def by (simp add: map_of_eq_Some_iff)
    moreover have "(a, b) \<in> depends g \<longleftrightarrow> (\<exists>ds. map_of (dependencies g) a = Some ds \<and> b \<in> set ds)" for a b
      unfolding depends_def deps_of_def by (cases "map_of (dependencies g) a") auto
    moreover have "(a, b) \<in> ?E ys \<longleftrightarrow> (\<exists>ds. (a, ds) \<in> set ys \<and> b \<in> set ds)" for a b :: path and ys
      by force
    ultimately show ?thesis by (simp only: set_eq_iff split_paired_All) simp
  qed
  ultimately show ?thesis by simp
qed

subsection \<open>Kahn's algorithm: the loop\<close>

lemma relax_closed_form:
  assumes "distinct ds" and "set ds \<subseteq> dom (map_of (in_degree st))"
  shows "kahn_result (relax st ds) = kahn_result st \<and>
    kahn_queue (relax st ds) =
      kahn_queue st @ filter (\<lambda>d. map_of (in_degree st) d = Some 1) ds \<and>
    (\<forall>k. map_of (in_degree (relax st ds)) k =
       (if k \<in> set ds then map_option (\<lambda>x. x - 1) (map_of (in_degree st) k)
        else map_of (in_degree st) k))"
  using assms
proof (induction ds arbitrary: st)
  case (Cons d ds)
  obtain n where n: "map_of (in_degree st) d = Some n"
    using Cons.prems(2) by auto
  let ?st2 = "st\<lparr>in_degree := map_set d (n - 1) (in_degree st)\<rparr>"
  let ?st3 = "if n - 1 = 0 then ?st2\<lparr>kahn_queue := kahn_queue ?st2 @ [d]\<rparr> else ?st2"
  have eq: "relax st (d # ds) = relax ?st3 ds"
    using n by (simp add: Let_def)
  have deg: "map_of (in_degree ?st3) = (map_of (in_degree st))(d \<mapsto> n - 1)"
    by simp
  have dist: "distinct ds" and d: "d \<notin> set ds" using Cons.prems(1) by auto
  have sub: "set ds \<subseteq> dom (map_of (in_degree ?st3))"
    using Cons.prems(2) deg by auto
  have same: "filter (\<lambda>x. ((map_of (in_degree st))(d \<mapsto> n - 1)) x = Some 1) ds =
      filter (\<lambda>x. map_of (in_degree st) x = Some 1) ds"
    using d by (intro filter_cong) auto
  have queue: "kahn_queue ?st3 = kahn_queue st @ (if n = 1 then [d] else [])"
    and result: "kahn_result ?st3 = kahn_result st"
    by auto
  show ?case
    using Cons.IH [OF dist sub, unfolded deg queue result, unfolded same] n d
    unfolding eq by (simp del: fun_upd_apply) (simp split: if_splits)
qed simp

definition missing :: "dependency_graph \<Rightarrow> kahn \<Rightarrow> path \<Rightarrow> path set" where
  "missing g st d = set (deps_of g d) - set (kahn_result st)"

text \<open>
  The loop invariant: a node's degree counts its dependencies not yet in the result; a node is
  in the result or the queue exactly when none is missing; and the result lists every node
  after its dependencies.
\<close>

definition kahn_inv :: "dependency_graph \<Rightarrow> kahn \<Rightarrow> bool" where
  "kahn_inv g st \<longleftrightarrow>
     (\<forall>d \<in> set (destinations g). map_of (in_degree st) d = Some (int (card (missing g st d)))) \<and>
     distinct (kahn_result st @ kahn_queue st) \<and>
     set (kahn_result st @ kahn_queue st) = {d \<in> set (destinations g). missing g st d = {}} \<and>
     (\<forall>i < length (kahn_result st).
        set (deps_of g (kahn_result st ! i)) \<subseteq> set (take i (kahn_result st)))"

lemma kahn_step_inv:
  assumes wf: "wf_graph g" and inv: "kahn_inv g st" and q: "kahn_queue st = cur # rest"
    and tab: "dependents_table g (depends g) dependents" and l: "map_of dependents cur = Some l"
  shows "kahn_inv g (relax (st\<lparr>kahn_queue := rest, kahn_result := kahn_result st @ [cur]\<rparr>) l)"
proof -
  let ?D = "set (destinations g)" and ?R = "kahn_result st"
  let ?st1 = "st\<lparr>kahn_queue := rest, kahn_result := ?R @ [cur]\<rparr>"
  let ?st2 = "relax ?st1 l"
  have deg: "map_of (in_degree st) d = Some (int (card (missing g st d)))" if "d \<in> ?D" for d
    using inv that unfolding kahn_inv_def by blast
  have ready: "set ?R \<union> insert cur (set rest) = {d \<in> ?D. missing g st d = {}}"
    using inv q unfolding kahn_inv_def by simp
  have dist: "distinct (?R @ cur # rest)"
    using inv q unfolding kahn_inv_def by simp
  have cur: "cur \<in> ?D" "cur \<notin> set ?R" "missing g st cur = {}"
    using ready dist by auto
  from tab l cur(1) have lset: "set l = {a. (a, cur) \<in> depends g}" and ldist: "distinct l"
    unfolding dependents_table_def by auto
  have lD: "set l \<subseteq> ?D"
    using depends_field [OF wf] lset by auto
  have dom: "set l \<subseteq> dom (map_of (in_degree ?st1))"
    using lD deg by (auto intro!: domI)
  note closed = relax_closed_form [OF ldist dom]
  have result: "kahn_result ?st2 = ?R @ [cur]" using closed by simp
  have miss: "missing g ?st2 d = missing g st d - {cur}" for d
    by (auto simp: missing_def result)
  have inl: "d \<in> set l \<longleftrightarrow> cur \<in> missing g st d" for d
    using lset cur(2) by (auto simp: missing_def depends_def)
  have fin: "finite (missing g st d)" for d by (simp add: missing_def)
  have deg2: "map_of (in_degree ?st2) d = Some (int (card (missing g ?st2 d)))" if "d \<in> ?D" for d
  proof (cases "d \<in> set l")
    case True
    then have c: "cur \<in> missing g st d" using inl by simp
    have "card (missing g st d) = Suc (card (missing g st d - {cur}))"
      using card.remove [OF fin c] .
    then have "int (card (missing g st d)) - 1 = int (card (missing g st d - {cur}))"
      by simp
    with True closed deg [OF that] show ?thesis by (simp add: miss)
  next
    case False
    then have "missing g st d - {cur} = missing g st d" using inl by simp
    with False closed deg [OF that] show ?thesis by (simp add: miss)
  qed
  let ?new = "filter (\<lambda>d. map_of (in_degree st) d = Some 1) l"
  have queue: "kahn_queue ?st2 = rest @ ?new" using closed by simp
  have new: "d \<in> set ?new \<longleftrightarrow> d \<in> ?D \<and> missing g st d = {cur}" for d
  proof -
    have "d \<in> set ?new \<longleftrightarrow> d \<in> set l \<and> card (missing g st d) = 1"
      using deg lD by auto
    also have "\<dots> \<longleftrightarrow> d \<in> ?D \<and> missing g st d = {cur}"
      using inl lD by (auto simp: card_1_singleton_iff)
    finally show ?thesis .
  qed
  have "set (kahn_result ?st2 @ kahn_queue ?st2) = {d \<in> ?D. missing g ?st2 d = {}}"
    unfolding result queue miss using ready new by auto
  moreover have "distinct (kahn_result ?st2 @ kahn_queue ?st2)"
    unfolding result queue using dist ldist ready new by auto
  moreover have "set (deps_of g ((?R @ [cur]) ! i)) \<subseteq> set (take i (?R @ [cur]))"
    if "i < length (?R @ [cur])" for i
  proof (cases "i < length ?R")
    case True
    with inv show ?thesis unfolding kahn_inv_def by (simp add: nth_append)
  next
    case False
    with that have "i = length ?R" by simp
    with cur(3) show ?thesis by (simp add: missing_def)
  qed
  ultimately show ?thesis
    using deg2 unfolding kahn_inv_def result by blast
qed

lemma kahn_loop_inv:
  "wf_graph g \<Longrightarrow> dependents_table g (depends g) dependents \<Longrightarrow> kahn_inv g st \<Longrightarrow>
     kahn_inv g (kahn_loop dependents st) \<and> kahn_queue (kahn_loop dependents st) = []"
proof (induction dependents st rule: kahn_loop.induct)
  case (1 dependents st)
  show ?case
  proof (cases "kahn_queue st")
    case Nil
    then show ?thesis using "1.prems" by (simp add: kahn_loop.simps)
  next
    case (Cons cur rest)
    have "cur \<in> set (destinations g)"
      using "1.prems"(3) Cons unfolding kahn_inv_def by auto
    with "1.prems"(2) obtain l where l: "map_of dependents cur = Some l"
      unfolding dependents_table_def by blast
    let ?st = "relax (st\<lparr>kahn_queue := rest, kahn_result := kahn_result st @ [cur]\<rparr>) l"
    have "kahn_inv g ?st"
      using kahn_step_inv [OF "1.prems"(1,3) Cons "1.prems"(2) l] .
    moreover have "kahn_loop dependents st = kahn_loop dependents ?st"
      using Cons l by (subst kahn_loop.simps) simp
    ultimately show ?thesis using "1.IH" [OF Cons] "1.prems"(1,2) l by simp
  qed
qed

subsection \<open>Kahn's algorithm: the result\<close>

text \<open>An order of processing: every destination once, after everything it depends on.\<close>

definition topo_order :: "dependency_graph \<Rightarrow> path list \<Rightarrow> bool" where
  "topo_order g order \<longleftrightarrow>
     distinct order \<and> set order = set (destinations g) \<and>
     (\<forall>i < length order. set (deps_of g (order ! i)) \<subseteq> set (take i order))"

lemma topo_order_acyclic:
  assumes "wf_graph g" and ord: "topo_order g order"
  shows "acyclic (depends g)"
proof (rule acyclicI_order)
  let ?pos = "\<lambda>d. length (takeWhile (\<lambda>x. x \<noteq> d) order)"
  have pos: "?pos d < length order \<and> order ! ?pos d = d" if "d \<in> set order" for d
    using that by (induction order) auto
  fix a b assume ab: "(a, b) \<in> depends g"
  then have "a \<in> set order"
    using ord depends_field [OF assms(1)] unfolding topo_order_def by auto
  with pos have "?pos a < length order" "order ! ?pos a = a" by auto
  moreover have "set (deps_of g (order ! ?pos a)) \<subseteq> set (take (?pos a) order)"
    using ord calculation(1) unfolding topo_order_def by blast
  ultimately have "b \<in> set (take (?pos a) order)"
    using ab by (auto simp: depends_def)
  then obtain i where "i < ?pos a" "i < length order" "order ! i = b"
    by (auto simp: in_set_conv_nth)
  moreover have "?pos b \<le> i"
  proof (rule ccontr)
    assume "\<not> ?pos b \<le> i"
    then have lt: "i < ?pos b" by simp
    then have "takeWhile (\<lambda>x. x \<noteq> b) order ! i \<in> set (takeWhile (\<lambda>x. x \<noteq> b) order)"
      by simp
    then have "takeWhile (\<lambda>x. x \<noteq> b) order ! i \<noteq> b"
      using set_takeWhileD by fast
    with lt calculation(3) show False by (simp add: takeWhile_nth)
  qed
  ultimately show "?pos b < ?pos a" by simp
qed

lemma acyclic_all_ready:
  assumes "wf_graph g" and "acyclic (depends g)"
    and ready: "\<And>d. d \<in> set (destinations g) \<Longrightarrow> set (deps_of g d) \<subseteq> S \<Longrightarrow> d \<in> S"
  shows "set (destinations g) \<subseteq> S"
proof (rule ccontr)
  assume "\<not> set (destinations g) \<subseteq> S"
  then obtain d0 where d0: "d0 \<in> set (destinations g) - S" by blast
  have "finite (depends g)"
    using depends_field [OF assms(1)] by (rule finite_subset) simp
  then have "wf ((depends g)\<inverse>)"
    using assms(2) by (rule finite_acyclic_wf_converse)
  from wfE_min [OF this d0] obtain z where z: "z \<in> set (destinations g) - S"
    "\<And>y. (y, z) \<in> (depends g)\<inverse> \<Longrightarrow> y \<notin> set (destinations g) - S" by blast
  have "set (deps_of g z) \<subseteq> S"
    using z(2) wf_deps_of(1) [OF assms(1), of z] by (auto simp: depends_def)
  with ready z(1) show False by blast
qed

lemma topological_sort_run:
  assumes wf: "wf_graph g"
  shows "\<exists>res. distinct res \<and> set res \<subseteq> set (destinations g) \<and>
    topological_sort g = (if length res = length (destinations g) then Inr res else Inl GraphHasCycle) \<and>
    (\<forall>i < length res. set (deps_of g (res ! i)) \<subseteq> set (take i res)) \<and>
    (\<forall>d \<in> set (destinations g). set (deps_of g d) \<subseteq> set res \<longrightarrow> d \<in> set res)"
proof -
  obtain deg where deg: "init_in_degree g = Inr deg" "map fst deg = destinations g"
    "\<forall>d \<in> set (destinations g). map_of deg d = Some (int (length (deps_of g d)))"
    using init_in_degree_ok [OF wf] by blast
  obtain tab where tab: "build_dependents g = Inr tab" "dependents_table g (depends g) tab"
    using build_dependents_ok [OF wf] by blast
  let ?queue = "map fst (filter (\<lambda>(_, degree). degree = 0) deg)"
  let ?st = "\<lparr>in_degree = deg, kahn_queue = ?queue, kahn_result = []\<rparr>"
  have dist: "distinct (map fst deg)"
    using wf deg(2) unfolding wf_graph_def by simp
  have queue: "set ?queue = {d \<in> set (destinations g). deps_of g d = []}"
  proof -
    have "d \<in> set ?queue \<longleftrightarrow> map_of deg d = Some 0" for d
      using map_of_eq_Some_iff [OF dist] by force
    moreover have "map_of deg d = Some 0 \<longleftrightarrow> d \<in> set (destinations g) \<and> deps_of g d = []" for d
      using deg(3) map_of_eq_None_iff [of deg d] deg(2)
      by (cases "d \<in> set (destinations g)") (simp_all flip: set_map)
    ultimately show ?thesis by blast
  qed
  have "distinct ?queue"
    using dist by (rule distinct_map_filter)
  with queue have "kahn_inv g ?st"
    using deg(3) wf_deps_of(2) [OF wf] unfolding kahn_inv_def missing_def
    by (simp add: distinct_card)
  from kahn_loop_inv [OF wf tab(2) this]
  have inv: "kahn_inv g (kahn_loop tab ?st)" and done_: "kahn_queue (kahn_loop tab ?st) = []" by auto
  let ?res = "kahn_result (kahn_loop tab ?st)"
  have "topological_sort g = (if length ?res = length (destinations g) then Inr ?res else Inl GraphHasCycle)"
    by (simp add: topological_sort_def deg(1) tab(1) Let_def)
  moreover have "set ?res = {d \<in> set (destinations g). set (deps_of g d) \<subseteq> set ?res}"
    using inv done_ unfolding kahn_inv_def missing_def by auto
  ultimately show ?thesis
    using inv done_ unfolding kahn_inv_def by (intro exI [of _ ?res]) auto
qed

lemma topological_sort_spec:
  assumes wf: "wf_graph g"
  shows "if acyclic (depends g)
    then \<exists>order. topological_sort g = Inr order \<and> topo_order g order
    else topological_sort g = Inl GraphHasCycle"
proof -
  obtain res where res: "distinct res" "set res \<subseteq> set (destinations g)"
    "topological_sort g = (if length res = length (destinations g) then Inr res else Inl GraphHasCycle)"
    "\<forall>i < length res. set (deps_of g (res ! i)) \<subseteq> set (take i res)"
    "\<forall>d \<in> set (destinations g). set (deps_of g d) \<subseteq> set res \<longrightarrow> d \<in> set res"
    using topological_sort_run [OF wf] by blast
  have dist: "distinct (destinations g)" using wf by (simp add: wf_graph_def)
  have full: "length res = length (destinations g) \<longleftrightarrow> set res = set (destinations g)"
    using res(1,2) dist
    by (metis List.finite_set card_subset_eq distinct_card)
  have ord: "topo_order g res" if "set res = set (destinations g)"
    using res(1,4) that by (simp add: topo_order_def)
  show ?thesis
  proof (cases "acyclic (depends g)")
    case True
    have "set res = set (destinations g)"
      using acyclic_all_ready [OF wf True, of "set res"] res(2,5) by blast
    with True full ord res(3) show ?thesis by simp
  next
    case False
    then have "set res \<noteq> set (destinations g)"
      using ord topo_order_acyclic [OF wf] by blast
    with False full res(3) show ?thesis by simp
  qed
qed

lemma detect_spec:
  assumes wf: "wf_graph g"
  obtains r where "detect_circular_dependency g = Some r"
    and "r = None \<Longrightarrow> acyclic (depends g)"
    and "\<And>c. r = Some c \<Longrightarrow> \<exists>st. found_cycle g st \<and> c = extract_cycle st"
proof -
  have i: "dfs_inv g (init_dfs g)" "dfs_path (init_dfs g) = []"
    "unvisited_count (init_dfs g) < Suc (length (destinations g))"
    using init_dfs_inv [OF wf] by auto
  then have dom: "dom (map_of (visited (init_dfs g))) = set (destinations g)"
    by (simp add: dfs_inv_def)
  from detect_from_total [OF wf dom subset_refl i(3)] obtain r where
    r: "detect_circular_dependency g = Some r"
    unfolding detect_circular_dependency_def by blast
  note post = detect_from_post [OF r [unfolded detect_circular_dependency_def] wf i(1,2) subset_refl]
  show thesis
  proof
    show "detect_circular_dependency g = Some r" by (fact r)
    show "acyclic (depends g)" if "r = None"
    proof -
      from post that obtain st where st: "dfs_inv g st" "set (destinations g) \<subseteq> marked Visited st"
        by auto
      then have "depends g \<inter> marked Visited st \<times> UNIV = depends g"
        using depends_field [OF wf] by auto
      with st(1) show ?thesis unfolding dfs_inv_def by metis
    qed
    show "\<exists>st. found_cycle g st \<and> c = extract_cycle st" if "r = Some c" for c
      using post that by auto
  qed
qed

lemma found_cycle_cyclic: "found_cycle g st \<Longrightarrow> \<not> acyclic (depends g)"
proof -
  assume "found_cycle g st"
  then obtain c where c: "c \<in> set (dfs_path st)"
    "successively (\<lambda>a b. (a, b) \<in> depends g) (dfs_path st)" "(last (dfs_path st), c) \<in> depends g"
    unfolding found_cycle_def by blast
  from split_list [OF c(1)] obtain xs ys where p: "dfs_path st = xs @ c # ys" by blast
  with c(2) have "successively (\<lambda>a b. (a, b) \<in> depends g) (c # ys)"
    by (simp add: successively_append_iff)
  with c(3) p have "closed_walk g (c # ys @ [c])"
    using successively_append_iff [of "\<lambda>a b. (a, b) \<in> depends g" "c # ys" "[c]"]
    by (simp add: closed_walk_def)
  then show ?thesis by (rule closed_walk_cyclic)
qed

subsection \<open>Properties\<close>

text \<open>C4: \<open>detectCircularDependency\<close> always returns on a graph built from a destination map,
  and reports no cycle exactly when the dependency relation is acyclic.\<close>

theorem detect_decides_acyclicity:
  assumes "distinct (map_keys dm)"
  shows "\<exists>r. detect_circular_dependency (build_dependency_graph dm) = Some r \<and>
    (r = None \<longleftrightarrow> acyclic (depends (build_dependency_graph dm)))"
proof -
  have wf: "wf_graph (build_dependency_graph dm)"
    using assms by (rule build_dependency_graph_wf)
  show ?thesis
    by (rule detect_spec [OF wf]) (metis found_cycle_cyclic not_None_eq)
qed

definition example_chain :: destination_map where
  "example_chain =
     [(''/c.md'', \<lparr>dest_content = [], dest_sources = [''/b.md'']\<rparr>),
      (''/b.md'', \<lparr>dest_content = [], dest_sources = [''/a.ts'']\<rparr>)]"

definition example_loop :: destination_map where
  "example_loop =
     [(''/c.md'', \<lparr>dest_content = [], dest_sources = [''/b.md'']\<rparr>),
      (''/b.md'', \<lparr>dest_content = [], dest_sources = [''/a.ts'', ''/c.md'']\<rparr>)]"

lemma detect_decides_acyclicity_witness:
  "distinct (map_keys example_loop) \<and>
   (\<exists>r. detect_circular_dependency (build_dependency_graph example_loop) = Some r \<and>
    (r = None \<longleftrightarrow> acyclic (depends (build_dependency_graph example_loop)))) \<and>
   detect_circular_dependency (build_dependency_graph example_loop) =
     Some (Some [''/c.md'', ''/b.md'', ''/c.md''])"
proof -
  have d: "distinct (map_keys example_loop)" by (simp add: example_loop_def)
  show ?thesis
    by (intro conjI d detect_decides_acyclicity) code_simp
qed

text \<open>C16: The cycle reported is one: it starts and ends at the same file, and each file in it
  depends on the next.\<close>

theorem detected_cycle_is_closed_walk:
  assumes "distinct (map_keys dm)" and "[] \<notin> set (map_keys dm)"
    and "detect_circular_dependency (build_dependency_graph dm) = Some (Some c)"
  shows "closed_walk (build_dependency_graph dm) c \<and> set c \<subseteq> set (map_keys dm)"
proof -
  have wf: "wf_graph (build_dependency_graph dm)"
    and dests: "destinations (build_dependency_graph dm) = map_keys dm"
    using build_dependency_graph_wf [OF assms(1)] by auto
  obtain st where "found_cycle (build_dependency_graph dm) st" "c = extract_cycle st"
    by (rule detect_spec [OF wf]) (use assms(3) in auto)
  with extract_cycle_walk [of "build_dependency_graph dm" st] assms(2) dests show ?thesis by auto
qed

lemma detected_cycle_is_closed_walk_witness:
  "closed_walk (build_dependency_graph example_loop) [''/c.md'', ''/b.md'', ''/c.md''] \<and>
   set [''/c.md'', ''/b.md'', ''/c.md''] \<subseteq> set (map_keys example_loop)"
proof (rule detected_cycle_is_closed_walk)
  show "distinct (map_keys example_loop)" "[] \<notin> set (map_keys example_loop)"
    by (simp_all add: example_loop_def)
  show "detect_circular_dependency (build_dependency_graph example_loop) =
      Some (Some [''/c.md'', ''/b.md'', ''/c.md''])" by code_simp
qed

text \<open>C11: After the circularity check has passed, \<open>topologicalSort\<close> cannot throw: it returns
  every destination once, each after all the destinations it depends on. When the check finds
  a cycle, the sort would throw.\<close>

theorem sort_agrees_with_check:
  assumes "distinct (map_keys dm)"
  shows "if detect_circular_dependency (build_dependency_graph dm) = Some None
    then \<exists>order. topological_sort (build_dependency_graph dm) = Inr order \<and>
      topo_order (build_dependency_graph dm) order \<and> set order = set (map_keys dm)
    else topological_sort (build_dependency_graph dm) = Inl GraphHasCycle"
proof -
  note g = build_dependency_graph_wf [OF assms]
  have "detect_circular_dependency (build_dependency_graph dm) = Some None \<longleftrightarrow>
      acyclic (depends (build_dependency_graph dm))"
    by (rule detect_spec [OF g(1)]) (metis found_cycle_cyclic not_None_eq option.inject)
  with topological_sort_spec [OF g(1)] show ?thesis
    using g(2) by (auto simp: topo_order_def split: if_splits)
qed

lemma sort_agrees_with_check_witness:
  "topological_sort (build_dependency_graph example_chain) = Inr [''/b.md'', ''/c.md''] \<and>
   topo_order (build_dependency_graph example_chain) [''/b.md'', ''/c.md'']"
proof -
  have "distinct (map_keys example_chain)" by (simp add: example_chain_def)
  moreover have "detect_circular_dependency (build_dependency_graph example_chain) = Some None"
    by code_simp
  moreover have "topological_sort (build_dependency_graph example_chain) =
      Inr [''/b.md'', ''/c.md'']" by code_simp
  ultimately show ?thesis
    using sort_agrees_with_check [of example_chain] by simp
qed

end
