(* ===== verification/EmbedText.thy ===== *)
theory EmbedText
  imports EmbedGraph
begin

section \<open>embedex: replacing the tags of a destination\<close>

text \<open>
  Models \<open>packages/embedex/src/lib/internal/processDestinations.ts\<close> and the source marker of
  \<open>createSourceMap.ts\<close>. The two regular expressions are modelled by what their backtracking
  search finds: at a line start, the longest prefix on that line after which a tag opens, the
  shortest non-empty source name, and the text up to the first closing tag.
\<close>

subsection \<open>The tag regular expression\<close>

definition open_tag :: string where "open_tag = ''<embedex source=\"''"
definition mid_tag :: string where "mid_tag = ''\">''"
definition close_tag :: string where "close_tag = ''</embedex>''"

record tag_match =
  full_match :: string
  tag_prefix :: string
  tag_source :: string
  tag_content :: string

text \<open>\<open>.+?">\<close>: at least one character of the line, as few as possible. \<open>n\<close> counts the
  characters already taken.\<close>

fun find_source :: "nat \<Rightarrow> string \<Rightarrow> string option" where
  "find_source n [] = None"
| "find_source n (c # s) =
     (if 0 < n \<and> prefix mid_tag (c # s) then Some []
      else if is_terminator c then None
      else map_option (Cons c) (find_source (Suc n) s))"

text \<open>\<open>(?:\r?\n)?\<close>\<close>

definition drop_newline :: "string \<Rightarrow> string" where
  "drop_newline s =
     (if prefix [CR, LF] s then drop 2 s else if prefix [LF] s then drop 1 s else s)"

text \<open>
  One attempt with the prefix \<open>take k s\<close>. If no closing tag follows the first \<open>"\<close>\<open>>\<close>, none
  follows a later one either, so the attempt fails as a whole.
\<close>

definition match_after :: "nat \<Rightarrow> string \<Rightarrow> tag_match option" where
  "match_after k s =
     (if prefix open_tag (drop k s)
      then (let r = drop (k + length open_tag) s in
        case find_source 0 r of
          None \<Rightarrow> None
        | Some src \<Rightarrow>
            (let rest = drop (length src + length mid_tag) r in
             case sub_index close_tag rest of
               None \<Rightarrow> None
             | Some i \<Rightarrow>
                 Some \<lparr>full_match =
                         take (k + length open_tag + length src + length mid_tag + i +
                               length close_tag) s,
                       tag_prefix = take k s, tag_source = src,
                       tag_content = drop_newline (take i rest)\<rparr>))
      else None)"

fun match_from :: "nat \<Rightarrow> string \<Rightarrow> tag_match option" where
  "match_from 0 s = match_after 0 s"
| "match_from (Suc k) s =
     (case match_after (Suc k) s of Some m \<Rightarrow> Some m | None \<Rightarrow> match_from k s)"

text \<open>\<open>^(?<prefix>.*)...\<close> at a line start: the greedy \<open>.*\<close> tries the whole line first.\<close>

definition match_at :: "string \<Rightarrow> tag_match option" where
  "match_at s = match_from (length (takeWhile (\<lambda>c. \<not> is_terminator c) s)) s"

lemma match_after_full:
  "match_after k s = Some m \<Longrightarrow> full_match m \<noteq> [] \<and> prefix (full_match m) s"
proof -
  assume m: "match_after k s = Some m"
  then have "prefix open_tag (drop k s)"
    by (auto simp: match_after_def split: if_splits)
  then have "s \<noteq> []" by (auto simp: open_tag_def)
  with m show ?thesis
    by (auto simp: match_after_def Let_def close_tag_def take_is_prefix
        split: if_splits option.splits)
qed

lemma match_from_full:
  "match_from k s = Some m \<Longrightarrow> full_match m \<noteq> [] \<and> prefix (full_match m) s"
  by (induction k) (auto dest: match_after_full split: option.splits)

text \<open>
  \<open>content.matchAll(REGEX)\<close> with the flags \<open>g\<close> and \<open>m\<close>: every position at a line start is
  tried, and the scan goes on behind a match. The result is the string cut into the characters
  between matches and the matches.
\<close>

function scan :: "bool \<Rightarrow> string \<Rightarrow> (char + tag_match) list" where
  "scan bol s =
     (case s of
        [] \<Rightarrow> []
      | c # cs \<Rightarrow>
          (case (if bol then match_at s else None) of
             Some m \<Rightarrow> Inr m # scan False (drop (length (full_match m)) s)
           | None \<Rightarrow> Inl c # scan (is_terminator c) cs))"
  by pat_completeness auto
termination
proof (relation "measure (\<lambda>(bol, s). length s)")
  fix bol s c cs m
  assume "s = c # cs" and "(if bol then match_at s else None) = Some m"
  then have "full_match m \<noteq> []" "s \<noteq> []"
    using match_from_full by (auto simp: match_at_def split: if_splits)
  then show "((False, drop (length (full_match m)) s), bol, s) \<in> measure (\<lambda>(bol, s). length s)"
    by simp
qed auto

declare scan.simps [simp del]

definition all_tags :: "string \<Rightarrow> tag_match list" where
  "all_tags s = List.map_filter (\<lambda>x. case x of Inl _ \<Rightarrow> None | Inr m \<Rightarrow> Some m) (scan True s)"

definition replace_tags :: "string \<Rightarrow> (tag_match \<Rightarrow> string) \<Rightarrow> string" where
  "replace_tags s f = concat (map (\<lambda>x. case x of Inl c \<Rightarrow> [c] | Inr m \<Rightarrow> f m) (scan True s))"

text \<open>The matches cut the string without loss: putting them back gives the string.\<close>

lemma scan_rebuild:
  "concat (map (\<lambda>x. case x of Inl c \<Rightarrow> [c] | Inr m \<Rightarrow> full_match m) (scan bol s)) = s"
proof (induction bol s rule: scan.induct)
  case (1 bol s)
  show ?case
  proof (cases s)
    case Nil
    then show ?thesis by (simp add: scan.simps)
  next
    case (Cons c cs)
    show ?thesis
    proof (cases "if bol then match_at s else None")
      case None
      with 1(1) [OF Cons None] Cons show ?thesis by (subst scan.simps) simp
    next
      case (Some m)
      then have "prefix (full_match m) s"
        using match_from_full by (auto simp: match_at_def split: if_splits)
      then have "full_match m @ drop (length (full_match m)) s = s"
        by (auto simp: prefix_def)
      with 1(2) [OF Cons Some] Some Cons show ?thesis by (subst scan.simps) simp
    qed
  qed
qed

lemma replace_tags_same: "replace_tags s full_match = s"
  by (simp add: replace_tags_def scan_rebuild)

subsection \<open>Source markers\<close>

definition source_marker_prefix :: string where
  "source_marker_prefix = ''// embedex: ''"

definition strip_source_marker :: "string \<Rightarrow> string" where
  "strip_source_marker content =
     (case split_char LF content of
        first # rest \<Rightarrow>
          if starts_with first source_marker_prefix then join [LF] rest else content
      | [] \<Rightarrow> content)"

subsection \<open>createReplacement\<close>

definition code_fence_id :: "string \<Rightarrow> string option" where
  "code_fence_id ext = map_of
     [(''cjs'', ''js''), (''cts'', ''ts''), (''js'', ''js''), (''jsx'', ''js''), (''md'', ''''),
      (''mdx'', ''''), (''mjs'', ''js''), (''mts'', ''ts''), (''ts'', ''ts''), (''tsx'', ''ts'')] ext"

definition backtick_fence :: "nat \<Rightarrow> string" where
  "backtick_fence n = replicate n CHR 0x60"

definition in_comment_block :: "string \<Rightarrow> bool" where
  "in_comment_block pre =
     (case dropWhile is_space pre of [] \<Rightarrow> False | c # _ \<Rightarrow> c = CHR ''*'')"

definition escape_comment_end :: "string \<Rightarrow> string" where
  "escape_comment_end s = replace_all s ''*/'' [CHR ''*'', CHR 0x5C, CHR ''/'']"

definition is_blank :: "string \<Rightarrow> bool" where
  "is_blank l \<longleftrightarrow> trim l = []"

definition unwrap_nested :: "tag_match \<Rightarrow> string" where
  "unwrap_nested m =
     join [LF] (rev (dropWhile is_blank (rev (dropWhile is_blank (split_lines (tag_content m))))))"

definition process_content :: "string \<Rightarrow> string \<Rightarrow> string option \<Rightarrow> string" where
  "process_content content pre fence =
     (let p1 = trim_end content;
          p2 = (if in_comment_block pre then escape_comment_end p1 else p1)
      in if fence = Some [] then trim (replace_tags p2 unwrap_nested) else p2)"

definition fence_of :: "string \<Rightarrow> string" where
  "fence_of content = (if str_includes content (backtick_fence 3) then backtick_fence 4 else backtick_fence 3)"

definition replacement_lines :: "string \<Rightarrow> path \<Rightarrow> string \<Rightarrow> string list" where
  "replacement_lines content source_path pre =
     (let fence = code_fence_id (drop 1 (ext_name source_path));
          content_lines = split_lines (process_content content pre fence)
      in [open_tag @ source_path @ mid_tag, []] @
         (if fence = Some [] then content_lines
          else [fence_of content @ (case fence of None \<Rightarrow> [] | Some f \<Rightarrow> f)] @ content_lines @
               [fence_of content]) @
         [[], close_tag])"

definition create_replacement :: "string \<Rightarrow> path \<Rightarrow> string \<Rightarrow> string" where
  "create_replacement content source_path pre =
     join [LF] (map (\<lambda>line. trim_end (pre @ line)) (replacement_lines content source_path pre))"

subsection \<open>processDestination\<close>

datatype embed =
    NO_MATCH (embed_destination: path) (embed_sources: "path list")
  | NO_CHANGE (embed_destination: path) (embed_sources: "path list")
  | UPDATE (embed_destination: path) (embed_sources: "path list") (updated_content: string)
  | INVALID_SOURCE (embed_destination: path) (invalid_sources: "path list")
  | UNREFERENCED_SOURCE (embed_destination: path) (unreferenced_sources: "path list")
  | CIRCULAR_DEPENDENCY (embed_destination: path) (embed_cycle: "path list")

datatype embed_error = UndefinedSource path | SortFailed sort_error | OutOfFuel | ReadFailed path

definition normalize_newlines :: "string \<Rightarrow> string" where
  "normalize_newlines s = replace_all s [CR, LF] [LF]"

definition destination_text ::
  "(path, string) js_map \<Rightarrow> path \<Rightarrow> embed_destination \<Rightarrow> string" where
  "destination_text updated destination dest =
     normalize_newlines
       (case map_get updated destination of
          Some u \<Rightarrow> strip_source_marker u
        | None \<Rightarrow> dest_content dest)"

definition invalid_tags :: "path \<Rightarrow> path list \<Rightarrow> string \<Rightarrow> path list" where
  "invalid_tags cwd srcs content =
     filter (\<lambda>p. p \<notin> set srcs) (map (\<lambda>m. resolve cwd (tag_source m)) (all_tags content))"

definition referenced_tags :: "path \<Rightarrow> path list \<Rightarrow> string \<Rightarrow> path list" where
  "referenced_tags cwd srcs content =
     set_of_list (filter (\<lambda>p. p \<in> set srcs)
       (map (\<lambda>m. resolve cwd (tag_source m)) (all_tags content)))"

definition unique_matches :: "tag_match list \<Rightarrow> tag_match list" where
  "unique_matches ms = map_values (foldl (\<lambda>acc m. map_set (full_match m) m acc) [] ms)"

definition source_text ::
  "source_map \<Rightarrow> (path, string) js_map \<Rightarrow> path \<Rightarrow> embed_error + string" where
  "source_text source_map updated apath =
     (case map_get updated apath of
        Some u \<Rightarrow> Inr (normalize_newlines (strip_source_marker u))
      | None \<Rightarrow>
          (case map_get source_map apath of
             None \<Rightarrow> Inl (UndefinedSource apath)
           | Some s \<Rightarrow> Inr (normalize_newlines (src_content s))))"

definition replace_step ::
  "path \<Rightarrow> source_map \<Rightarrow> (path, string) js_map \<Rightarrow> string \<Rightarrow> tag_match \<Rightarrow> embed_error + string" where
  "replace_step cwd source_map updated acc m =
     bind_result (source_text source_map updated (resolve cwd (tag_source m))) (\<lambda>text.
       Inr (replace_all acc (full_match m)
              (create_replacement text (tag_source m) (tag_prefix m))))"

definition process_destination ::
  "path \<Rightarrow> source_map \<Rightarrow> (path, string) js_map \<Rightarrow> path \<times> embed_destination \<Rightarrow> embed_error + embed" where
  "process_destination cwd source_map updated entry =
     (let destination = fst entry; srcs = dest_sources (snd entry);
          content = destination_text updated destination (snd entry);
          invalid = invalid_tags cwd srcs content;
          referenced = referenced_tags cwd srcs content;
          unreferenced = filter (\<lambda>s. s \<notin> set referenced) srcs;
          matches = filter (\<lambda>m. resolve cwd (tag_source m) \<in> set srcs) (all_tags content);
          uniq = unique_matches matches;
          paths = map (\<lambda>m. resolve cwd (tag_source m)) uniq
      in if invalid \<noteq> [] then Inr (INVALID_SOURCE destination invalid)
         else if unreferenced \<noteq> [] then Inr (UNREFERENCED_SOURCE destination unreferenced)
         else if matches = [] then Inr (NO_MATCH destination [])
         else bind_result (fold_result (replace_step cwd source_map updated) content uniq) (\<lambda>new.
           Inr (if content = new then NO_CHANGE destination paths
                else UPDATE destination paths new)))"

definition process_destinations ::
  "path \<Rightarrow> source_map \<Rightarrow> (path, string) js_map \<Rightarrow> destination_map \<Rightarrow> embed_error + embed list" where
  "process_destinations cwd source_map updated dm =
     traverse (process_destination cwd source_map updated) dm"

subsection \<open>The outcome of a destination\<close>

lemma traverse_total: "(\<And>x. x \<in> set xs \<Longrightarrow> \<exists>y. f x = Inr y) \<Longrightarrow> \<exists>ys. traverse f xs = Inr ys"
  by (induction xs) fastforce+

lemma fold_result_total:
  "(\<And>s x. x \<in> set xs \<Longrightarrow> \<exists>s'. f s x = Inr s') \<Longrightarrow> \<exists>s'. fold_result f s xs = Inr s'"
proof (induction xs arbitrary: s)
  case (Cons x xs)
  from Cons.prems [of x s] obtain s' where "f s x = Inr s'" by auto
  with Cons.IH [of s'] Cons.prems show ?case by simp
qed simp

lemma set_unique_matches: "set (unique_matches ms) \<subseteq> set ms"
proof -
  have "set (map snd (foldl (\<lambda>acc m. map_set (full_match m) m acc) acc ms)) \<subseteq> set (map snd acc) \<union> set ms" for acc
  proof (induction ms arbitrary: acc)
    case (Cons m ms)
    have "set (map snd (map_set (full_match m) m acc)) \<subseteq> insert m (set (map snd acc))"
      using set_update_subset [of "full_match m" m acc] by auto
    with Cons.IH [of "map_set (full_match m) m acc"] show ?case by auto
  qed simp
  from this [of "[]"] show ?thesis by (simp add: unique_matches_def)
qed

text \<open>The files a destination's tags name.\<close>

definition tag_paths :: "path \<Rightarrow> string \<Rightarrow> path set" where
  "tag_paths cwd content = (\<lambda>m. resolve cwd (tag_source m)) ` set (all_tags content)"

lemma invalid_tags_set: "set (invalid_tags cwd srcs content) = tag_paths cwd content - set srcs"
  by (auto simp: invalid_tags_def tag_paths_def)

lemma referenced_tags_set:
  "set (referenced_tags cwd srcs content) = tag_paths cwd content \<inter> set srcs"
  by (auto simp: referenced_tags_def tag_paths_def)

text \<open>What a tag is given: the content of its file, as updated earlier in the run and then
  without its marker line, with Unix line ends. The new text of a destination is its text with,
  for each distinct tag text in order of first appearance, every occurrence replaced by the block
  made from the file.\<close>

definition embedded_text :: "source_map \<Rightarrow> (path, string) js_map \<Rightarrow> path \<Rightarrow> string" where
  "embedded_text sm up file =
     normalize_newlines
       (case map_of up file of
          Some u \<Rightarrow> strip_source_marker u
        | None \<Rightarrow> src_content (the (map_of sm file)))"

definition with_blocks ::
  "path \<Rightarrow> source_map \<Rightarrow> (path, string) js_map \<Rightarrow> tag_match list \<Rightarrow> string \<Rightarrow> string" where
  "with_blocks cwd sm up ms content =
     foldl (\<lambda>acc m. replace_all acc (full_match m)
       (create_replacement (embedded_text sm up (resolve cwd (tag_source m))) (tag_source m) (tag_prefix m)))
       content ms"

definition one_per_text :: "tag_match list \<Rightarrow> string \<Rightarrow> bool" where
  "one_per_text ms content \<longleftrightarrow>
     set ms \<subseteq> set (all_tags content) \<and>
     map full_match ms = set_of_list (map full_match (all_tags content))"

text \<open>What each result code means for a destination: its declared sources against the files
  its tags name, and its new text against its old one.\<close>

definition outcome_ok ::
  "path \<Rightarrow> source_map \<Rightarrow> (path, string) js_map \<Rightarrow> path list \<Rightarrow> string \<Rightarrow> embed \<Rightarrow> bool" where
  "outcome_ok cwd sm up srcs content r =
     (let tags = tag_paths cwd content in
      case r of
        INVALID_SOURCE _ bad \<Rightarrow> bad \<noteq> [] \<and> set bad = tags - set srcs
      | UNREFERENCED_SOURCE _ un \<Rightarrow> un \<noteq> [] \<and> tags \<subseteq> set srcs \<and> set un = set srcs - tags
      | NO_MATCH _ _ \<Rightarrow> tags = {} \<and> srcs = []
      | NO_CHANGE _ ps \<Rightarrow> tags = set srcs \<and> tags \<noteq> {} \<and>
          (\<exists>ms. one_per_text ms content \<and> ps = map (\<lambda>m. resolve cwd (tag_source m)) ms \<and>
             with_blocks cwd sm up ms content = content)
      | UPDATE _ ps new \<Rightarrow> tags = set srcs \<and> tags \<noteq> {} \<and> new \<noteq> content \<and>
          (\<exists>ms. one_per_text ms content \<and> ps = map (\<lambda>m. resolve cwd (tag_source m)) ms \<and>
             with_blocks cwd sm up ms content = new)
      | CIRCULAR_DEPENDENCY _ _ \<Rightarrow> False)"

lemma unique_matches_texts: "map full_match (unique_matches ms) = set_of_list (map full_match ms)"
proof -
  define acc0 :: "(string, tag_match) js_map" where "acc0 = []"
  have keyed: "\<forall>(k, m) \<in> set (foldl (\<lambda>acc m. map_set (full_match m) m acc) acc ms). full_match m = k"
    if "\<forall>(k, m) \<in> set acc. full_match m = k" for acc :: "(string, tag_match) js_map"
    using that
  proof (induction ms arbitrary: acc)
    case (Cons m ms)
    have "\<forall>(k, m) \<in> set (map_set (full_match m) m acc). full_match m = k"
      using Cons.prems set_update_subset [of "full_match m" m acc] by fastforce
    from Cons.IH [OF this] show ?case by simp
  qed simp
  have keys: "map_keys (foldl (\<lambda>acc m. map_set (full_match m) m acc) acc ms) =
      foldl (\<lambda>acc k. set_add k acc) (map_keys acc) (map full_match ms)"
    for acc :: "(string, tag_match) js_map"
    by (induction ms arbitrary: acc) (simp_all add: update_keys set_add_def)
  let ?final = "foldl (\<lambda>acc m. map_set (full_match m) m acc) [] ms"
  have "map full_match (unique_matches ms) = map_keys ?final"
    using keyed [of "[]"] unfolding unique_matches_def by (auto simp: case_prod_unfold)
  with keys [of "[]"] show ?thesis by (simp add: set_of_list_def)
qed

lemma replace_step_eq:
  "replace_step cwd sm up acc m = Inr acc' \<Longrightarrow>
   acc' = replace_all acc (full_match m)
     (create_replacement (embedded_text sm up (resolve cwd (tag_source m))) (tag_source m) (tag_prefix m))"
  by (auto simp: replace_step_def source_text_def embedded_text_def split: option.splits)

lemma fold_replace_step:
  "fold_result (replace_step cwd sm up) content ms = Inr new \<Longrightarrow> new = with_blocks cwd sm up ms content"
proof (induction ms arbitrary: content)
  case (Cons m ms)
  then obtain acc where acc: "replace_step cwd sm up content m = Inr acc"
    "fold_result (replace_step cwd sm up) acc ms = Inr new"
    by (cases "replace_step cwd sm up content m") auto
  from Cons.IH [OF acc(2)] replace_step_eq [OF acc(1)] show ?case
    by (simp add: with_blocks_def)
qed (simp add: with_blocks_def)

lemma process_destination_ok:
  assumes "process_destination cwd sm up (d, dest) = Inr r"
  shows "embed_destination r = d \<and>
    outcome_ok cwd sm up (dest_sources dest) (destination_text up d dest) r"
proof -
  define srcs where "srcs = dest_sources dest"
  define content where "content = destination_text up d dest"
  define matches where "matches = filter (\<lambda>m. resolve cwd (tag_source m) \<in> set srcs) (all_tags content)"
  let ?inv = "invalid_tags cwd srcs content"
  let ?un = "filter (\<lambda>s. s \<notin> set (referenced_tags cwd srcs content)) srcs"
  let ?tags = "tag_paths cwd content"
  have inv: "?inv \<noteq> [] \<longleftrightarrow> \<not> ?tags \<subseteq> set srcs"
    using invalid_tags_set [of cwd srcs content] by (metis Diff_eq_empty_iff set_empty)
  have un: "set ?un = set srcs - ?tags"
    by (auto simp: referenced_tags_set)
  have un_ne: "?un \<noteq> [] \<longleftrightarrow> \<not> set srcs \<subseteq> ?tags"
    using un by (metis Diff_eq_empty_iff set_empty)
  have once: "one_per_text (unique_matches matches) content" if "?tags \<subseteq> set srcs"
  proof -
    have "matches = all_tags content"
      using that by (auto simp: matches_def tag_paths_def filter_id_conv)
    with set_unique_matches [of matches] show ?thesis
      by (simp add: one_per_text_def unique_matches_texts)
  qed
  have none: "matches = [] \<longleftrightarrow> ?tags \<inter> set srcs = {}"
    by (auto simp: matches_def tag_paths_def filter_empty_conv)
  let ?ps = "map (\<lambda>m. resolve cwd (tag_source m)) (unique_matches matches)"
  have run: "Inr r = (if ?inv \<noteq> [] then Inr (INVALID_SOURCE d ?inv)
      else if ?un \<noteq> [] then Inr (UNREFERENCED_SOURCE d ?un)
      else if matches = [] then Inr (NO_MATCH d [])
      else bind_result (fold_result (replace_step cwd sm up) content (unique_matches matches)) (\<lambda>new.
        Inr (if content = new then NO_CHANGE d ?ps else UPDATE d ?ps new)))"
    unfolding assms [symmetric] process_destination_def Let_def srcs_def content_def matches_def
    by (simp only: fst_conv snd_conv)
  consider (inv) "?inv \<noteq> []" "r = INVALID_SOURCE d ?inv"
    | (un) "?inv = []" "?un \<noteq> []" "r = UNREFERENCED_SOURCE d ?un"
    | (nm) "?inv = []" "?un = []" "matches = []" "r = NO_MATCH d []"
    | (upd) new where "?inv = []" "?un = []" "matches \<noteq> []"
        "new = with_blocks cwd sm up (unique_matches matches) content" "r = (if content = new then NO_CHANGE d ?ps else UPDATE d ?ps new)"
  proof (cases "?inv = [] \<and> ?un = [] \<and> matches \<noteq> []")
    case True
    with run obtain new where
      "fold_result (replace_step cwd sm up) content (unique_matches matches) = Inr new"
      "Inr r = (Inr (if content = new then NO_CHANGE d ?ps else UPDATE d ?ps new) :: embed_error + embed)"
      by (cases "fold_result (replace_step cwd sm up) content (unique_matches matches)") auto
    with True that(4) fold_replace_step show ?thesis by blast
  next
    case False
    with run that(1,2,3) show ?thesis by (simp split: if_splits)
  qed
  then show ?thesis
  proof cases
    case inv
    then show ?thesis
      using invalid_tags_set [of cwd srcs content]
      by (simp add: outcome_ok_def flip: srcs_def content_def)
  next
    case un
    then show ?thesis
      using inv \<open>set ?un = set srcs - ?tags\<close>
      by (simp add: outcome_ok_def flip: srcs_def content_def)
  next
    case nm
    then have "?tags \<subseteq> set srcs" "set srcs \<subseteq> ?tags" "?tags \<inter> set srcs = {}"
      using inv un_ne none by auto
    then have "?tags = {}" "srcs = []" by auto
    then show ?thesis
      using nm by (simp add: outcome_ok_def flip: srcs_def content_def)
  next
    case upd
    then have "?tags = set srcs" "?tags \<noteq> {}"
      using inv un_ne none by auto
    with upd once show ?thesis
      by (auto simp: outcome_ok_def Let_def simp flip: srcs_def content_def)
  qed
qed

lemma process_destination_total:
  assumes "set (dest_sources dest) \<subseteq> set (map_keys sm)"
  shows "\<exists>r. process_destination cwd sm up (d, dest) = Inr r"
proof -
  define srcs where "srcs = dest_sources dest"
  define content where "content = destination_text up d dest"
  define uniq where "uniq = unique_matches (filter (\<lambda>m. resolve cwd (tag_source m) \<in> set srcs) (all_tags content))"
  have "\<exists>s'. replace_step cwd sm up s m = Inr s'" if "m \<in> set uniq" for s m
  proof -
    have "resolve cwd (tag_source m) \<in> set srcs"
      using that set_unique_matches unfolding uniq_def by fastforce
    then have "map_of sm (resolve cwd (tag_source m)) \<noteq> None"
      using assms by (auto simp: srcs_def map_of_eq_None_iff)
    then show ?thesis
      by (auto simp: replace_step_def source_text_def split: option.split)
  qed
  then have "\<exists>new. fold_result (replace_step cwd sm up) content uniq = Inr new"
    by (rule fold_result_total)
  then show ?thesis
    unfolding process_destination_def Let_def fst_conv snd_conv
    by (fold srcs_def content_def, fold uniq_def) auto
qed
subsection \<open>Embedding into a comment block\<close>

abbreviation comment_end :: string where
  "comment_end \<equiv> ''*/''"

lemma comment_end_append:
  "sublist comment_end (x @ y) \<longleftrightarrow>
     sublist comment_end x \<or> sublist comment_end y \<or>
     (x \<noteq> [] \<and> y \<noteq> [] \<and> last x = CHR ''*'' \<and> hd y = CHR ''/'')"
proof -
  have "(\<exists>a b. comment_end = a @ b \<and> suffix a x \<and> prefix b y) \<longrightarrow>
      sublist comment_end x \<or> sublist comment_end y \<or>
      (x \<noteq> [] \<and> y \<noteq> [] \<and> last x = CHR ''*'' \<and> hd y = CHR ''/'')"
    by (auto simp: Cons_eq_append_conv suffix_def prefix_def)
  moreover have "\<exists>a b. comment_end = a @ b \<and> suffix a x \<and> prefix b y"
    if "x \<noteq> []" "y \<noteq> []" "last x = CHR ''*''" "hd y = CHR ''/''"
  proof (intro exI conjI)
    show "comment_end = ''*'' @ ''/''" by simp
    show "suffix ''*'' x" using that(1,3) by (metis append_butlast_last_id suffix_def)
    show "prefix ''/'' y" using that(2,4) by (cases y) auto
  qed
  ultimately show ?thesis unfolding sublist_append by blast
qed

lemma comment_end_Cons:
  "sublist comment_end (c # y) \<longleftrightarrow>
     sublist comment_end y \<or> (y \<noteq> [] \<and> c = CHR ''*'' \<and> hd y = CHR ''/'')"
  using comment_end_append [of "[c]" y] by (simp add: sublist_code)

lemma replace_verbatim_step:
  "replace_verbatim p r (c # cs) =
     (if p \<noteq> [] \<and> prefix p (c # cs) then r @ replace_verbatim p r (drop (length p) (c # cs))
      else c # replace_verbatim p r cs)"
  by (subst replace_verbatim.simps) simp

lemma replace_verbatim_Nil [simp]: "replace_verbatim p r [] = []"
  by (subst replace_verbatim.simps) simp

text \<open>After escaping, no comment end is left.\<close>

lemma escape_no_comment_end: "\<not> sublist comment_end (escape_comment_end s)"
proof -
  let ?r = "[CHR ''*'', CHR 0x5C, CHR ''/'']"
  let ?R = "replace_verbatim comment_end ?r"
  have hd: "hd cs = CHR ''/''" if "?R cs \<noteq> []" "hd (?R cs) = CHR ''/''" for cs
    using that by (cases cs) (auto simp: replace_verbatim_step split: if_splits)
  have ne: "?R cs \<noteq> [] \<longleftrightarrow> cs \<noteq> []" for cs
    by (cases cs) (auto simp: replace_verbatim_step)
  have "\<not> sublist comment_end (?R s)"
  proof (induction s rule: length_induct)
    case (1 s)
    show ?case
    proof (cases s)
      case (Cons c cs)
      show ?thesis
      proof (cases "prefix comment_end s")
        case True
        then obtain rest where rest: "s = CHR ''*'' # CHR ''/'' # rest"
          by (auto simp: prefix_def)
        with 1 have "\<not> sublist comment_end (?R rest)" by auto
        with rest show ?thesis
          by (simp add: replace_verbatim_step comment_end_Cons)
      next
        case False
        then have "\<not> (cs \<noteq> [] \<and> c = CHR ''*'' \<and> hd cs = CHR ''/'')"
          using Cons by (cases cs) auto
        moreover have "\<not> sublist comment_end (?R cs)" using 1 Cons by auto
        ultimately show ?thesis
          using hd [of cs] ne [of cs] False Cons
          by (auto simp: replace_verbatim_step comment_end_Cons)
      qed
    qed simp
  qed
  then show ?thesis
    by (simp add: escape_comment_end_def replace_all_no_dollar)
qed

lemma split_char_sublist: "x \<in> set (split_char d s) \<Longrightarrow> sublist x s"
proof (induction s arbitrary: x)
  case (Cons c s)
  obtain y ys where y: "split_char d s = y # ys"
    by (meson neq_Nil_conv split_char_ne)
  have pre: "prefix y s"
  proof -
    have "join [d] (y # ys) = s" using join_split_char [of d s] y by simp
    then show ?thesis by (cases ys) auto
  qed
  from Cons.prems y consider "x = []" | "x = c # y" | "x \<in> set (y # ys)"
    by (auto split: if_splits)
  then show ?case
  proof cases
    case 2
    with pre have "prefix x (c # s)" by simp
    then show ?thesis by (rule prefix_imp_sublist)
  next
    case 3
    with Cons.IH y show ?thesis by (auto intro: sublist_order.order_trans simp: sublist_Cons_right)
  qed simp
qed simp

lemma split_lines_sublist: "x \<in> set (split_lines s) \<Longrightarrow> sublist x s"
proof -
  assume x: "x \<in> set (split_lines s)"
  have last: "last (split_char LF s) \<in> set (split_char LF s)" by simp
  from x obtain y where y: "y \<in> set (split_char LF s)" "x = strip_cr y \<or> x = y"
  proof (cases "x = last (split_char LF s)")
    case True
    with last that show ?thesis by blast
  next
    case False
    with x obtain y where "y \<in> set (butlast (split_char LF s))" "x = strip_cr y"
      unfolding split_lines_def Let_def by auto
    with that show ?thesis by (blast dest: in_set_butlastD)
  qed
  then have "prefix x y"
    by (auto simp: strip_cr_def prefixeq_butlast)
  with split_char_sublist [OF y(1)] show ?thesis
    by (meson prefix_imp_sublist sublist_order.order_trans)
qed

lemma join_LF_no_comment_end:
  "\<forall>l \<in> set ls. \<not> sublist comment_end l \<Longrightarrow> \<not> sublist comment_end (join [LF] ls)"
proof (induction "[LF]" ls rule: join.induct)
  case 1
  then show ?case by simp
next
  case (2 x)
  then show ?case by simp
next
  case (3 x y xs)
  then show ?case
    by (auto simp: comment_end_append comment_end_Cons LF_def)
qed

lemma tag_lines_no_comment_end:
  assumes "\<not> sublist comment_end p"
  shows "\<not> sublist comment_end (open_tag @ p @ mid_tag)" "\<not> sublist comment_end close_tag"
  using assms
  by (auto simp: comment_end_append open_tag_def mid_tag_def close_tag_def comment_end_Cons)

lemma fence_no_comment_end:
  "\<not> sublist comment_end (fence_of c @ (case code_fence_id e of None \<Rightarrow> [] | Some f \<Rightarrow> f))"
  "hd (fence_of c @ f) = CHR 0x60" "fence_of c \<noteq> []" "\<not> sublist comment_end (fence_of c)"
proof -
  have f: "code_fence_id e = None \<or> code_fence_id e \<in> {Some [], Some ''js'', Some ''ts''}"
    by (auto simp: code_fence_id_def)
  show "\<not> sublist comment_end (fence_of c)"
    by (auto simp: fence_of_def backtick_fence_def comment_end_Cons numeral_eq_Suc)
  then show "\<not> sublist comment_end (fence_of c @ (case code_fence_id e of None \<Rightarrow> [] | Some f \<Rightarrow> f))"
    using f by (auto simp: comment_end_append comment_end_Cons)
  show "hd (fence_of c @ f) = CHR 0x60" "fence_of c \<noteq> []"
    by (auto simp: fence_of_def backtick_fence_def numeral_eq_Suc)
qed

lemma replacement_lines_no_comment_end:
  assumes "in_comment_block pre" and "code_fence_id (drop 1 (ext_name p)) \<noteq> Some []"
    and "\<not> sublist comment_end p"
    and "l \<in> set (replacement_lines content p pre)"
  shows "\<not> sublist comment_end l"
proof -
  let ?fence = "code_fence_id (drop 1 (ext_name p))"
  have "\<not> sublist comment_end x"
    if "x \<in> set (split_lines (process_content content pre ?fence))" for x
  proof -
    have "process_content content pre ?fence = escape_comment_end (trim_end content)"
      using assms(1,2) by (simp add: process_content_def Let_def)
    with split_lines_sublist [OF that] escape_no_comment_end [of "trim_end content"]
    show ?thesis using sublist_order.order_trans by metis
  qed
  moreover have "l \<in> {open_tag @ p @ mid_tag, [], close_tag, fence_of content,
        fence_of content @ (case ?fence of None \<Rightarrow> [] | Some f \<Rightarrow> f)} \<or>
      l \<in> set (split_lines (process_content content pre ?fence))"
    using assms(2,4) unfolding replacement_lines_def Let_def by auto
  ultimately show ?thesis
    using tag_lines_no_comment_end [OF assms(3)] fence_no_comment_end(1,4) by auto
qed
text \<open>The block made for a tag whose prefix does not itself end in an asterisk has no comment
  end, whatever the snippet holds.\<close>

lemma block_keeps_comment_open:
  assumes "in_comment_block pre" and "\<not> sublist comment_end pre" and "last pre \<noteq> CHR ''*''"
    and "code_fence_id (drop 1 (ext_name source_path)) \<noteq> Some []"
    and "\<not> sublist comment_end source_path"
  shows "\<not> sublist comment_end (create_replacement content source_path pre)"
proof -
  have "\<not> sublist comment_end (trim_end (pre @ l))"
    if "l \<in> set (replacement_lines content source_path pre)" for l
  proof -
    have "\<not> sublist comment_end (pre @ l)"
      using replacement_lines_no_comment_end [OF assms(1,4,5) that] assms(2,3)
      by (auto simp: comment_end_append)
    then show ?thesis
      using prefix_trim_end [of "pre @ l"] by (meson prefix_imp_sublist sublist_order.order_trans)
  qed
  then show ?thesis
    unfolding create_replacement_def by (intro join_LF_no_comment_end) auto
qed

text \<open>The escaping does not see the tag's prefix. With the prefix \<open>" *"\<close> (no blank behind
  the asterisk), a snippet whose line starts with a slash closes the comment block.\<close>

theorem unspaced_prefix_closes_comment:
  "in_comment_block '' *'' \<and> \<not> sublist comment_end '' *'' \<and>
   sublist comment_end (create_replacement ''// greet'' ''examples/a.ts'' '' *'')"
  by code_simp

definition dollar_source :: source_map where
  "dollar_source = [(''/w/a.sh'', \<lparr>src_content = ''kill $$'', src_destinations = [''/w/d.md'']\<rparr>)]"

definition dollar_destination :: "path \<times> embed_destination" where
  "dollar_destination =
     (''/w/d.md'', \<lparr>dest_content = open_tag @ ''a.sh'' @ mid_tag @ close_tag,
        dest_sources = [''/w/a.sh'']\<rparr>)"

text \<open>The replacement is handed to \<open>replaceAll\<close> as a template, so dollar signs of a snippet
  are interpreted: the destination receives one dollar sign where the snippet has two.\<close>

theorem dollar_sign_corrupted:
  "\<exists>new. process_destination ''/w'' dollar_source [] dollar_destination =
      Inr (UPDATE ''/w/d.md'' [''/w/a.sh''] new) \<and>
    \<not> sublist ''kill $$'' new \<and> sublist (''kill $'' @ [LF]) new"
proof -
  have "case process_destination ''/w'' dollar_source [] dollar_destination of
      Inr (UPDATE d ps new) \<Rightarrow> d = ''/w/d.md'' \<and> ps = [''/w/a.sh''] \<and>
        \<not> sublist ''kill $$'' new \<and> sublist (''kill $'' @ [LF]) new
    | _ \<Rightarrow> False" by code_simp
  then show ?thesis by (auto split: sum.splits embed.splits)
qed

subsection \<open>The comment around a tag\<close>

lemma set_trim_end: "set (trim_end s) \<subseteq> set s"
  using prefix_trim_end [of s] by (auto dest: set_mono_prefix)

lemma set_join: "set (join sep xs) \<subseteq> set sep \<union> (\<Union>x\<in>set xs. set x)"
  by (induction sep xs rule: join.induct) auto

lemma set_sublist: "sublist x s \<Longrightarrow> set x \<subseteq> set s"
  by (auto simp: sublist_def)

lemma set_fence_of: "set (fence_of content) = {CHR 0x60}"
  by (simp add: fence_of_def backtick_fence_def)

text \<open>A block has a dollar sign only where its snippet, its path or its prefix has one.\<close>

lemma block_no_dollar:
  assumes "code_fence_id (drop 1 (ext_name p)) \<noteq> Some []"
    and "CHR ''$'' \<notin> set content" "CHR ''$'' \<notin> set p" "CHR ''$'' \<notin> set pre"
  shows "CHR ''$'' \<notin> set (create_replacement content p pre)"
proof -
  let ?fence = "code_fence_id (drop 1 (ext_name p))"
  have fence: "?fence = None \<or> ?fence \<in> {Some [], Some ''js'', Some ''ts''}"
    by (auto simp: code_fence_id_def)
  have processed: "CHR ''$'' \<notin> set (process_content content pre ?fence)"
    using assms(1,2) set_trim_end [of content]
      set_replace_verbatim [of "''*/''" "[CHR ''*'', CHR 0x5C, CHR ''/'']" "trim_end content"]
    by (auto simp: process_content_def Let_def escape_comment_end_def replace_all_no_dollar)
  have "CHR ''$'' \<notin> set l" if "l \<in> set (replacement_lines content p pre)" for l
  proof -
    from that have "l \<in> {open_tag @ p @ mid_tag, [], close_tag, fence_of content,
        fence_of content @ (case ?fence of None \<Rightarrow> [] | Some f \<Rightarrow> f)} \<or>
      l \<in> set (split_lines (process_content content pre ?fence))"
      using assms(1) unfolding replacement_lines_def Let_def by auto
    then show ?thesis
    proof (elim disjE)
      assume "l \<in> set (split_lines (process_content content pre ?fence))"
      with processed set_sublist [OF split_lines_sublist] show ?thesis by blast
    qed (use assms(3) fence in \<open>auto simp: open_tag_def mid_tag_def close_tag_def set_fence_of\<close>)
  qed
  then show ?thesis
    using assms(4) set_join [of "[LF]"] set_trim_end
    unfolding create_replacement_def by (fastforce simp: LF_def)
qed

text \<open>A block begins with its prefix and ends with the closing tag, so no comment end arises
  where it is put between other texts.\<close>

lemma block_ends:
  assumes "in_comment_block pre"
  shows "create_replacement content p pre \<noteq> []" "hd (create_replacement content p pre) \<noteq> CHR ''/''"
    "last (create_replacement content p pre) = CHR ''>''"
proof -
  let ?line = "\<lambda>line. trim_end (pre @ line)"
  have pre: "pre \<noteq> []" "hd pre \<noteq> CHR ''/''"
    using assms by (cases pre; auto simp: in_comment_block_def is_space_def code_def split: if_splits)+
  obtain mid where lines: "replacement_lines content p pre = (open_tag @ p @ mid_tag) # [] # mid @ [close_tag]"
    unfolding replacement_lines_def Let_def by (cases "code_fence_id (drop 1 (ext_name p)) = Some []") auto
  have first: "?line (open_tag @ p @ mid_tag) = pre @ open_tag @ p @ mid_tag"
    and final: "?line close_tag = pre @ close_tag"
    by (intro trim_end_id, simp add: mid_tag_def close_tag_def is_space_def code_def)+
  have block: "create_replacement content p pre =
      join [LF] (map ?line ((open_tag @ p @ mid_tag) # [] # mid)) @ [LF] @ pre @ close_tag"
    unfolding create_replacement_def lines
    using join_append [of "map ?line ((open_tag @ p @ mid_tag) # [] # mid)" "[?line close_tag]" "[LF]"]
    by (simp add: final)
  show "last (create_replacement content p pre) = CHR ''>''"
    unfolding block by (simp add: close_tag_def)
  have front: "join [LF] (map ?line ((open_tag @ p @ mid_tag) # [] # mid)) =
      (pre @ open_tag @ p @ mid_tag) @ [LF] @ join [LF] (map ?line ([] # mid))"
    by (simp add: first)
  show "create_replacement content p pre \<noteq> []" "hd (create_replacement content p pre) \<noteq> CHR ''/''"
    unfolding block front using pre by (cases pre; simp)+
qed

lemma comment_end_join:
  assumes "b \<noteq> []" "\<not> sublist comment_end b" "hd b \<noteq> CHR ''/''" "last b \<noteq> CHR ''*''"
  shows "sublist comment_end (join b parts) \<longleftrightarrow> (\<exists>x \<in> set parts. sublist comment_end x)"
proof (induction parts rule: induct_list012)
  case (3 x y xs)
  then show ?case using assms by (auto simp: comment_end_append)
qed simp_all

lemma scan_full_match: "Inr m \<in> set (scan bol s) \<Longrightarrow> full_match m \<noteq> []"
proof (induction bol s rule: scan.induct)
  case (1 bol s)
  show ?case
  proof (cases s)
    case Nil
    with 1(3) show ?thesis by (simp add: scan.simps)
  next
    case (Cons c cs)
    show ?thesis
    proof (cases "if bol then match_at s else None")
      case None
      with 1(1) [OF Cons None] 1(3) Cons show ?thesis by (subst (asm) (2) scan.simps) simp
    next
      case (Some n)
      then have "full_match n \<noteq> []"
        using match_from_full by (auto simp: match_at_def split: if_splits)
      moreover have "m = n \<or> Inr m \<in> set (scan False (drop (length (full_match n)) s))"
        using 1(3) Some Cons by (subst (asm) scan.simps) auto
      ultimately show ?thesis using 1(2) [OF Cons Some] by blast
    qed
  qed
qed

lemma all_tags_full_match: "m \<in> set (all_tags s) \<Longrightarrow> full_match m \<noteq> []"
  by (auto simp: all_tags_def List.map_filter_def split: sum.splits dest: scan_full_match)

text \<open>C19: Embedding a code snippet under a comment prefix does not end the comment. Say all
  tags of the updated destination are one tag, under a prefix that begins a comment line and has a
  character other than the asterisk last, and neither the prefix, the path nor the snippet has a
  dollar sign. Then the new text is the old one with that tag exchanged for a block without comment
  end, and every comment end in it stands in text that was there before, outside the tag.\<close>

theorem snippet_keeps_comment_open:
  assumes "process_destination cwd sm up (d, dest) = Inr (UPDATE d' ps new)"
    and "set (all_tags (destination_text up d dest)) = {m}"
    and "in_comment_block (tag_prefix m)" "\<not> sublist comment_end (tag_prefix m)"
      "last (tag_prefix m) \<noteq> CHR ''*''"
    and "code_fence_id (drop 1 (ext_name (tag_source m))) \<noteq> Some []"
      "\<not> sublist comment_end (tag_source m)"
    and "CHR ''$'' \<notin> set (embedded_text sm up (resolve cwd (tag_source m)) @ tag_source m @ tag_prefix m)"
  shows "\<exists>parts block. destination_text up d dest = join (full_match m) parts \<and> new = join block parts \<and>
    \<not> sublist comment_end block \<and>
    (sublist comment_end new \<longleftrightarrow> (\<exists>x \<in> set parts. sublist comment_end x))"
proof -
  let ?content = "destination_text up d dest"
  let ?block = "create_replacement (embedded_text sm up (resolve cwd (tag_source m))) (tag_source m) (tag_prefix m)"
  obtain ms where ms: "one_per_text ms ?content" "with_blocks cwd sm up ms ?content = new"
    using process_destination_ok [OF assms(1)] by (auto simp: outcome_ok_def Let_def)
  have "set (map full_match ms) = {full_match m}" "distinct (map full_match ms)" "set ms \<subseteq> {m}"
    using ms(1) assms(2) by (auto simp: one_per_text_def)
  then have "ms = [m]"
    by (cases ms; cases "tl ms") (auto simp: subset_singleton_iff)
  with ms(2) have new: "new = replace_verbatim (full_match m) ?block ?content"
    using assms(6,8) by (simp add: with_blocks_def replace_all_no_dollar block_no_dollar)
  have "full_match m \<noteq> []"
    using assms(2) all_tags_full_match [of m ?content] by simp
  then obtain parts where parts: "?content = join (full_match m) parts" "new = join ?block parts"
    using replace_verbatim_parts [of "full_match m" ?content ?block] new by blast
  have block: "\<not> sublist comment_end ?block"
    by (rule block_keeps_comment_open) (use assms in auto)
  have "sublist comment_end new \<longleftrightarrow> (\<exists>x \<in> set parts. sublist comment_end x)"
    unfolding parts(2) using block block_ends [OF assms(3)] by (intro comment_end_join) auto
  with parts block show ?thesis by blast
qed

definition comment_destination :: "path \<times> embed_destination" where
  "comment_destination =
     (''/w/d.ts'', \<lparr>dest_content = ''/**'' @ [LF] @ '' * '' @ open_tag @ ''a.ts'' @ mid_tag @ close_tag @ [LF] @ '' */'',
        dest_sources = [''/w/a.ts'']\<rparr>)"

definition source_with :: "string \<Rightarrow> source_map" where
  "source_with text = [(''/w/a.ts'', \<lparr>src_content = text, src_destinations = [''/w/d.ts'']\<rparr>)]"

definition comment_tag :: tag_match where
  "comment_tag =
     \<lparr>full_match = '' * '' @ open_tag @ ''a.ts'' @ mid_tag @ close_tag, tag_prefix = '' * '',
      tag_source = ''a.ts'', tag_content = []\<rparr>"

lemma snippet_keeps_comment_open_witness:
  "\<exists>ps new parts block.
     process_destination ''/w'' (source_with ''a /* b */ c'') [] comment_destination =
       Inr (UPDATE ''/w/d.ts'' ps new) \<and>
     new = join block parts \<and> \<not> sublist comment_end block"
proof -
  have "case process_destination ''/w'' (source_with ''a /* b */ c'') [] comment_destination of
      Inr (UPDATE d ps new) \<Rightarrow> d = ''/w/d.ts'' | _ \<Rightarrow> False" by code_simp
  then obtain ps new where run: "process_destination ''/w'' (source_with ''a /* b */ c'') []
      (''/w/d.ts'', snd comment_destination) = Inr (UPDATE ''/w/d.ts'' ps new)"
    by (auto simp: comment_destination_def split: sum.splits embed.splits)
  have "all_tags (destination_text [] ''/w/d.ts'' (snd comment_destination)) = [comment_tag]"
    by code_simp
  then have tags: "set (all_tags (destination_text [] ''/w/d.ts'' (snd comment_destination))) = {comment_tag}"
    by simp
  have "\<exists>parts block. destination_text [] ''/w/d.ts'' (snd comment_destination) =
        join (full_match comment_tag) parts \<and> new = join block parts \<and> \<not> sublist comment_end block \<and>
      (sublist comment_end new \<longleftrightarrow> (\<exists>x \<in> set parts. sublist comment_end x))"
    by (rule snippet_keeps_comment_open [OF run tags]; code_simp)
  with run show ?thesis by (auto simp: comment_destination_def)
qed

text \<open>The block is handed to \<open>replaceAll\<close> as a template: with a dollar pattern in the snippet
  that stands for the text behind the tag, the block ends the comment.\<close>

theorem dollar_pattern_closes_comment:
  "case process_destination ''/w'' (source_with ''x $' y'') [] comment_destination of
     Inr (UPDATE d ps new) \<Rightarrow>
       sublist ('' * x '' @ [LF] @ '' */ y'') new
   | _ \<Rightarrow> False"
  by code_simp

definition twice_destination :: "path \<times> embed_destination" where
  "twice_destination =
     (''/w/d.ts'', \<lparr>dest_content = open_tag @ ''a.ts'' @ mid_tag @ close_tag @ [LF] @ ''/**'' @ [LF] @
          '' * '' @ open_tag @ ''a.ts'' @ mid_tag @ close_tag @ [LF] @ '' */'',
        dest_sources = [''/w/a.ts'']\<rparr>)"

text \<open>The text of a tag without prefix is contained in that of the same tag under a prefix: the
  block for the one is also put in place of the other, where its lines lack the prefix and its
  comment ends are not escaped.\<close>

theorem bare_tag_overwrites_prefixed:
  "case process_destination ''/w'' (source_with ''a /* b */ c'') [] twice_destination of
     Inr (UPDATE d ps new) \<Rightarrow>
       sublist ('' * '' @ open_tag @ ''a.ts'' @ mid_tag @ [LF, LF] @ ''```ts'' @ [LF] @ ''a /* b */ c'') new
   | _ \<Rightarrow> False"
  by code_simp

text \<open>C18: Which result a destination gets is decided by its tags and its declared sources. It
  is embedded exactly when every tag names a declared source and every declared source has a tag;
  otherwise the result names the offending files. An embedded destination is \<open>NO_CHANGE\<close> exactly
  when its new text, every tag replaced by the block made from its file, is its old text, and
  otherwise \<open>UPDATE\<close> carries the new text. Processing never fails on sources the source map
  holds.\<close>

theorem process_destination_outcome:
  assumes "set (dest_sources dest) \<subseteq> set (map_keys sm)"
  shows "\<exists>r. process_destination cwd sm up (d, dest) = Inr r \<and> embed_destination r = d \<and>
    outcome_ok cwd sm up (dest_sources dest) (destination_text up d dest) r"
  using process_destination_total [OF assms] process_destination_ok by blast

lemma process_destination_outcome_witness:
  "\<exists>r. process_destination ''/w'' dollar_source [] dollar_destination = Inr r \<and>
    embed_destination r = ''/w/d.md'' \<and>
    outcome_ok ''/w'' dollar_source [] [''/w/a.sh'']
      (destination_text [] ''/w/d.md'' (snd dollar_destination)) r"
  using process_destination_outcome [of "snd dollar_destination" dollar_source "''/w''" "[]" "''/w/d.md''"]
  by (simp add: dollar_source_def dollar_destination_def)

end
