(* ===== verification/Embed.thy ===== *)
theory Embed
  imports EmbedText
begin

section \<open>embedex: the embed run and its report\<close>

text \<open>
  Models \<open>createSourceMap.ts\<close>, \<open>createDestinationMap.ts\<close>, \<open>embed.ts\<close> and the report of
  \<open>bin/processResult.ts\<close> and \<open>bin/cli.ts\<close>. The file system is a parameter \<open>read\<close>
  (\<open>None\<close>: the read rejects); the paths the glob library returned come in the order in which
  their reads complete, which fixes the insertion order of the source map. The files written
  are returned as a list: they are written at the same time, and a write that rejects, which makes
  the run reject while the others go on, is not modelled.
\<close>

type_synonym file_system = "path \<Rightarrow> string option"

subsection \<open>createSourceMap and createDestinationMap\<close>

definition parse_source :: "path \<Rightarrow> string \<Rightarrow> embed_source option" where
  "parse_source cwd content =
     (case split_char LF content of
        [] \<Rightarrow> None
      | first # rest \<Rightarrow>
          if starts_with first source_marker_prefix
          then Some \<lparr>src_content = join [LF] rest,
                 src_destinations = map (\<lambda>t. resolve cwd (trim t))
                   (filter (\<lambda>t. 0 < length t)
                     (split_char CHR '','' (drop (length source_marker_prefix) first)))\<rparr>
          else None)"

definition add_source ::
  "path \<Rightarrow> file_system \<Rightarrow> source_map \<Rightarrow> path \<Rightarrow> embed_error + source_map" where
  "add_source cwd read m p =
     (case read p of
        None \<Rightarrow> Inl (ReadFailed p)
      | Some content \<Rightarrow>
          Inr (case parse_source cwd content of None \<Rightarrow> m | Some s \<Rightarrow> map_set p s m))"

definition create_source_map :: "path \<Rightarrow> file_system \<Rightarrow> path list \<Rightarrow> embed_error + source_map" where
  "create_source_map cwd read paths = fold_result (add_source cwd read) [] paths"

definition sources_of_destination :: "source_map \<Rightarrow> path \<Rightarrow> path list" where
  "sources_of_destination sm d =
     set_of_list (map fst (filter (\<lambda>(_, s). d \<in> set (src_destinations s)) sm))"

definition create_destination_map :: "file_system \<Rightarrow> source_map \<Rightarrow> embed_error + destination_map" where
  "create_destination_map read sm =
     traverse (\<lambda>d. case read d of
         None \<Rightarrow> Inl (ReadFailed d)
       | Some content \<Rightarrow>
           Inr (d, \<lparr>dest_content = content, dest_sources = sources_of_destination sm d\<rparr>))
       (set_of_list (concat (map src_destinations (map_values sm))))"

subsection \<open>embed\<close>

record embed_params =
  embed_cwd :: path
  embed_paths :: "path list"
  embed_write :: bool

record embed_run =
  run_embeds :: "embed list"
  run_sources :: "(path \<times> path list) list"
  run_destinations :: "(path \<times> path list) list"

definition track_update ::
  "path \<Rightarrow> embed \<Rightarrow> (path, string) js_map \<Rightarrow> (path, string) js_map" where
  "track_update d e up = (case e of UPDATE _ _ new \<Rightarrow> map_set d new up | _ \<Rightarrow> up)"

definition embed_step ::
  "path \<Rightarrow> source_map \<Rightarrow> destination_map \<Rightarrow> (path, string) js_map \<times> embed list \<Rightarrow> path \<Rightarrow>
   embed_error + (path, string) js_map \<times> embed list" where
  "embed_step cwd sm dm st d =
     (case map_get dm d of
        None \<Rightarrow> Inr st
      | Some entry \<Rightarrow>
          bind_result (process_destinations cwd sm (fst st) [(d, entry)]) (\<lambda>es.
            case es of
              [] \<Rightarrow> Inr st
            | e # _ \<Rightarrow> Inr (track_update d e (fst st), snd st @ [e])))"

fun writes_of :: "embed list \<Rightarrow> (path \<times> string) list" where
  "writes_of [] = []"
| "writes_of (UPDATE d ps new # es) = (d, new) # writes_of es"
| "writes_of (_ # es) = writes_of es"

definition embed_all ::
  "embed_params \<Rightarrow> file_system \<Rightarrow> embed_error + embed_run \<times> (path \<times> string) list" where
  "embed_all params read =
     bind_result (create_source_map (embed_cwd params) read (embed_paths params)) (\<lambda>sm.
     bind_result (create_destination_map read sm) (\<lambda>dm.
       let graph = build_dependency_graph dm;
           summary = (\<lambda>es. \<lparr>run_embeds = es,
             run_sources = map (\<lambda>(p, s). (p, src_destinations s)) sm,
             run_destinations = map (\<lambda>(p, d). (p, dest_sources d)) dm\<rparr>)
       in case detect_circular_dependency graph of
            None \<Rightarrow> Inl OutOfFuel
          | Some (Some c) \<Rightarrow>
              Inr (summary [CIRCULAR_DEPENDENCY (case c of [] \<Rightarrow> [] | p # _ \<Rightarrow> p) c], [])
          | Some None \<Rightarrow>
              (case topological_sort graph of
                 Inl e \<Rightarrow> Inl (SortFailed e)
               | Inr order \<Rightarrow>
                   bind_result (fold_result (embed_step (embed_cwd params) sm dm) ([], []) order) (\<lambda>st.
                     Inr (summary (snd st),
                       if embed_write params then writes_of (snd st) else [])))))"

subsection \<open>processResult\<close>

text \<open>Colours come from a library; the two separators are code units outside the model.\<close>

record terminal =
  red :: "string \<Rightarrow> string"
  green :: "string \<Rightarrow> string"
  gray :: "string \<Rightarrow> string"
  arrow :: string
  dash :: string

datatype embed_code =
    CircularDependencyCode | InvalidSourceCode | NoChangeCode | NoMatchCode
  | UnreferencedSourceCode | UpdateCode

fun code_of :: "embed \<Rightarrow> embed_code" where
  "code_of (NO_MATCH _ _) = NoMatchCode"
| "code_of (NO_CHANGE _ _) = NoChangeCode"
| "code_of (UPDATE _ _ _) = UpdateCode"
| "code_of (INVALID_SOURCE _ _) = InvalidSourceCode"
| "code_of (UNREFERENCED_SOURCE _ _) = UnreferencedSourceCode"
| "code_of (CIRCULAR_DEPENDENCY _ _) = CircularDependencyCode"

fun code_name :: "embed_code \<Rightarrow> string" where
  "code_name CircularDependencyCode = ''CIRCULAR_DEPENDENCY''"
| "code_name InvalidSourceCode = ''INVALID_SOURCE''"
| "code_name NoChangeCode = ''NO_CHANGE''"
| "code_name NoMatchCode = ''NO_MATCH''"
| "code_name UnreferencedSourceCode = ''UNREFERENCED_SOURCE''"
| "code_name UpdateCode = ''UPDATE''"

record report_line =
  line_code :: embed_code
  is_error :: bool
  message :: string

definition format_output :: "terminal \<Rightarrow> embed_code \<Rightarrow> bool \<Rightarrow> string \<Rightarrow> string \<Rightarrow> string" where
  "format_output t c err destination detail =
     (let colored = (if err then red t else green t) (code_name c); grayed = gray t detail
      in if destination \<noteq> [] then colored @ '' '' @ gray t destination @ '' -> '' @ grayed
         else colored @ '' '' @ grayed)"

definition report ::
  "terminal \<Rightarrow> (path \<Rightarrow> path) \<Rightarrow> bool \<Rightarrow> embed \<Rightarrow> report_line" where
  "report t relative check e =
     (let c = code_of e;
          mk = (\<lambda>err dest detail.
            \<lparr>line_code = c, is_error = err, message = format_output t c err dest detail\<rparr>);
          listed = (\<lambda>ps. join '', '' (map relative ps));
          plain = (\<lambda>d ps. mk (c = NoMatchCode \<or> (c = UpdateCode \<and> check)) (relative d)
            (if 0 < length ps then listed ps else dash t))
      in case e of
           INVALID_SOURCE d bad \<Rightarrow> mk True (relative d) (''missing: '' @ listed bad)
         | UNREFERENCED_SOURCE d un \<Rightarrow> mk True (relative d) (''not referenced: '' @ listed un)
         | CIRCULAR_DEPENDENCY _ cyc \<Rightarrow> mk True [] (join (arrow t) (map relative cyc))
         | NO_MATCH d ps \<Rightarrow> plain d ps
         | NO_CHANGE d ps \<Rightarrow> plain d ps
         | UPDATE d ps _ \<Rightarrow> plain d ps)"

text \<open>\<open>toSorted((a, b) => a.code.localeCompare(b.code))\<close>: a stable sort; the six codes compare
  alphabetically, the order in which the datatype lists them.\<close>

fun code_rank :: "embed_code \<Rightarrow> nat" where
  "code_rank CircularDependencyCode = 0"
| "code_rank InvalidSourceCode = 1"
| "code_rank NoChangeCode = 2"
| "code_rank NoMatchCode = 3"
| "code_rank UnreferencedSourceCode = 4"
| "code_rank UpdateCode = 5"

definition process_result ::
  "terminal \<Rightarrow> (path \<Rightarrow> path) \<Rightarrow> bool \<Rightarrow> embed_run \<Rightarrow> report_line list" where
  "process_result t relative check run =
     sort_key (\<lambda>o'. code_rank (line_code o')) (map (report t relative check) (run_embeds run))"

text \<open>The exit code of the command line, which runs \<open>embed\<close> with \<open>write: !check\<close>.\<close>

definition cli_exit ::
  "terminal \<Rightarrow> (path \<Rightarrow> path) \<Rightarrow> path \<Rightarrow> path list \<Rightarrow> bool \<Rightarrow> file_system \<Rightarrow> nat \<times> (path \<times> string) list" where
  "cli_exit t relative cwd paths check read =
     (case embed_all \<lparr>embed_cwd = cwd, embed_paths = paths, embed_write = \<not> check\<rparr> read of
        Inl _ \<Rightarrow> (1, [])
      | Inr (run, writes) \<Rightarrow>
          (if list_ex is_error (process_result t relative check run) then 1 else 0, writes))"

subsection \<open>The source and destination maps\<close>

lemma create_source_map_error:
  assumes "create_source_map cwd read paths = Inl e"
  shows "\<exists>p. e = ReadFailed p \<and> read p = None"
  using assms unfolding create_source_map_def
  by (rule fold_result_error) (auto simp: add_source_def split: option.splits)

lemma create_source_map_absolute:
  assumes "create_source_map cwd read paths = Inr sm"
  shows "\<forall>(p, s) \<in> set sm. \<forall>d \<in> set (src_destinations s). is_absolute d"
  using assms unfolding create_source_map_def
proof (rule fold_result_post)
  fix m x m'
  assume m: "\<forall>(p, s) \<in> set m. \<forall>d \<in> set (src_destinations s). is_absolute d"
    and step: "add_source cwd read m x = Inr m'"
  from step obtain c where c: "m' = (case parse_source cwd c of None \<Rightarrow> m | Some s \<Rightarrow> map_set x s m)"
    using that by (cases "read x") (auto simp: add_source_def)
  show "\<forall>(p, s) \<in> set m'. \<forall>d \<in> set (src_destinations s). is_absolute d"
  proof (cases "parse_source cwd c")
    case (Some s)
    then have "\<forall>d \<in> set (src_destinations s). is_absolute d"
      by (auto simp: parse_source_def split: list.splits if_splits)
    with m c Some show ?thesis using set_update_subset [of x s m] by auto
  qed (use m c in simp)
qed simp

lemma create_destination_map_error:
  assumes "create_destination_map read sm = Inl e"
  shows "\<exists>p. e = ReadFailed p \<and> read p = None"
proof -
  obtain d where "(case read d of None \<Rightarrow> Inl (ReadFailed d)
       | Some content \<Rightarrow> Inr (d, \<lparr>dest_content = content, dest_sources = sources_of_destination sm d\<rparr>)) = Inl e"
    using traverse_error [OF assms [unfolded create_destination_map_def]] by blast
  then show ?thesis by (auto split: option.splits)
qed

text \<open>Every destination holds the sources that name it, of which there is at least one.\<close>

definition destination_ok :: "source_map \<Rightarrow> path \<times> embed_destination \<Rightarrow> bool" where
  "destination_ok sm e \<longleftrightarrow>
     dest_sources (snd e) = sources_of_destination sm (fst e) \<and> dest_sources (snd e) \<noteq> []"

lemma create_destination_map_ok:
  assumes "create_destination_map read sm = Inr dm"
  shows "distinct (map_keys dm)" "\<forall>e \<in> set dm. destination_ok sm e"
proof -
  let ?ds = "set_of_list (concat (map src_destinations (map_values sm)))"
  have all: "list_all2 (\<lambda>d e. fst e = d \<and> dest_sources (snd e) = sources_of_destination sm d) ?ds dm"
    using assms unfolding create_destination_map_def traverse_Inr_iff
    by (rule list_all2_mono) (auto split: option.splits)
  then have keys: "map fst dm = ?ds"
    by (auto simp: list_all2_conv_all_nth intro!: nth_equalityI)
  then show "distinct (map_keys dm)" by simp
  show "\<forall>e \<in> set dm. destination_ok sm e"
  proof
    fix e assume e: "e \<in> set dm"
    then obtain i where "i < length dm" "dm ! i = e" by (auto simp: in_set_conv_nth)
    with all have src: "dest_sources (snd e) = sources_of_destination sm (fst e)"
      by (auto simp: list_all2_conv_all_nth)
    have "fst e \<in> set ?ds" using e keys by (metis image_eqI set_map)
    then have "sources_of_destination sm (fst e) \<noteq> []"
      by (force simp: sources_of_destination_def filter_empty_conv)
    with src show "destination_ok sm e" by (simp add: destination_ok_def)
  qed
qed

lemma sources_of_destination_keys: "set (sources_of_destination sm d) \<subseteq> set (map_keys sm)"
  by (auto simp: sources_of_destination_def intro: mem_keys)

subsection \<open>The run\<close>

text \<open>The contents a run has updated after producing a list of results.\<close>

definition updates_of :: "embed list \<Rightarrow> (path, string) js_map" where
  "updates_of es = foldl (\<lambda>up e. track_update (embed_destination e) e up) [] es"

lemma updates_of_snoc: "updates_of (es @ [e]) = track_update (embed_destination e) e (updates_of es)"
  by (simp add: updates_of_def)

text \<open>A run follows an order of the destinations: one result per destination, each computed
  with the updates of the results before it.\<close>

definition run_follows ::
  "path \<Rightarrow> source_map \<Rightarrow> destination_map \<Rightarrow> path list \<Rightarrow> embed list \<Rightarrow> bool" where
  "run_follows cwd sm dm order es \<longleftrightarrow>
     map embed_destination es = order \<and>
     (\<forall>i < length es. \<exists>dest. map_get dm (order ! i) = Some dest \<and>
        process_destination cwd sm (updates_of (take i es)) (order ! i, dest) = Inr (es ! i))"

lemma run_follows_snoc:
  assumes "run_follows cwd sm dm order es" and "map_get dm d = Some dest"
    and "process_destination cwd sm (updates_of es) (d, dest) = Inr e" and "embed_destination e = d"
  shows "run_follows cwd sm dm (order @ [d]) (es @ [e])"
proof -
  have len: "length order = length es"
    using assms(1) by (auto simp: run_follows_def)
  with assms show ?thesis
    by (auto simp: run_follows_def nth_append less_Suc_eq)
qed

lemma embed_fold_ok:
  assumes dm: "\<forall>e \<in> set dm. destination_ok sm e" and keys: "set order \<subseteq> set (map_keys dm)"
  shows "\<exists>st. fold_result (embed_step cwd sm dm) ([], []) order = Inr st \<and>
    (run_follows cwd sm dm order (snd st) \<and> fst st = updates_of (snd st))"
proof (rule fold_result_inv [where I = "\<lambda>ys st. run_follows cwd sm dm ys (snd st) \<and> fst st = updates_of (snd st)"])
  show "run_follows cwd sm dm [] (snd ([], [])) \<and> fst ([], []) = updates_of (snd ([], []))"
    by (simp add: run_follows_def updates_of_def)
next
  fix ys d zs and st :: "(path, string) js_map \<times> embed list"
  assume order: "order = ys @ d # zs"
    and inv: "run_follows cwd sm dm ys (snd st) \<and> fst st = updates_of (snd st)"
  from order keys have "d \<in> set (map_keys dm)" by auto
  then obtain dest where dest: "map_get dm d = Some dest"
    by (metis map_of_eq_None_iff not_None_eq set_map)
  then have "destination_ok sm (d, dest)"
    using dm by (auto dest: map_of_SomeD)
  then have "set (dest_sources dest) \<subseteq> set (map_keys sm)"
    using sources_of_destination_keys by (simp add: destination_ok_def)
  then obtain e where e: "process_destination cwd sm (fst st) (d, dest) = Inr e"
    using process_destination_total by blast
  then have "embed_destination e = d"
    using process_destination_ok by blast
  with e dest inv show "\<exists>s'. embed_step cwd sm dm st d = Inr s' \<and>
      run_follows cwd sm dm (ys @ [d]) (snd s') \<and> fst s' = updates_of (snd s')"
    by (auto simp: embed_step_def process_destinations_def updates_of_snoc intro!: run_follows_snoc)
qed

text \<open>What a finished run has done, in terms of the maps it read.\<close>

definition run_spec ::
  "embed_params \<Rightarrow> source_map \<Rightarrow> destination_map \<Rightarrow> embed list \<Rightarrow> bool" where
  "run_spec params sm dm es \<longleftrightarrow>
     (let g = build_dependency_graph dm in
      if acyclic (depends g)
      then \<exists>order. topo_order g order \<and> run_follows (embed_cwd params) sm dm order es
      else \<exists>c d. es = [CIRCULAR_DEPENDENCY d c] \<and> closed_walk g c)"

lemma embed_all_ok:
  assumes sm: "create_source_map (embed_cwd params) read (embed_paths params) = Inr sm"
    and dm: "create_destination_map read sm = Inr dm"
  shows "\<exists>run. embed_all params read =
      Inr (run, if embed_write params then writes_of (run_embeds run) else []) \<and>
    run_spec params sm dm (run_embeds run)"
proof -
  define g where "g = build_dependency_graph dm"
  note dm_ok = create_destination_map_ok [OF dm]
  have wf: "wf_graph g" and dests: "destinations g = map_keys dm"
    using build_dependency_graph_wf [OF dm_ok(1)] by (auto simp: g_def)
  have ne: "[] \<notin> set (map_keys dm)"
  proof
    assume "[] \<in> set (map_keys dm)"
    then obtain e where "e \<in> set dm" "fst e = []" by auto
    then have "sources_of_destination sm [] \<noteq> []" using dm_ok(2) by (auto simp: destination_ok_def)
    then obtain p s where s: "(p, s) \<in> set sm" "[] \<in> set (src_destinations s)"
      by (auto simp: sources_of_destination_def filter_empty_conv)
    show False
      using s create_source_map_absolute [OF sm] by (force simp: is_absolute_def)
  qed
  obtain r where r: "detect_circular_dependency g = Some r" "r = None \<Longrightarrow> acyclic (depends g)"
    "\<And>c. r = Some c \<Longrightarrow> \<exists>st. found_cycle g st \<and> c = extract_cycle st"
    using detect_spec [OF wf] by metis
  show ?thesis
  proof (cases r)
    case None
    with r(2) topological_sort_spec [OF wf] obtain order where
      order: "topological_sort g = Inr order" "topo_order g order" by auto
    then have "set order \<subseteq> set (map_keys dm)"
      by (simp add: topo_order_def dests)
    from embed_fold_ok [OF dm_ok(2) this, of "embed_cwd params"] obtain st where
      st: "fold_result (embed_step (embed_cwd params) sm dm) ([], []) order = Inr st"
      "run_follows (embed_cwd params) sm dm order (snd st)" by blast
    with r None order show ?thesis
      by (simp add: embed_all_def sm dm Let_def run_spec_def flip: g_def) blast
  next
    case (Some c)
    with r(3) obtain st where cyc: "found_cycle g st" "c = extract_cycle st" by blast
    with extract_cycle_walk [of g st] ne dests have "closed_walk g c" by simp
    with Some r(1) show ?thesis
      using closed_walk_cyclic [of g c]
      by (simp add: embed_all_def sm dm Let_def run_spec_def flip: g_def)
  qed
qed

subsection \<open>The report\<close>

lemma set_process_result:
  "set (process_result t relative check run) = report t relative check ` set (run_embeds run)"
  by (simp add: process_result_def)

lemma report_is_error:
  "is_error (report t relative check e) \<longleftrightarrow>
     code_of e \<noteq> NoChangeCode \<and> (code_of e = UpdateCode \<longrightarrow> check)"
  by (cases e) (simp_all add: report_def Let_def)

lemma report_fails_iff:
  "list_ex is_error (process_result t relative check run) \<longleftrightarrow>
     \<not> set (map code_of (run_embeds run)) \<subseteq> (if check then {NoChangeCode} else {NoChangeCode, UpdateCode})"
  unfolding list_ex_iff set_process_result by (auto simp: report_is_error)

lemma writes_of_Nil_iff: "writes_of es = [] \<longleftrightarrow> UpdateCode \<notin> set (map code_of es)"
  by (induction es rule: writes_of.induct) auto

text \<open>The flag \<open>write\<close> changes what is written, not what is computed.\<close>

lemma embed_all_check:
  "embed_all (params\<lparr>embed_write := False\<rparr>) read =
     (case embed_all params read of Inl e \<Rightarrow> Inl e | Inr (run, w) \<Rightarrow> Inr (run, []))"
  unfolding embed_all_def
  by (auto simp: bind_result_def Let_def split: sum.splits option.splits)

lemma embed_all_writes:
  assumes "embed_all params read = Inr (run, w)"
  shows "w = (if embed_write params then writes_of (run_embeds run) else [])"
proof -
  obtain sm dm where "create_source_map (embed_cwd params) read (embed_paths params) = Inr sm"
    "create_destination_map read sm = Inr dm"
    using assms by (auto simp: embed_all_def bind_result_Inr_iff)
  from embed_all_ok [OF this] assms show ?thesis by auto
qed

subsection \<open>Properties\<close>

text \<open>C1: A run fails only because a file could not be read. Otherwise it reports one result per
  destination, in an order where a destination comes after everything embedded into it, each
  result computed with the contents updated so far, or the one closed walk that makes such an
  order impossible; it writes exactly the updates, and only when asked to.\<close>

theorem embed_run_correct:
  "case embed_all params read of
     Inl e \<Rightarrow> (\<exists>p. e = ReadFailed p \<and> read p = None)
   | Inr (run, writes) \<Rightarrow>
       (\<exists>sm dm. create_source_map (embed_cwd params) read (embed_paths params) = Inr sm \<and>
          create_destination_map read sm = Inr dm \<and> run_spec params sm dm (run_embeds run)) \<and>
       writes = (if embed_write params then writes_of (run_embeds run) else [])"
proof (cases "create_source_map (embed_cwd params) read (embed_paths params)")
  case (Inl e)
  then show ?thesis
    using create_source_map_error by (fastforce simp: embed_all_def)
next
  case sm: (Inr sm)
  show ?thesis
  proof (cases "create_destination_map read sm")
    case (Inl e)
    then show ?thesis
      using create_destination_map_error sm by (fastforce simp: embed_all_def)
  next
    case (Inr dm)
    with sm embed_all_ok [OF sm Inr] show ?thesis by auto
  qed
qed

text \<open>C17: The command with \<open>--check\<close> writes nothing, and it succeeds exactly when the command
  without it would succeed and write nothing.\<close>

theorem check_decides_up_to_date:
  "snd (cli_exit t relative cwd paths True read) = [] \<and>
   (fst (cli_exit t relative cwd paths True read) = 0 \<longleftrightarrow>
    cli_exit t relative cwd paths False read = (0, []))"
proof -
  let ?params = "\<lparr>embed_cwd = cwd, embed_paths = paths, embed_write = True\<rparr>"
  have check: "embed_all \<lparr>embed_cwd = cwd, embed_paths = paths, embed_write = False\<rparr> read =
      (case embed_all ?params read of Inl e \<Rightarrow> Inl e | Inr (run, w) \<Rightarrow> Inr (run, []))"
    using embed_all_check [of ?params read] by simp
  show ?thesis
  proof (cases "embed_all ?params read")
    case (Inr rw)
    then obtain run where run: "embed_all ?params read = Inr (run, writes_of (run_embeds run))"
      using embed_all_writes [of ?params read] by (cases rw) auto
    let ?codes = "set (map code_of (run_embeds run))"
    have "?codes \<subseteq> {NoChangeCode} \<longleftrightarrow> ?codes \<subseteq> {NoChangeCode, UpdateCode} \<and> UpdateCode \<notin> ?codes"
      by blast
    then show ?thesis
      by (simp add: cli_exit_def check run report_fails_iff writes_of_Nil_iff del: set_map)
  qed (simp add: cli_exit_def check)
qed

end
