(* ===== verification/JsNumber.thy ===== *)
theory JsNumber
  imports JsString
begin

section \<open>JavaScript numbers read from strings\<close>

text \<open>
  \<open>Number(s)\<close> of ECMAScript: the numeric string is read exactly and rounded to the nearest
  double, ties to even. A finite double is \<open>m * 2 ^ e\<close>; the two zeros are one value here,
  since no caller tells them apart. \<open>integer_value\<close> is \<open>Number.isInteger\<close> together with the
  integer itself; \<open>show_nat\<close> is \<open>String(n)\<close> of a non-negative integer below \<open>2 ^ 53\<close>.
\<close>

datatype js_number = NaN | Infinite bool | Finite int int

subsection \<open>Rounding\<close>

function bit_length :: "int \<Rightarrow> int" where
  "bit_length n = (if n \<le> 0 then 0 else 1 + bit_length (n div 2))"
  by pat_completeness auto
termination
  by (relation "measure nat") auto

declare bit_length.simps [simp del]

definition round_half_even :: "int \<Rightarrow> int \<Rightarrow> int" where
  "round_half_even n d =
     (let q = n div d; r = n mod d
      in if 2 * r < d \<or> (2 * r = d \<and> q mod 2 = 0) then q else q + 1)"

definition scale :: "int \<Rightarrow> int \<Rightarrow> int \<Rightarrow> int \<times> int" where
  "scale n d e = (if 0 \<le> e then (n, d * 2 ^ nat e) else (n * 2 ^ nat (- e), d))"

definition signed :: "bool \<Rightarrow> int \<Rightarrow> int" where
  "signed neg n = (if neg then - n else n)"

text \<open>The double nearest to \<open>n / d\<close>, for \<open>0 \<le> n\<close> and \<open>0 < d\<close>.\<close>

definition round_ratio :: "bool \<Rightarrow> int \<Rightarrow> int \<Rightarrow> js_number" where
  "round_ratio neg n d =
     (if n = 0 then Finite 0 0
      else
        let e0 = bit_length n - bit_length d - 53;
            e1 = (case scale n d e0 of (a, b) \<Rightarrow> if 2 ^ 53 * b \<le> a then e0 + 1 else e0);
            e = max (- 1074) e1;
            m = (case scale n d e of (a, b) \<Rightarrow> round_half_even a b)
        in if 1024 < bit_length m + e then Infinite neg else Finite (signed neg m) e)"

definition integer_value :: "js_number \<Rightarrow> int option" where
  "integer_value x =
     (case x of
        Finite m e \<Rightarrow>
          if 0 \<le> e then Some (m * 2 ^ nat e)
          else if m mod 2 ^ nat (- e) = 0 then Some (m div 2 ^ nat (- e)) else None
      | _ \<Rightarrow> None)"

subsection \<open>Number(s)\<close>

definition digit_value :: "char \<Rightarrow> int option" where
  "digit_value c =
     (if is_digit c then Some (int (code c) - 48)
      else if 97 \<le> code c \<and> code c \<le> 102 then Some (int (code c) - 87)
      else if 65 \<le> code c \<and> code c \<le> 70 then Some (int (code c) - 55)
      else None)"

definition is_digit_of :: "int \<Rightarrow> char \<Rightarrow> bool" where
  "is_digit_of b c \<longleftrightarrow> (case digit_value c of None \<Rightarrow> False | Some v \<Rightarrow> v < b)"

definition digits_value :: "int \<Rightarrow> string \<Rightarrow> int" where
  "digits_value b s =
     foldl (\<lambda>acc c. acc * b + (case digit_value c of None \<Rightarrow> 0 | Some v \<Rightarrow> v)) 0 s"

definition take_sign :: "string \<Rightarrow> bool \<times> string" where
  "take_sign s =
     (case s of
        c # r \<Rightarrow> if c = CHR ''-'' then (True, r) else if c = CHR ''+'' then (False, r) else (False, s)
      | [] \<Rightarrow> (False, s))"

definition parse_exponent :: "string \<Rightarrow> int option" where
  "parse_exponent s =
     (case s of
        [] \<Rightarrow> Some 0
      | c # r \<Rightarrow>
          (case take_sign r of (neg, ds) \<Rightarrow>
             if (c = CHR ''e'' \<or> c = CHR ''E'') \<and> ds \<noteq> [] \<and> list_all is_digit ds
             then Some (signed neg (digits_value 10 ds)) else None))"

definition of_decimal :: "bool \<Rightarrow> int \<Rightarrow> int \<Rightarrow> js_number" where
  "of_decimal neg n x =
     (if 0 \<le> x then round_ratio neg (n * 10 ^ nat x) 1 else round_ratio neg n (10 ^ nat (- x)))"

definition parse_decimal :: "string \<Rightarrow> js_number" where
  "parse_decimal s =
     (let (neg, s1) = take_sign s;
          whole = takeWhile is_digit s1; r1 = dropWhile is_digit s1;
          (fraction, r2) =
            (case r1 of
               c # r \<Rightarrow> if c = CHR ''.'' then (takeWhile is_digit r, dropWhile is_digit r) else ([], r1)
             | [] \<Rightarrow> ([], r1))
      in if s1 = ''Infinity'' then Infinite neg
         else if whole = [] \<and> fraction = [] then NaN
         else (case parse_exponent r2 of
                 None \<Rightarrow> NaN
               | Some x \<Rightarrow> of_decimal neg (digits_value 10 (whole @ fraction)) (x - int (length fraction))))"

definition radix_of :: "char \<Rightarrow> int option" where
  "radix_of c =
     (if c = CHR ''x'' \<or> c = CHR ''X'' then Some 16
      else if c = CHR ''o'' \<or> c = CHR ''O'' then Some 8
      else if c = CHR ''b'' \<or> c = CHR ''B'' then Some 2 else None)"

definition to_number :: "string \<Rightarrow> js_number" where
  "to_number s =
     (let t = trim s in
      case t of
        [] \<Rightarrow> Finite 0 0
      | [c] \<Rightarrow> parse_decimal t
      | c # d # ds \<Rightarrow>
          (case (if c = CHR ''0'' then radix_of d else None) of
             None \<Rightarrow> parse_decimal t
           | Some b \<Rightarrow>
               if ds \<noteq> [] \<and> list_all (is_digit_of b) ds
               then round_ratio False (digits_value b ds) 1 else NaN))"

subsection \<open>String(n)\<close>

definition digit_char :: "int \<Rightarrow> char" where
  "digit_char n = char_of (nat n + 48)"

function show_nat :: "int \<Rightarrow> string" where
  "show_nat n = (if n < 10 then [digit_char n] else show_nat (n div 10) @ [digit_char (n mod 10)])"
  by pat_completeness auto
termination
  by (relation "measure nat") auto

declare show_nat.simps [simp del]

definition show_int :: "int \<Rightarrow> string" where
  "show_int i = (if i < 0 then CHR ''-'' # show_nat (- i) else show_nat i)"

subsection \<open>Reading back a printed integer\<close>

lemma code_char_of [simp]: "n < 256 \<Longrightarrow> code (char_of n) = n"
  by (simp add: code_def of_char_of)

lemma digit_char [simp]:
  "0 \<le> n \<Longrightarrow> n < 10 \<Longrightarrow> is_digit (digit_char n)"
  "0 \<le> n \<Longrightarrow> n < 10 \<Longrightarrow> digit_value (digit_char n) = Some n"
  by (simp_all add: digit_char_def is_digit_def digit_value_def)

lemma show_nat_ne: "show_nat n \<noteq> []"
  by (subst show_nat.simps) simp

lemma show_nat_digits: "0 \<le> n \<Longrightarrow> list_all is_digit (show_nat n)"
proof (induction n rule: show_nat.induct)
  case (1 n)
  then show ?case
    by (subst show_nat.simps) (simp add: pos_imp_zdiv_nonneg_iff)
qed

lemma digits_value_snoc:
  "digits_value b (s @ [c]) = digits_value b s * b + (case digit_value c of None \<Rightarrow> 0 | Some v \<Rightarrow> v)"
  by (simp add: digits_value_def)

lemma digits_value_show_nat: "0 \<le> n \<Longrightarrow> digits_value 10 (show_nat n) = n"
proof (induction n rule: show_nat.induct)
  case (1 n)
  show ?case
  proof (cases "n < 10")
    case True
    with 1 show ?thesis by (subst show_nat.simps) (simp add: digits_value_def)
  next
    case False
    with 1 have "digits_value 10 (show_nat (n div 10)) = n div 10"
      by (simp add: pos_imp_zdiv_nonneg_iff)
    with False show ?thesis
      by (subst show_nat.simps) (simp add: digits_value_snoc)
  qed
qed

lemma bit_length_nonneg: "0 \<le> bit_length n"
  by (induction n rule: bit_length.induct) (subst bit_length.simps, simp)

lemma bit_length_bounds: "0 < n \<Longrightarrow> 2 ^ nat (bit_length n - 1) \<le> n \<and> n < 2 ^ nat (bit_length n) \<and> 0 < bit_length n"
proof (induction n rule: bit_length.induct)
  case (1 n)
  have step: "bit_length n = 1 + bit_length (n div 2)"
    using 1 by (subst bit_length.simps) simp
  show ?case
  proof (cases "n = 1")
    case True
    then show ?thesis by (simp add: bit_length.simps)
  next
    case False
    with 1 have IH: "2 ^ nat (bit_length (n div 2) - 1) \<le> n div 2"
      "n div 2 < 2 ^ nat (bit_length (n div 2))" "0 < bit_length (n div 2)" by auto
    define k where "k = nat (bit_length (n div 2) - 1)"
    then have k: "bit_length (n div 2) = 1 + int k"
      using IH(3) by simp
    from IH have "2 ^ k \<le> n div 2" "n div 2 < 2 * 2 ^ k" unfolding k
      by (auto simp: nat_add_distrib)
    then have "2 * 2 ^ k \<le> n" "n < 4 * 2 ^ k" by auto
    then show ?thesis by (simp add: step k nat_add_distrib)
  qed
qed

lemma bit_length_le: "n < 2 ^ k \<Longrightarrow> bit_length n \<le> int k"
proof (cases "n \<le> 0")
  case True
  then show ?thesis by (simp add: bit_length.simps)
next
  case False
  assume "n < 2 ^ k"
  with bit_length_bounds [of n] False have "(2::int) ^ nat (bit_length n - 1) < 2 ^ k" by linarith
  then have "nat (bit_length n - 1) < k" by (simp add: power_strict_increasing_iff)
  then show ?thesis by linarith
qed

lemma round_half_even_1 [simp]: "round_half_even n 1 = n"
  by (simp add: round_half_even_def)

text \<open>Integers below \<open>2 ^ 53\<close> are doubles.\<close>

lemma round_ratio_exact:
  assumes "0 \<le> n" and "n < 2 ^ 53"
  shows "integer_value (round_ratio neg n 1) = Some (signed neg n)"
proof (cases "n = 0")
  case True
  then show ?thesis by (simp add: round_ratio_def integer_value_def signed_def)
next
  case False
  with assms have pos: "0 < n" by simp
  define k where "k = nat (53 - bit_length n)"
  have "bit_length n \<le> 53" "0 < bit_length n"
    using assms pos bit_length_le [of n 53] bit_length_bounds [of n] by auto
  then have k: "bit_length n = 53 - int k" "k \<le> 52"
    by (auto simp: k_def)
  have one: "bit_length 1 = 1" by (simp add: bit_length.simps)
  have low: "2 ^ (52 - k) \<le> n" and high: "n < 2 ^ (53 - k)"
    using bit_length_bounds [of n] pos k by (auto simp: nat_diff_distrib)
  have "(2::int) ^ 53 = 2 ^ (52 - k) * 2 ^ Suc k"
    using k(2) by (simp flip: power_add)
  with low have big: "2 ^ 53 \<le> n * 2 ^ Suc k"
    by (simp only: mult_right_mono zero_le_numeral zero_le_power)
  have e0: "bit_length n - bit_length 1 - 53 = - int (Suc k)"
    using k one by simp
  have sc: "scale n 1 (- int (Suc k)) = (n * 2 ^ Suc k, 1)"
    by (simp add: scale_def nat_add_distrib)
  have sc2: "scale n 1 (- int k) = (n * 2 ^ k, 1)"
    by (simp add: scale_def)
  have "n * 2 ^ k < 2 ^ 53"
  proof -
    have "n * 2 ^ k < 2 ^ (53 - k) * 2 ^ k" using high by simp
    also have "\<dots> = 2 ^ 53" using k(2) by (simp flip: power_add)
    finally show ?thesis .
  qed
  then have "bit_length (n * 2 ^ k) \<le> int 53" by (rule bit_length_le)
  then have "\<not> 1024 < bit_length (n * 2 ^ k) + - int k" by simp
  moreover have "max (- 1074) (- int (Suc k) + 1) = - int k" using k(2) by simp
  ultimately have "round_ratio neg n 1 = Finite (signed neg (n * 2 ^ k)) (- int k)"
    unfolding round_ratio_def Let_def e0 sc using False big sc2 by simp
  moreover have "signed neg (n * 2 ^ k) = signed neg n * 2 ^ k"
    by (simp add: signed_def)
  ultimately show ?thesis
    by (auto simp: integer_value_def)
qed

lemma is_digit_not_space: "is_digit c \<Longrightarrow> \<not> is_space c"
  by (auto simp: is_digit_def is_space_def)

lemma trim_digits:
  assumes "list_all is_digit s"
  shows "trim s = s"
proof (cases s)
  case (Cons c cs)
  have "trim_start s = s"
    using assms Cons is_digit_not_space by (simp add: trim_start_def)
  moreover have "\<not> is_space (last s)"
    using assms Cons is_digit_not_space by (auto simp: list_all_iff)
  ultimately show ?thesis by (simp add: trim_def trim_end_id)
qed (simp add: trim_def trim_start_def trim_end_def)

lemma to_number_digits:
  assumes "list_all is_digit s" and "s \<noteq> []"
  shows "to_number s = round_ratio False (digits_value 10 s) 1"
proof -
  have tw: "takeWhile is_digit s = s" "dropWhile is_digit s = []"
    using assms(1) by (auto simp: list_all_iff takeWhile_eq_all_conv dropWhile_eq_Nil_conv)
  obtain c cs where s: "s = c # cs" using assms(2) by (cases s) auto
  have c: "is_digit c" "list_all is_digit cs" using assms(1) s by auto
  then have "c \<noteq> CHR ''-''" "c \<noteq> CHR ''+''" "c \<noteq> CHR ''I''"
    by (auto simp: is_digit_def code_def)
  then have sign: "take_sign s = (False, s)" and inf: "s \<noteq> ''Infinity''"
    by (auto simp: take_sign_def s)
  have dec: "parse_decimal s = round_ratio False (digits_value 10 s) 1"
    unfolding parse_decimal_def sign Let_def using assms(2) inf
    by (simp add: tw parse_exponent_def of_decimal_def)
  have rad: "radix_of d = None" if "is_digit d" for d
    using that by (auto simp: radix_of_def is_digit_def code_def)
  show ?thesis
  proof (cases cs)
    case Nil
    with dec s trim_digits [OF assms(1)] show ?thesis by (simp add: to_number_def)
  next
    case (Cons d ds)
    with c have "is_digit d" by simp
    with rad dec s Cons trim_digits [OF assms(1)] show ?thesis by (auto simp: to_number_def)
  qed
qed

lemma to_number_show_nat:
  "0 \<le> n \<Longrightarrow> n < 2 ^ 53 \<Longrightarrow> integer_value (to_number (show_nat n)) = Some n"
  using round_ratio_exact [of n False]
  by (simp add: to_number_digits show_nat_digits show_nat_ne digits_value_show_nat signed_def)

lemma show_nat_inj: "show_int (int m) = show_int (int n) \<longleftrightarrow> m = n"
proof
  assume "show_int (int m) = show_int (int n)"
  then have "digits_value 10 (show_nat (int m)) = digits_value 10 (show_nat (int n))"
    by (simp add: show_int_def)
  then show "m = n" by (simp only: digits_value_show_nat of_nat_0_le_iff of_nat_eq_iff)
qed simp

end
