(* ===== verification/NetIp.thy ===== *)
theory NetIp
  imports JsNumber "HOL-Library.Word"
begin

section \<open>Internet addresses of Node's \<open>net\<close> module\<close>

text \<open>
  \<open>net.isIP\<close> and \<open>net.BlockList\<close>, which the proxy uses to recognise and to classify addresses.
  An IPv4 address is a 32-bit word, an IPv6 address a 128-bit word. The text forms are those of
  Node's patterns: four decimal octets without leading zeros; eight groups of one to four
  hexadecimal digits, the last two possibly written as an IPv4 address, and at most one \<open>"::"\<close>
  for at least one group; a zone may follow a percent sign.
\<close>

unbundle bit_operations_syntax

type_synonym ipv4 = "32 word"
type_synonym ipv6 = "128 word"

subsection \<open>Reading addresses\<close>

definition parse_octet :: "string \<Rightarrow> int option" where
  "parse_octet s =
     (if s \<noteq> [] \<and> list_all is_digit s \<and> length s \<le> 3 \<and> (hd s = CHR ''0'' \<longrightarrow> length s = 1)
         \<and> digits_value 10 s \<le> 255
      then Some (digits_value 10 s) else None)"

definition octets_value :: "int \<Rightarrow> int \<Rightarrow> int \<Rightarrow> int \<Rightarrow> int" where
  "octets_value a b c d = ((a * 256 + b) * 256 + c) * 256 + d"

definition parse_ipv4_int :: "string \<Rightarrow> int option" where
  "parse_ipv4_int s =
     (case map parse_octet (split_char CHR ''.'' s) of
        [Some a, Some b, Some c, Some d] \<Rightarrow> Some (octets_value a b c d)
      | _ \<Rightarrow> None)"

definition parse_ipv4 :: "string \<Rightarrow> ipv4 option" where
  "parse_ipv4 s = map_option word_of_int (parse_ipv4_int s)"

definition parse_group :: "string \<Rightarrow> int option" where
  "parse_group s =
     (if s \<noteq> [] \<and> length s \<le> 4 \<and> list_all (is_digit_of 16) s
      then Some (digits_value 16 s) else None)"

text \<open>The 16-bit groups of a colon-separated part; only its last piece may be dotted.\<close>

fun parse_pieces :: "string list \<Rightarrow> int list option" where
  "parse_pieces [] = Some []"
| "parse_pieces [s] =
     (case parse_group s of
        Some g \<Rightarrow> Some [g]
      | None \<Rightarrow> map_option (\<lambda>v. [v div 65536, v mod 65536]) (parse_ipv4_int s))"
| "parse_pieces (s # t # ss) =
     (case parse_group s of
        None \<Rightarrow> None
      | Some g \<Rightarrow> map_option (\<lambda>gs. g # gs) (parse_pieces (t # ss)))"

definition colon_pieces :: "string \<Rightarrow> string list" where
  "colon_pieces s = (if s = [] then [] else split_char CHR '':'' s)"

definition parse_part :: "string \<Rightarrow> int list option" where
  "parse_part s = parse_pieces (colon_pieces s)"

definition hex_part :: "string \<Rightarrow> int list option" where
  "hex_part s =
     (let gs = map parse_group (colon_pieces s)
      in if None \<in> set gs then None else Some (map the gs))"

definition parse_groups :: "string \<Rightarrow> int list option" where
  "parse_groups s =
     (case sub_index ''::'' s of
        None \<Rightarrow>
          (case parse_part s of
             Some gs \<Rightarrow> if length gs = 8 then Some gs else None
           | None \<Rightarrow> None)
      | Some i \<Rightarrow>
          (case (hex_part (take i s), parse_part (drop (i + 2) s)) of
             (Some l, Some r) \<Rightarrow>
               if length l + length r \<le> 7
               then Some (l @ replicate (8 - length l - length r) 0 @ r) else None
           | _ \<Rightarrow> None))"

definition groups_value :: "int list \<Rightarrow> int" where
  "groups_value gs = foldl (\<lambda>acc g. acc * 65536 + g) 0 gs"

definition address_part :: "string \<Rightarrow> string" where
  "address_part s = takeWhile (\<lambda>c. c \<noteq> CHR ''%'') s"

definition parse_ipv6 :: "string \<Rightarrow> ipv6 option" where
  "parse_ipv6 s = map_option (\<lambda>gs. word_of_int (groups_value gs)) (parse_groups (address_part s))"

definition is_zone_char :: "char \<Rightarrow> bool" where
  "is_zone_char c \<longleftrightarrow>
     is_digit c \<or> 97 \<le> code c \<and> code c \<le> 122 \<or> 65 \<le> code c \<and> code c \<le> 90 \<or>
     c \<in> set ''-.:''"

definition zone_ok :: "string \<Rightarrow> bool" where
  "zone_ok s =
     (case dropWhile (\<lambda>c. c \<noteq> CHR ''%'') s of
        [] \<Rightarrow> True
      | _ # z \<Rightarrow> z \<noteq> [] \<and> list_all is_zone_char z)"

datatype ip_family = IPv4 | IPv6

definition is_ip :: "string \<Rightarrow> ip_family option" where
  "is_ip s =
     (if parse_ipv4_int s \<noteq> None then Some IPv4
      else if parse_groups (address_part s) \<noteq> None \<and> zone_ok s then Some IPv6
      else None)"

subsection \<open>Block lists\<close>

text \<open>A rule holds the network and the prefix length. Checking a text that is no address of
  the family throws.\<close>

definition in_network :: "'a::len word \<Rightarrow> 'a word \<Rightarrow> nat \<Rightarrow> bool" where
  "in_network a net pfx \<longleftrightarrow>
     drop_bit (LENGTH('a) - pfx) a = drop_bit (LENGTH('a) - pfx) net"

definition block_check :: "('a::len word \<times> nat) list \<Rightarrow> 'a word \<Rightarrow> bool" where
  "block_check rules a = list_ex (\<lambda>(net, pfx). in_network a net pfx) rules"

definition add_subnets :: "(string \<Rightarrow> 'w option) \<Rightarrow> (string \<times> nat) list \<Rightarrow> ('w \<times> nat) list" where
  "add_subnets parse ranges =
     List.map_filter (\<lambda>(s, p). map_option (\<lambda>w. (w, p)) (parse s)) ranges"

subsection \<open>Prefixes as intervals\<close>

lemma drop_bit_eq_interval:
  fixes a net :: "'a::len word"
  assumes "unat net = q * 2 ^ k"
  shows "drop_bit k a = drop_bit k net \<longleftrightarrow> unat net \<le> unat a \<and> unat a < unat net + 2 ^ k"
proof -
  have u: "unat (drop_bit k x) = unat x div 2 ^ k" for x :: "'a word"
    by (subst unat_drop_bit_eq) (rule drop_bit_eq_div)
  have "drop_bit k a = drop_bit k net \<longleftrightarrow> unat a div 2 ^ k = unat net div 2 ^ k"
    by (simp only: word_unat_eq_iff u)
  also have "\<dots> \<longleftrightarrow> unat a div 2 ^ k = q"
    using assms by simp
  also have "\<dots> \<longleftrightarrow> q * 2 ^ k \<le> unat a \<and> unat a < (q + 1) * 2 ^ k"
  proof
    assume "unat a div 2 ^ k = q"
    then show "q * 2 ^ k \<le> unat a \<and> unat a < (q + 1) * 2 ^ k"
      using div_times_less_eq_dividend [of "unat a" "2 ^ k"] dividend_less_div_times [of "2 ^ k" "unat a"]
      by (simp add: algebra_simps)
  next
    assume "q * 2 ^ k \<le> unat a \<and> unat a < (q + 1) * 2 ^ k"
    then show "unat a div 2 ^ k = q"
      by (intro div_nat_eqI) (simp_all add: algebra_simps)
  qed
  finally show ?thesis using assms by (simp add: algebra_simps)
qed

lemma in_network_interval:
  fixes a net :: "'a::len word"
  assumes "unat net mod 2 ^ (LENGTH('a) - pfx) = 0"
  shows "in_network a net pfx \<longleftrightarrow>
    unat net \<le> unat a \<and> unat a < unat net + 2 ^ (LENGTH('a) - pfx)"
proof -
  have "unat net = (unat net div 2 ^ (LENGTH('a) - pfx)) * 2 ^ (LENGTH('a) - pfx)"
    using assms by (metis add.right_neutral div_mult_mod_eq)
  then show ?thesis unfolding in_network_def by (rule drop_bit_eq_interval)
qed

lemma in_network_range:
  fixes a net :: "'a::len word"
  assumes "unat net mod 2 ^ (LENGTH('a) - pfx) = 0"
  shows "in_network a net pfx \<longleftrightarrow>
    unat net \<le> unat a \<and> unat a \<le> unat net + (2 ^ (LENGTH('a) - pfx) - 1)"
proof -
  have "(0::nat) < 2 ^ (LENGTH('a) - pfx)" by simp
  then show ?thesis unfolding in_network_interval [OF assms] by linarith
qed

subsection \<open>Facts about address texts\<close>

lemma digits_value_bound:
  assumes "list_all (is_digit_of b) s" and "0 < b"
  shows "0 \<le> digits_value b s \<and> digits_value b s < b ^ length s"
  using assms(1)
proof (induction s rule: rev_induct)
  case Nil
  then show ?case by (simp add: digits_value_def)
next
  case (snoc c s)
  then obtain v where v: "digit_value c = Some v" "v < b"
    by (auto simp: is_digit_of_def split: option.splits)
  then have "0 \<le> v" by (auto simp: digit_value_def is_digit_def split: if_splits)
  moreover have IH: "0 \<le> digits_value b s" "digits_value b s < b ^ length s"
    using snoc by auto
  moreover have "digits_value b s * b + v < b ^ length s * b"
  proof -
    have "(digits_value b s + 1) * b \<le> b ^ length s * b"
      using IH(2) assms(2) by (intro mult_right_mono) auto
    then show ?thesis using v(2) by (simp add: algebra_simps)
  qed
  ultimately show ?case using v assms(2) by (simp add: digits_value_snoc mult.commute)
qed

lemma parse_octet_range: "parse_octet s = Some v \<Longrightarrow> 0 \<le> v \<and> v \<le> 255"
proof -
  assume s: "parse_octet s = Some v"
  then have "list_all is_digit s" by (auto simp: parse_octet_def split: if_splits)
  then have "list_all (is_digit_of 10) s"
    by (rule list.pred_mono_strong) (auto simp: is_digit_of_def digit_value_def is_digit_def)
  from digits_value_bound [OF this] s show ?thesis
    by (auto simp: parse_octet_def split: if_splits)
qed

lemma parse_ipv4_int_range:
  assumes "parse_ipv4_int s = Some v"
  shows "0 \<le> v \<and> v < 4294967296"
proof -
  obtain a b c d where o4: "map parse_octet (split_char CHR ''.'' s) = [Some a, Some b, Some c, Some d]"
    and v: "v = octets_value a b c d"
    using assms unfolding parse_ipv4_int_def by (auto split: list.splits option.splits)
  from o4 obtain x y z w where "parse_octet x = Some a" "parse_octet y = Some b"
    "parse_octet z = Some c" "parse_octet w = Some d"
    by (auto simp: map_eq_Cons_conv)
  from this [THEN parse_octet_range] v show ?thesis
    by (auto simp: octets_value_def)
qed

lemma parse_ipv4_int_chars:
  assumes "parse_ipv4_int s = Some v"
  shows "list_all (\<lambda>c. is_digit c \<or> c = CHR ''.'') s" "s \<noteq> []"
proof -
  obtain x y z w where parts: "split_char CHR ''.'' s = [x, y, z, w]"
    and "parse_octet x \<noteq> None" "parse_octet y \<noteq> None" "parse_octet z \<noteq> None" "parse_octet w \<noteq> None"
    using assms unfolding parse_ipv4_int_def
    by (auto simp: map_eq_Cons_conv split: list.splits option.splits)
  then have "list_all is_digit x" "list_all is_digit y" "list_all is_digit z" "list_all is_digit w"
    by (auto simp: parse_octet_def split: if_splits)
  moreover have "s = x @ CHR ''.'' # y @ CHR ''.'' # z @ CHR ''.'' # w"
    using join_split_char [of "CHR ''.''" s] parts by simp
  ultimately show "list_all (\<lambda>c. is_digit c \<or> c = CHR ''.'') s" "s \<noteq> []"
    by (auto simp: list_all_iff)
qed

lemma parse_ipv4_int_no:
  assumes "parse_ipv4_int s = Some v" and "\<not> is_digit c" and "c \<noteq> CHR ''.''"
  shows "c \<notin> set s"
  using parse_ipv4_int_chars(1) [OF assms(1)] assms(2,3) by (auto simp: list_all_iff)

end
