(* ===== verification/HostRule.thy ===== *)
theory HostRule
  imports NetIp NodePath
begin

section \<open>clearance: host rules and the allowlist\<close>

text \<open>
  Models \<open>packages/clearance/src/hostRule.ts\<close> and \<open>allowlist.ts\<close>. \<open>url.domainToASCII\<close> (the
  Unicode IDNA tables) is the parameter \<open>to_ascii\<close>; it returns the empty string for a domain it
  rejects. The environment is a partial map, reading a file gives its text or the message of
  the error thrown.
\<close>

type_synonym to_ascii = "string \<Rightarrow> string"
type_synonym env = "string \<Rightarrow> string option"

subsection \<open>hostRule.ts\<close>

definition drop_final_dot :: "string \<Rightarrow> string" where
  "drop_final_dot s = (if s \<noteq> [] \<and> last s = CHR ''.'' then butlast s else s)"

definition normalize_host :: "to_ascii \<Rightarrow> string \<Rightarrow> string option" where
  "normalize_host to_ascii host =
     (let trimmed = drop_final_dot (to_lower (trim host));
          is_bracketed = starts_with trimmed ''['' \<and> ends_with trimmed '']'';
          unbracketed = if is_bracketed then drop 1 (butlast trimmed) else trimmed
      in if length unbracketed = 0 \<or> CHR ''%'' \<in> set unbracketed \<or> CHR ''/'' \<in> set unbracketed \<or>
            list_ex is_space unbracketed
         then None
         else if is_ip unbracketed \<noteq> None then Some unbracketed
         else if is_bracketed then None
         else if CHR '':'' \<in> set unbracketed \<or> CHR ''@'' \<in> set unbracketed then None
         else (let ascii = to_ascii unbracketed
               in if length ascii = 0 \<or> CHR ''*'' \<in> set ascii then None else Some ascii))"

definition normalize_rule :: "to_ascii \<Rightarrow> string \<Rightarrow> string option" where
  "normalize_rule to_ascii rule =
     (let trimmed = drop_final_dot (to_lower (trim rule))
      in if length trimmed = 0 then None
         else if starts_with trimmed ''*.''
         then (case normalize_host to_ascii (drop 2 trimmed) of
                 None \<Rightarrow> None
               | Some sfx \<Rightarrow> if is_ip sfx \<noteq> None then None else Some (''*.'' @ sfx))
         else normalize_host to_ascii trimmed)"

definition normalize_rules :: "to_ascii \<Rightarrow> string list \<Rightarrow> string list" where
  "normalize_rules to_ascii rules = set_of_list (List.map_filter (normalize_rule to_ascii) rules)"

text \<open>\<open>s.split(/[\s,]+/)\<close>: the pieces between maximal runs of separators.\<close>

function split_runs :: "(char \<Rightarrow> bool) \<Rightarrow> string \<Rightarrow> string list" where
  "split_runs sep s =
     (case dropWhile (\<lambda>c. \<not> sep c) s of
        [] \<Rightarrow> [s]
      | _ # r \<Rightarrow> takeWhile (\<lambda>c. \<not> sep c) s # split_runs sep (dropWhile sep r))"
  by pat_completeness auto
termination
proof (relation "measure (\<lambda>(sep, s). length s)")
  fix sep s c r
  assume "dropWhile (\<lambda>c. \<not> sep c) s = c # r"
  then have "length (c # r) \<le> length s" by (metis length_dropWhile_le)
  moreover have "length (dropWhile sep r) \<le> length r" by (rule length_dropWhile_le)
  ultimately show "((sep, dropWhile sep r), (sep, s)) \<in> measure (\<lambda>(sep, s). length s)"
    by simp
qed simp

declare split_runs.simps [simp del]

definition parse_list :: "string option \<Rightarrow> string list" where
  "parse_list input =
     (case input of
        None \<Rightarrow> []
      | Some s \<Rightarrow>
          filter (\<lambda>item. 0 < length item)
            (map trim (split_runs (\<lambda>c. is_space c \<or> c = CHR '','') s)))"

subsection \<open>allowlist.ts\<close>

datatype allowlist_error = AllowlistUnreadable path string | NoAllowedHosts

definition parse_files_env :: "string option \<Rightarrow> path list" where
  "parse_files_env value =
     (case value of
        None \<Rightarrow> []
      | Some v \<Rightarrow> filter (\<lambda>p. 0 < length p) (map trim (split_char CHR '':'' v)))"

definition read_hosts_file :: "(path \<Rightarrow> string + string) \<Rightarrow> path \<Rightarrow> allowlist_error + string list" where
  "read_hosts_file read_file p =
     (case read_file p of
        Inl msg \<Rightarrow> Inl (AllowlistUnreadable p msg)
      | Inr content \<Rightarrow>
          Inr (filter (\<lambda>line. 0 < length line)
                 (map (\<lambda>raw. trim (hd (split_char CHR ''#'' raw))) (split_char LF content))))"

definition resolve_allowlist ::
  "to_ascii \<Rightarrow> (path \<Rightarrow> string + string) \<Rightarrow> env \<Rightarrow> allowlist_error + string list" where
  "resolve_allowlist to_ascii read_file e =
     (let from_env = parse_list (e ''CLEARANCE_ALLOW_HOSTS'') in
      bind_result (traverse (read_hosts_file read_file)
                     (parse_files_env (e ''CLEARANCE_ALLOW_HOSTS_FILES''))) (\<lambda>files.
        let normalized = List.map_filter (normalize_rule to_ascii) (from_env @ concat files)
        in if length normalized = 0 then Inl NoAllowedHosts else Inr (set_of_list normalized)))"

subsection \<open>hostAllowed\<close>

definition host_allowed :: "string \<Rightarrow> string list \<Rightarrow> bool" where
  "host_allowed hostname allowed_hosts =
     list_ex (\<lambda>rule.
       if starts_with rule ''*.''
       then (let sfx = drop 1 rule
             in ends_with hostname sfx \<and> length sfx < length hostname)
       else hostname = rule) allowed_hosts"

subsection \<open>What the rules mean\<close>

text \<open>A wildcard covers the names with at least one more label, an exact rule itself.\<close>

definition covers :: "string \<Rightarrow> string \<Rightarrow> bool" where
  "covers rule hostname \<longleftrightarrow>
     (\<exists>domain label. rule = ''*.'' @ domain \<and> label \<noteq> [] \<and> hostname = label @ ''.'' @ domain) \<or>
     (\<not> prefix ''*.'' rule \<and> hostname = rule)"

lemma host_allowed_covers: "host_allowed hostname rules \<longleftrightarrow> (\<exists>rule \<in> set rules. covers rule hostname)"
proof -
  have "(if starts_with rule ''*.''
       then (let sfx = drop 1 rule
             in ends_with hostname sfx \<and> length sfx < length hostname)
       else hostname = rule) \<longleftrightarrow> covers rule hostname" for rule
  proof (cases "prefix ''*.'' rule")
    case True
    then obtain d where "rule = ''*.'' @ d" by (auto simp: prefix_def)
    then show ?thesis
      by (auto simp: starts_with_def ends_with_def covers_def suffix_def)
  next
    case False
    then show ?thesis by (auto simp: starts_with_def covers_def)
  qed
  then show ?thesis by (simp add: host_allowed_def list_ex_iff)
qed

text \<open>A normalised host is an address or a name \<open>domainToASCII\<close> returned, never a pattern.\<close>

lemma normalize_host_shape:
  assumes "normalize_host to_ascii host = Some h"
  shows "h \<noteq> [] \<and> (is_ip h \<noteq> None \<or> (\<exists>name. h = to_ascii name \<and> CHR ''*'' \<notin> set h))"
  using assms unfolding normalize_host_def Let_def by (auto split: if_splits)

lemma is_ip_chars:
  assumes "is_ip s = Some f"
  shows "CHR ''*'' \<notin> set s"
proof (cases f)
  case IPv4
  with assms obtain v where "parse_ipv4_int s = Some v"
    by (auto simp: is_ip_def split: if_splits)
  then show ?thesis by (rule parse_ipv4_int_no) (simp_all add: is_digit_def code_def)
next
  case IPv6
  with assms have "parse_groups (address_part s) \<noteq> None" and z: "zone_ok s"
    by (auto simp: is_ip_def split: if_splits)
  have star: "\<not> is_digit_of 16 CHR ''*''" "\<not> is_digit CHR ''*''" "\<not> is_zone_char CHR ''*''"
    by code_simp+
  have pieces: "CHR ''*'' \<notin> set p" if "parse_pieces ps = Some gs" "p \<in> set ps" for p ps gs
    using that
  proof (induction ps arbitrary: gs rule: parse_pieces.induct)
    case (2 s)
    then show ?case
      using star(1,2) parse_ipv4_int_no [of s _ "CHR ''*''"]
      by (auto simp: parse_group_def list_all_iff split: option.splits if_splits)
  next
    case (3 s t ss)
    then show ?case
      using star(1) by (auto simp: parse_group_def list_all_iff split: option.splits if_splits)
  qed simp
  have colon: "CHR ''*'' \<notin> set u" if "\<forall>p \<in> set (colon_pieces u). CHR ''*'' \<notin> set p" for u
  proof -
    have "set (join '':'' xs) \<subseteq> {CHR '':''} \<union> \<Union> (set ` set xs)" for xs
      by (induction "'':''" xs rule: join.induct) auto
    from this [of "split_char CHR '':'' u"] that show ?thesis
      by (auto simp: colon_pieces_def join_split_char split: if_splits)
  qed
  have part: "CHR ''*'' \<notin> set u" if "parse_part u = Some gs" for u gs
    using that pieces colon by (auto simp: parse_part_def)
  have hex: "CHR ''*'' \<notin> set u" if "hex_part u = Some gs" for u gs
    using that star(1) unfolding hex_part_def Let_def
    by (intro colon) (force simp: parse_group_def list_all_iff image_iff split: if_splits)
  have "CHR ''*'' \<notin> set (address_part s)"
  proof (cases "sub_index ''::'' (address_part s)")
    case None
    with \<open>parse_groups (address_part s) \<noteq> None\<close> show ?thesis
      by (auto simp: parse_groups_def dest: part split: option.splits)
  next
    case (Some i)
    let ?a = "address_part s"
    have split: "?a = take i ?a @ ''::'' @ drop (i + 2) ?a"
      using sub_index_split [OF Some] by simp
    have "CHR ''*'' \<notin> set (take i ?a)" "CHR ''*'' \<notin> set (drop (i + 2) ?a)"
      using Some \<open>parse_groups ?a \<noteq> None\<close>
      by (auto simp: parse_groups_def dest: hex part split: option.splits)
    then have "CHR ''*'' \<notin> set (take i ?a @ ''::'' @ drop (i + 2) ?a)" by simp
    moreover have "set ?a = set (take i ?a @ ''::'' @ drop (i + 2) ?a)"
      using split by (rule arg_cong)
    ultimately show ?thesis by argo
  qed
  moreover have "CHR ''*'' \<notin> set (dropWhile (\<lambda>c. c \<noteq> CHR ''%'') s)"
  proof (cases "dropWhile (\<lambda>c. c \<noteq> CHR ''%'') s")
    case (Cons c zone)
    with hd_dropWhile [of "\<lambda>c. c \<noteq> CHR ''%''" s] have "c = CHR ''%''" by simp
    moreover have "list_all is_zone_char zone" using z Cons by (simp add: zone_ok_def)
    ultimately show ?thesis using Cons star(3) by (auto simp: list_all_iff)
  next
    case Nil
    show ?thesis unfolding Nil by simp
  qed
  ultimately show ?thesis
    unfolding address_part_def by (metis Un_iff set_append takeWhile_dropWhile_id)
qed

lemma normalize_host_no_star:
  assumes "normalize_host to_ascii host = Some h"
  shows "CHR ''*'' \<notin> set h"
  using normalize_host_shape [OF assms] is_ip_chars by auto

end
