(* ===== verification/ClearancePolicy.thy ===== *)
theory ClearancePolicy
  imports HostRule
begin

section \<open>clearance: configuration, targets, headers and address policy\<close>

text \<open>
  Models the pure parts of \<open>packages/clearance/src/index.ts\<close>: the configuration read from the
  environment, the ports, the target of a CONNECT request, the hop-by-hop headers and the block
  lists of private addresses. Thrown errors are the values of \<open>config_error\<close>.
\<close>

datatype raw_port = PortNumber js_number | PortText string

datatype config_error =
    AllowlistError allowlist_error
  | InvalidPort raw_port
  | NoPorts
  | NotAnInteger string
  | OutOfRange string int int
  | NoValidRule

subsection \<open>Ports and integers\<close>

definition is_valid_port :: "js_number \<Rightarrow> bool" where
  "is_valid_port x = (case integer_value x of None \<Rightarrow> False | Some p \<Rightarrow> 0 < p \<and> p \<le> 65535)"

definition parse_port :: "string \<Rightarrow> int option" where
  "parse_port raw =
     (if length (trim raw) = 0 then None
      else let port = to_number raw in if is_valid_port port then integer_value port else None)"

definition valid_port_of :: "raw_port \<Rightarrow> config_error + int" where
  "valid_port_of raw =
     (let port = (case raw of PortNumber n \<Rightarrow> n | PortText s \<Rightarrow> to_number s)
      in if is_valid_port port
         then Inr (case integer_value port of Some p \<Rightarrow> p | None \<Rightarrow> 0)
         else Inl (InvalidPort raw))"

definition normalize_allowed_ports :: "raw_port list \<Rightarrow> config_error + int list" where
  "normalize_allowed_ports raw =
     bind_result (traverse valid_port_of raw) (\<lambda>ports.
       if length ports = 0 then Inl NoPorts else Inr (set_of_list ports))"

definition parse_integer_env ::
  "env \<Rightarrow> string \<Rightarrow> int \<Rightarrow> int \<Rightarrow> int \<Rightarrow> config_error + int" where
  "parse_integer_env e name fallback minimum maximum =
     (case e name of
        None \<Rightarrow> Inr fallback
      | Some value \<Rightarrow>
          if length (trim value) = 0 then Inr fallback
          else (case integer_value (to_number value) of
                  None \<Rightarrow> Inl (NotAnInteger name)
                | Some parsed \<Rightarrow>
                    if parsed < minimum \<or> maximum < parsed then Inl (OutOfRange name minimum maximum)
                    else Inr parsed))"

subsection \<open>resolveClearanceConfig\<close>

record clearance_config =
  conf_hosts :: "string list"
  conf_ports :: "int list"
  conf_dns_ttl :: int
  conf_idle_timeout :: int
  conf_listen_host :: string
  conf_max_sockets :: int
  conf_port :: int
  conf_block_private :: bool

definition max_safe_integer :: int where
  "max_safe_integer = 9007199254740991"

definition default_listen_host :: string where "default_listen_host = ''127.0.0.1''"
definition default_port :: int where "default_port = 19999"
definition default_allowed_ports :: "int list" where "default_allowed_ports = [443]"
definition default_dns_ttl :: int where "default_dns_ttl = 60000"
definition default_idle_timeout :: int where "default_idle_timeout = 120000"
definition default_max_sockets :: int where "default_max_sockets = 1024"

definition get_or :: "env \<Rightarrow> string \<Rightarrow> string \<Rightarrow> string" where
  "get_or e name dflt = (case e name of None \<Rightarrow> dflt | Some v \<Rightarrow> v)"

definition resolve_clearance_config ::
  "to_ascii \<Rightarrow> (path \<Rightarrow> string + string) \<Rightarrow> env \<Rightarrow> config_error + clearance_config" where
  "resolve_clearance_config to_ascii read_file e =
     bind_result (case resolve_allowlist to_ascii read_file e of
                    Inl err \<Rightarrow> Inl (AllowlistError err) | Inr hosts \<Rightarrow> Inr hosts) (\<lambda>hosts.
     bind_result (normalize_allowed_ports (map PortText (parse_list (Some
       (get_or e ''CLEARANCE_ALLOW_PORTS'' (join '','' (map show_int default_allowed_ports))))))) (\<lambda>ports.
     bind_result (parse_integer_env e ''CLEARANCE_DNS_TTL_MS'' default_dns_ttl 0 max_safe_integer) (\<lambda>ttl.
     bind_result (parse_integer_env e ''CLEARANCE_IDLE_TIMEOUT_MS'' default_idle_timeout 1
       max_safe_integer) (\<lambda>idle.
     bind_result (parse_integer_env e ''CLEARANCE_MAX_SOCKETS'' default_max_sockets 1
       max_safe_integer) (\<lambda>sockets.
     bind_result (parse_integer_env e ''CLEARANCE_PORT'' default_port 1 65535) (\<lambda>port.
       Inr \<lparr>conf_hosts = hosts, conf_ports = ports, conf_dns_ttl = ttl, conf_idle_timeout = idle,
            conf_listen_host = get_or e ''CLEARANCE_LISTEN_HOST'' default_listen_host,
            conf_max_sockets = sockets, conf_port = port,
            conf_block_private = (e ''CLEARANCE_ALLOW_PRIVATE_IPS'' \<noteq> Some ''1'')\<rparr>))))))"

subsection \<open>parseConnectTarget\<close>

record connect_target =
  target_host :: string
  target_port :: int

text \<open>The pattern \<open>^\[([^\]]+)]:(\d+)$\<close>: the host and the port text.\<close>

definition match_bracketed :: "string \<Rightarrow> (string \<times> string) option" where
  "match_bracketed s =
     (case s of
        [] \<Rightarrow> None
      | c # r \<Rightarrow>
          (let host = takeWhile (\<lambda>x. x \<noteq> CHR '']'') r in
           case dropWhile (\<lambda>x. x \<noteq> CHR '']'') r of
             b # k # port \<Rightarrow>
               if c = CHR ''['' \<and> host \<noteq> [] \<and> k = CHR '':'' \<and> port \<noteq> [] \<and> list_all is_digit port
               then Some (host, port) else None
           | _ \<Rightarrow> None))"

definition last_index :: "char \<Rightarrow> string \<Rightarrow> int" where
  "last_index c s =
     (if c \<in> set s then int (length s) - 1 - int (length (takeWhile (\<lambda>x. x \<noteq> c) (rev s))) else - 1)"

definition parse_connect_target :: "string \<Rightarrow> connect_target option" where
  "parse_connect_target input =
     (case match_bracketed input of
        Some (host, raw) \<Rightarrow>
          map_option (\<lambda>port. \<lparr>target_host = host, target_port = port\<rparr>) (parse_port raw)
      | None \<Rightarrow>
          (let i = last_index CHR '':'' input
           in if i \<le> 0 then None
              else (case parse_port (slice_from (i + 1) input) of
                      None \<Rightarrow> None
                    | Some port \<Rightarrow> Some \<lparr>target_host = take (nat i) input, target_port = port\<rparr>)))"

subsection \<open>stripHopByHopHeaders\<close>

text \<open>A header value is one text or the texts of a repeated header; a key may be present with
  no value.\<close>

datatype header_value = One string | Many "string list" | Undefined

type_synonym headers = "(string, header_value) js_map"

definition hop_by_hop :: "string list" where
  "hop_by_hop = [''connection'', ''keep-alive'', ''proxy-authenticate'', ''proxy-authorization'',
     ''proxy-connection'', ''te'', ''trailer'', ''transfer-encoding'', ''upgrade'']"

definition connection_tokens :: "header_value \<Rightarrow> string list" where
  "connection_tokens v =
     (case v of
        Undefined \<Rightarrow> []
      | One s \<Rightarrow> filter (\<lambda>t. 0 < length t) (map (\<lambda>t. to_lower (trim t)) (split_char CHR '','' s))
      | Many ss \<Rightarrow>
          filter (\<lambda>t. 0 < length t)
            (map (\<lambda>t. to_lower (trim t)) (concat (map (split_char CHR '','') ss))))"

definition strip_hop_by_hop :: "headers \<Rightarrow> headers" where
  "strip_hop_by_hop hs =
     (let tokens = connection_tokens (case map_get hs ''connection'' of None \<Rightarrow> Undefined | Some v \<Rightarrow> v);
          blocked = foldl (\<lambda>acc t. set_add t acc) hop_by_hop tokens
      in filter (\<lambda>(k, v). to_lower k \<notin> set blocked \<and> v \<noteq> Undefined) hs)"

subsection \<open>Private addresses\<close>

definition private_ipv4_ranges :: "(string \<times> nat) list" where
  "private_ipv4_ranges =
     [(''0.0.0.0'', 8), (''10.0.0.0'', 8), (''100.64.0.0'', 10), (''127.0.0.0'', 8),
      (''169.254.0.0'', 16), (''172.16.0.0'', 12), (''192.0.0.0'', 24), (''192.0.2.0'', 24),
      (''192.168.0.0'', 16), (''198.18.0.0'', 15), (''198.51.100.0'', 24), (''203.0.113.0'', 24),
      (''224.0.0.0'', 4), (''240.0.0.0'', 4)]"

definition private_ipv6_ranges :: "(string \<times> nat) list" where
  "private_ipv6_ranges =
     [(''::'', 128), (''::1'', 128), (''::'', 96), (''::ffff:0:0'', 96), (''64:ff9b::'', 96),
      (''64:ff9b:1::'', 48), (''100::'', 64), (''2001::'', 23), (''2001:db8::'', 32),
      (''2002::'', 16), (''fc00::'', 7), (''fe80::'', 10), (''ff00::'', 8)]"

definition private_ipv4 :: "ipv4 \<Rightarrow> bool" where
  "private_ipv4 = block_check (add_subnets parse_ipv4 private_ipv4_ranges)"

definition private_ipv6 :: "ipv6 \<Rightarrow> bool" where
  "private_ipv6 = block_check (add_subnets parse_ipv6 private_ipv6_ranges)"

text \<open>\<open>isPrivateIpAddress\<close>; \<open>None\<close>: the block list throws on a text that is no address.\<close>

definition is_private :: "string \<Rightarrow> ip_family \<Rightarrow> bool option" where
  "is_private ip family =
     (case family of
        IPv4 \<Rightarrow> map_option private_ipv4 (parse_ipv4 ip)
      | IPv6 \<Rightarrow> map_option private_ipv6 (parse_ipv6 ip))"

subsection \<open>The block lists as intervals\<close>

definition ipv4_of :: "nat \<Rightarrow> nat \<Rightarrow> nat \<Rightarrow> nat \<Rightarrow> nat" where
  "ipv4_of a b c d = ((a * 256 + b) * 256 + c) * 256 + d"

text \<open>The address ranges the proxy must not reach: this network, private use, carrier-grade
  NAT, loopback, link local, protocol assignments, documentation, benchmarking, multicast and
  reserved.\<close>

definition special_ipv4 :: "nat \<Rightarrow> bool" where
  "special_ipv4 n \<longleftrightarrow>
     list_ex (\<lambda>(lo, hi). lo \<le> n \<and> n \<le> hi)
       [(ipv4_of 0 0 0 0, ipv4_of 0 255 255 255),
        (ipv4_of 10 0 0 0, ipv4_of 10 255 255 255),
        (ipv4_of 100 64 0 0, ipv4_of 100 127 255 255),
        (ipv4_of 127 0 0 0, ipv4_of 127 255 255 255),
        (ipv4_of 169 254 0 0, ipv4_of 169 254 255 255),
        (ipv4_of 172 16 0 0, ipv4_of 172 31 255 255),
        (ipv4_of 192 0 0 0, ipv4_of 192 0 0 255),
        (ipv4_of 192 0 2 0, ipv4_of 192 0 2 255),
        (ipv4_of 192 168 0 0, ipv4_of 192 168 255 255),
        (ipv4_of 198 18 0 0, ipv4_of 198 19 255 255),
        (ipv4_of 198 51 100 0, ipv4_of 198 51 100 255),
        (ipv4_of 203 0 113 0, ipv4_of 203 0 113 255),
        (ipv4_of 224 0 0 0, ipv4_of 239 255 255 255),
        (ipv4_of 240 0 0 0, ipv4_of 255 255 255 255)]"

lemma ipv4_rules:
  "add_subnets parse_ipv4 private_ipv4_ranges =
     [(0x00000000, 8), (0x0A000000, 8), (0x64400000, 10), (0x7F000000, 8), (0xA9FE0000, 16),
      (0xAC100000, 12), (0xC0000000, 24), (0xC0000200, 24), (0xC0A80000, 16), (0xC6120000, 15),
      (0xC6336400, 24), (0xCB007100, 24), (0xE0000000, 4), (0xF0000000, 4)]"
  by code_simp

lemma private_ipv4_special: "private_ipv4 a \<longleftrightarrow> special_ipv4 (unat a)"
  unfolding private_ipv4_def block_check_def ipv4_rules special_ipv4_def ipv4_of_def
  by (simp add: in_network_range)

text \<open>C21: The IPv4 block list holds exactly the special-purpose ranges, bound for bound.\<close>

theorem private_ipv4_exact:
  "is_private ip IPv4 = map_option (\<lambda>a. special_ipv4 (unat a)) (parse_ipv4 ip)"
  by (simp add: is_private_def private_ipv4_special option.map_comp comp_def cong: map_option_cong)

subsection \<open>IPv4 addresses written as IPv6\<close>

lemma mapped_pieces:
  assumes v: "parse_ipv4_int v = Some x"
  shows "parse_pieces [v] = Some [x div 65536, x mod 65536]"
    "split_char CHR '':'' v = [v]" "v \<noteq> []" "CHR ''%'' \<notin> set v" "CHR '':'' \<notin> set v"
proof -
  have dot: "CHR ''.'' \<in> set v"
  proof (rule ccontr)
    assume "CHR ''.'' \<notin> set v"
    then have "split_char CHR ''.'' v = [v]" by (rule split_char_none)
    with v show False by (auto simp: parse_ipv4_int_def split: list.splits option.splits)
  qed
  have "\<not> is_digit_of 16 CHR ''.''" by code_simp
  with dot have "parse_group v = None"
    by (auto simp: parse_group_def list_all_iff)
  with v show "parse_pieces [v] = Some [x div 65536, x mod 65536]" by simp
  show colon: "CHR '':'' \<notin> set v"
    by (rule parse_ipv4_int_no [OF v]) (simp_all add: is_digit_def code_def)
  then show "split_char CHR '':'' v = [v]" by (rule split_char_none)
  show "v \<noteq> []" using parse_ipv4_int_chars [OF v] by simp
  show "CHR ''%'' \<notin> set v"
    by (rule parse_ipv4_int_no [OF v]) (simp_all add: is_digit_def code_def)
qed

lemma address_part_id: "CHR ''%'' \<notin> set s \<Longrightarrow> address_part s = s"
  by (auto simp: address_part_def takeWhile_eq_all_conv)

lemma ipv6_rules:
  "add_subnets parse_ipv6 private_ipv6_ranges =
     [(0, 128), (1, 128), (0, 96), (0xFFFF00000000, 96),
      (0x64FF9B000000000000000000000000, 96),
      (0x64FF9B000100000000000000000000, 48),
      (0x1000000000000000000000000000000, 64),
      (0x20010000000000000000000000000000, 23),
      (0x20010DB8000000000000000000000000, 32),
      (0x20020000000000000000000000000000, 16),
      (0xFC000000000000000000000000000000, 7),
      (0xFE800000000000000000000000000000, 10),
      (0xFF000000000000000000000000000000, 8)]"
  by code_simp

definition groups_word :: "int list \<Rightarrow> ipv6" where
  "groups_word gs = word_of_int (groups_value gs)"

lemma drop_bit_word_of_int:
  "drop_bit 32 (take_bit 128 a) = drop_bit 32 (take_bit 128 b) \<Longrightarrow>
     drop_bit 32 (word_of_int a :: ipv6) = drop_bit 32 (word_of_int b)"
  by transfer simp

lemma high_groups:
  assumes "0 \<le> x" and "x < 4294967296" and "length gs = 6"
  shows "drop_bit 32 (groups_word (gs @ [x div 65536, x mod 65536])) =
    drop_bit 32 (groups_word (gs @ [0, 0]))"
proof -
  let ?h = "groups_value gs"
  have val: "groups_value (gs @ [x div 65536, x mod 65536]) = ?h * 2 ^ 32 + x"
    by (simp add: groups_value_def)
  have val0: "groups_value (gs @ [0, 0]) = ?h * 2 ^ 32"
    by (simp add: groups_value_def)
  have "drop_bit 32 (?h * 2 ^ 32 + x) = ?h" "drop_bit 32 (?h * 2 ^ 32) = ?h"
    using assms(1,2) by (simp_all add: drop_bit_eq_div)
  then have "drop_bit 32 (take_bit 128 (?h * 2 ^ 32 + x)) = drop_bit 32 (take_bit 128 (?h * 2 ^ 32))"
    by (simp only: drop_bit_take_bit)
  then show ?thesis
    unfolding groups_word_def val val0 by (rule drop_bit_word_of_int)
qed

text \<open>The three ways to write an IPv4 address inside an IPv6 one: compatible, mapped and
  translated.\<close>

lemma parse_embedded:
  assumes v: "parse_ipv4_int v = Some x"
  shows "parse_ipv6 (''::'' @ v) = Some (groups_word ([0, 0, 0, 0, 0, 0] @ [x div 65536, x mod 65536]))"
    and "parse_ipv6 (''::ffff:'' @ v) =
      Some (groups_word ([0, 0, 0, 0, 0, 0xFFFF] @ [x div 65536, x mod 65536]))"
    and "parse_ipv6 (''64:ff9b::'' @ v) =
      Some (groups_word ([0x64, 0xFF9B, 0, 0, 0, 0] @ [x div 65536, x mod 65536]))"
proof -
  note m = mapped_pieces [OF v]
  have pct: "CHR ''%'' \<notin> set (''::'' @ v)" "CHR ''%'' \<notin> set (''::ffff:'' @ v)"
    "CHR ''%'' \<notin> set (''64:ff9b::'' @ v)" using m(4) by auto
  have g: "parse_group ''ffff'' = Some 0xFFFF" "parse_group ''64'' = Some 0x64"
    "parse_group ''ff9b'' = Some 0xFF9B" by code_simp+
  obtain c cs where vc: "v = c # cs" using m(3) by (cases v) auto
  have part: "parse_part v = Some [x div 65536, x mod 65536]"
    using m by (simp add: parse_part_def colon_pieces_def)
  have part2: "parse_part (''ffff:'' @ v) = Some [0xFFFF, x div 65536, x mod 65536]"
    using m(1) g(1) split_char_append [of "CHR '':''" "''ffff''" v] m(2)
    by (simp add: parse_part_def colon_pieces_def)
  have six: "replicate 6 (0::int) = [0, 0, 0, 0, 0, 0]" "replicate 5 (0::int) = [0, 0, 0, 0, 0]"
    "replicate 4 (0::int) = [0, 0, 0, 0]" by (simp_all add: numeral_eq_Suc)
  have hex: "hex_part [] = Some []" "hex_part ''64:ff9b'' = Some [0x64, 0xFF9B]" by code_simp+
  show "parse_ipv6 (''::'' @ v) = Some (groups_word ([0, 0, 0, 0, 0, 0] @ [x div 65536, x mod 65536]))"
    unfolding parse_ipv6_def address_part_id [OF pct(1)]
    by (simp add: parse_groups_def hex part six groups_word_def)
  show "parse_ipv6 (''::ffff:'' @ v) =
      Some (groups_word ([0, 0, 0, 0, 0, 0xFFFF] @ [x div 65536, x mod 65536]))"
    unfolding parse_ipv6_def address_part_id [OF pct(2)]
    using part2 by (simp add: parse_groups_def hex six groups_word_def)
  show "parse_ipv6 (''64:ff9b::'' @ v) =
      Some (groups_word ([0x64, 0xFF9B, 0, 0, 0, 0] @ [x div 65536, x mod 65536]))"
    unfolding parse_ipv6_def address_part_id [OF pct(3)]
    by (simp add: parse_groups_def hex part six groups_word_def)
qed

lemma private_ipv6_high:
  assumes "drop_bit 32 a = drop_bit 32 (net :: ipv6)"
    and "(net, 96) \<in> set (add_subnets parse_ipv6 private_ipv6_ranges)"
  shows "private_ipv6 a"
  unfolding private_ipv6_def block_check_def list_ex_iff
proof (rule bexI [OF _ assms(2)])
  show "case (net, 96) of (net, pfx) \<Rightarrow> in_network a net pfx"
    using assms(1) by (simp add: in_network_def)
qed

text \<open>An IPv4 address cannot slip past the filter by being written as an IPv6 address,
  compatible, mapped or translated: each of these texts is private.\<close>

theorem embedded_ipv4_is_private:
  assumes "parse_ipv4_int v = Some x" and "pre \<in> {''::'', ''::ffff:'', ''64:ff9b::''}"
  shows "is_private (pre @ v) IPv6 = Some True"
proof -
  note x = parse_ipv4_int_range [OF assms(1)]
  note e = parse_embedded [OF assms(1)]
  have nets: "groups_word ([0, 0, 0, 0, 0, 0] @ [0, 0]) = 0"
    "groups_word ([0, 0, 0, 0, 0, 0xFFFF] @ [0, 0]) = 0xFFFF00000000"
    "groups_word ([0x64, 0xFF9B, 0, 0, 0, 0] @ [0, 0]) = 0x64FF9B000000000000000000000000"
    by code_simp+
  have hi: "private_ipv6 (groups_word (gs @ [x div 65536, x mod 65536]))"
    if "length gs = 6" "(groups_word (gs @ [0, 0]), 96) \<in> set (add_subnets parse_ipv6 private_ipv6_ranges)" for gs
    using high_groups [OF conjunct1 [OF x] conjunct2 [OF x] that(1)] that(2) by (rule private_ipv6_high)
  have "private_ipv6 (groups_word ([0, 0, 0, 0, 0, 0] @ [x div 65536, x mod 65536]))"
    by (rule hi) (simp_all only: nets ipv6_rules, simp_all)
  moreover have "private_ipv6 (groups_word ([0, 0, 0, 0, 0, 0xFFFF] @ [x div 65536, x mod 65536]))"
    by (rule hi) (simp_all only: nets ipv6_rules, simp_all)
  moreover have "private_ipv6 (groups_word ([0x64, 0xFF9B, 0, 0, 0, 0] @ [x div 65536, x mod 65536]))"
    by (rule hi) (simp_all only: nets ipv6_rules, simp_all)
  ultimately show ?thesis
    using assms(2) e by (auto simp: is_private_def)
qed

lemma embedded_ipv4_is_private_witness: "is_private (''::ffff:'' @ ''8.8.8.8'') IPv6 = Some True"
proof -
  have "parse_ipv4_int ''8.8.8.8'' = Some 0x08080808" by code_simp
  then show ?thesis by (rule embedded_ipv4_is_private) simp
qed

subsection \<open>The configuration\<close>

lemma parse_integer_env_range:
  assumes "parse_integer_env e name fallback lo hi = Inr v" and "lo \<le> fallback" and "fallback \<le> hi"
  shows "lo \<le> v \<and> v \<le> hi"
  using assms unfolding parse_integer_env_def by (auto split: option.splits if_splits)

lemma valid_port_of_range: "valid_port_of raw = Inr p \<Longrightarrow> 0 < p \<and> p \<le> 65535"
  unfolding valid_port_of_def Let_def
  by (cases raw) (auto simp: is_valid_port_def split: option.splits if_splits)

lemma normalize_allowed_ports_ok:
  assumes "normalize_allowed_ports raw = Inr ports"
  shows "ports \<noteq> [] \<and> distinct ports \<and> set ports \<subseteq> {1..65535}"
proof -
  from assms obtain ps where ps: "traverse valid_port_of raw = Inr ps" "ps \<noteq> []" "ports = set_of_list ps"
    unfolding normalize_allowed_ports_def by (auto simp: bind_result_Inr_iff split: if_splits)
  have "0 < p \<and> p \<le> 65535" if "p \<in> set ps" for p
  proof -
    from traverse_Inr_mem [OF ps(1) that] obtain r where "valid_port_of r = Inr p" by blast
    then show ?thesis by (rule valid_port_of_range)
  qed
  then show ?thesis using ps by (auto simp: int_one_le_iff_zero_less)
qed

lemma resolve_allowlist_ok:
  "resolve_allowlist to_ascii read_file e = Inr hosts \<Longrightarrow> hosts \<noteq> [] \<and> distinct hosts"
  unfolding resolve_allowlist_def Let_def
  by (auto simp: bind_result_Inr_iff split: if_splits)

text \<open>C22: A configuration the environment yields is usable: some host rule, ports that are TCP
  ports without repetition, times and limits within their bounds; and private addresses are
  blocked unless the environment allows them with exactly \<open>"1"\<close>.\<close>

theorem config_within_bounds:
  assumes "resolve_clearance_config to_ascii read_file e = Inr c"
  shows "conf_hosts c \<noteq> [] \<and> distinct (conf_hosts c) \<and>
    conf_ports c \<noteq> [] \<and> distinct (conf_ports c) \<and> set (conf_ports c) \<subseteq> {1..65535} \<and>
    0 \<le> conf_dns_ttl c \<and> 1 \<le> conf_idle_timeout c \<and> 1 \<le> conf_max_sockets c \<and>
    conf_dns_ttl c \<le> max_safe_integer \<and> conf_idle_timeout c \<le> max_safe_integer \<and>
    conf_max_sockets c \<le> max_safe_integer \<and>
    1 \<le> conf_port c \<and> conf_port c \<le> 65535 \<and>
    conf_block_private c = (e ''CLEARANCE_ALLOW_PRIVATE_IPS'' \<noteq> Some ''1'')"
proof -
  obtain raw where hosts: "resolve_allowlist to_ascii read_file e = Inr (conf_hosts c)"
    and ports: "normalize_allowed_ports raw = Inr (conf_ports c)"
    and ttl: "parse_integer_env e ''CLEARANCE_DNS_TTL_MS'' default_dns_ttl 0 max_safe_integer = Inr (conf_dns_ttl c)"
    and idle: "parse_integer_env e ''CLEARANCE_IDLE_TIMEOUT_MS'' default_idle_timeout 1 max_safe_integer =
      Inr (conf_idle_timeout c)"
    and sockets: "parse_integer_env e ''CLEARANCE_MAX_SOCKETS'' default_max_sockets 1 max_safe_integer =
      Inr (conf_max_sockets c)"
    and port: "parse_integer_env e ''CLEARANCE_PORT'' default_port 1 65535 = Inr (conf_port c)"
    and block: "conf_block_private c = (e ''CLEARANCE_ALLOW_PRIVATE_IPS'' \<noteq> Some ''1'')"
    using assms unfolding resolve_clearance_config_def
    by (auto simp: bind_result_Inr_iff split: sum.splits)
  note range = parse_integer_env_range [OF ttl] parse_integer_env_range [OF idle]
    parse_integer_env_range [OF sockets] parse_integer_env_range [OF port]
  show ?thesis
    using resolve_allowlist_ok [OF hosts] normalize_allowed_ports_ok [OF ports] range block
    by (simp add: default_dns_ttl_def default_idle_timeout_def default_max_sockets_def
        default_port_def max_safe_integer_def)
qed

definition example_env :: env where
  "example_env = [''CLEARANCE_ALLOW_HOSTS'' \<mapsto> ''API.example.com, *.example.org'',
     ''CLEARANCE_ALLOW_PORTS'' \<mapsto> ''443 0x1bb 8443'', ''CLEARANCE_DNS_TTL_MS'' \<mapsto> '' 5e3 '']"

definition example_config :: clearance_config where
  "example_config =
     \<lparr>conf_hosts = [''api.example.com'', ''*.example.org''], conf_ports = [443, 8443],
      conf_dns_ttl = 5000, conf_idle_timeout = 120000, conf_listen_host = ''127.0.0.1'',
      conf_max_sockets = 1024, conf_port = 19999, conf_block_private = True\<rparr>"

lemma config_within_bounds_witness:
  "resolve_clearance_config (\<lambda>s. s) (\<lambda>p. Inl ''no file'') example_env = Inr example_config \<and>
   set (conf_ports example_config) \<subseteq> {1..65535}"
proof -
  have run: "resolve_clearance_config (\<lambda>s. s) (\<lambda>p. Inl ''no file'') example_env = Inr example_config"
    by code_simp
  from config_within_bounds [OF run] run show ?thesis by blast
qed

subsection \<open>CONNECT targets\<close>

lemma parse_port_show:
  assumes "1 \<le> p" and "p \<le> 65535"
  shows "parse_port (show_nat p) = Some p"
proof -
  have "integer_value (to_number (show_nat p)) = Some p"
    using assms by (intro to_number_show_nat) simp_all
  moreover have "trim (show_nat p) = show_nat p"
    using assms by (intro trim_digits show_nat_digits) simp
  ultimately show ?thesis
    using assms show_nat_ne by (simp add: parse_port_def is_valid_port_def)
qed

lemma last_index_append:
  "c \<notin> set t \<Longrightarrow> last_index c (s @ c # t) = int (length s)"
proof -
  assume "c \<notin> set t"
  then have "takeWhile (\<lambda>x. x \<noteq> c) (rev t @ c # rev s) = rev t"
    by (subst takeWhile_append2) auto
  then show ?thesis by (simp add: last_index_def)
qed

lemma match_bracketed_close:
  assumes "CHR '']'' \<notin> set h" and "h \<noteq> []" and "list_all is_digit t" and "t \<noteq> []"
  shows "match_bracketed (''['' @ h @ '']:'' @ t) = Some (h, t)"
proof -
  have "takeWhile (\<lambda>x. x \<noteq> CHR '']'') (h @ '']:'' @ t) = h"
    "dropWhile (\<lambda>x. x \<noteq> CHR '']'') (h @ '']:'' @ t) = '']:'' @ t"
    using assms(1) by (subst takeWhile_append2 dropWhile_append2; auto)+
  then show ?thesis using assms by (simp add: match_bracketed_def)
qed

text \<open>C23: The target a client prints is the target the proxy reads: \<open>host:port\<close> for every host
  that does not open a bracket, \<open>[host]:port\<close> for every host without a closing one.\<close>

theorem connect_target_round_trip:
  assumes "1 \<le> port" and "port \<le> 65535" and "host \<noteq> []"
  shows "(hd host \<noteq> CHR ''['' \<longrightarrow>
      parse_connect_target (host @ '':'' @ show_nat port) = Some \<lparr>target_host = host, target_port = port\<rparr>) \<and>
    (CHR '']'' \<notin> set host \<longrightarrow>
      parse_connect_target (''['' @ host @ '']:'' @ show_nat port) =
        Some \<lparr>target_host = host, target_port = port\<rparr>)"
proof -
  note digits = show_nat_digits [of port] show_nat_ne [of port]
  have "parse_connect_target (''['' @ host @ '']:'' @ show_nat port) =
      Some \<lparr>target_host = host, target_port = port\<rparr>" if "CHR '']'' \<notin> set host"
    using match_bracketed_close [OF that assms(3)] digits assms parse_port_show
    by (simp add: parse_connect_target_def)
  moreover have "parse_connect_target (host @ '':'' @ show_nat port) =
      Some \<lparr>target_host = host, target_port = port\<rparr>" if h: "hd host \<noteq> CHR ''[''"
  proof -
  obtain c cs where host: "host = c # cs" using assms(3) by (cases host) auto
  have "CHR '':'' \<notin> set (show_nat port)"
    using digits(1) assms(1) by (auto simp: list_all_iff is_digit_def code_def)
  then have idx: "last_index CHR '':'' (host @ '':'' @ show_nat port) = int (length host)"
    using last_index_append by simp
  have "match_bracketed (host @ '':'' @ show_nat port) = None"
    using h host by (auto simp: match_bracketed_def Let_def split: list.split)
  moreover have "slice_from (int (length host) + 1) (host @ '':'' @ show_nat port) = show_nat port"
    by (simp add: slice_from_def nat_add_distrib)
  moreover have "0 < length host" using assms(3) by simp
  ultimately show ?thesis
    unfolding parse_connect_target_def Let_def idx
    using parse_port_show [OF assms(1,2)] by simp
  qed
  ultimately show ?thesis by blast
qed

lemma connect_target_round_trip_witness:
  "parse_connect_target (''2001:db8::1'' @ '':'' @ show_nat 443) = Some \<lparr>target_host = ''2001:db8::1'', target_port = 443\<rparr> \<and>
   parse_connect_target (''['' @ ''2001:db8::1'' @ '']:'' @ show_nat 443) =
     Some \<lparr>target_host = ''2001:db8::1'', target_port = 443\<rparr>"
  using connect_target_round_trip [of 443 "''2001:db8::1''"] by simp

subsection \<open>Headers\<close>

text \<open>What must not be forwarded, from the standard: the hop-by-hop headers by name, and every
  header that an element of the comma-separated \<open>Connection\<close> header names, in any case of
  letters and with space around it.\<close>

definition connection_texts :: "headers \<Rightarrow> string list" where
  "connection_texts hs =
     (case map_of hs ''connection'' of Some (One s) \<Rightarrow> [s] | Some (Many ss) \<Rightarrow> ss | _ \<Rightarrow> [])"

definition hop_name :: "headers \<Rightarrow> string \<Rightarrow> bool" where
  "hop_name hs k \<longleftrightarrow>
     to_lower k \<in> {''connection'', ''keep-alive'', ''proxy-authenticate'', ''proxy-authorization'',
       ''proxy-connection'', ''te'', ''trailer'', ''transfer-encoding'', ''upgrade''} \<or>
     (\<exists>s \<in> set (connection_texts hs). \<exists>e. part_of CHR '','' s e \<and> trim e \<noteq> [] \<and>
        to_lower (trim e) = to_lower k)"

lemma set_connection_tokens:
  "set (connection_tokens (case map_get hs ''connection'' of None \<Rightarrow> Undefined | Some v \<Rightarrow> v)) =
     {to_lower (trim e) | s e. s \<in> set (connection_texts hs) \<and> part_of CHR '','' s e \<and> trim e \<noteq> []}"
proof -
  have "set (filter (\<lambda>t. 0 < length t) (map (\<lambda>t. to_lower (trim t)) (concat (map (split_char CHR '','') ss)))) =
      {to_lower (trim e) | s e. s \<in> set ss \<and> part_of CHR '','' s e \<and> trim e \<noteq> []}" for ss
    by (auto simp flip: set_split_char) blast
  moreover have "connection_tokens (case map_get hs ''connection'' of None \<Rightarrow> Undefined | Some v \<Rightarrow> v) =
      filter (\<lambda>t. 0 < length t)
        (map (\<lambda>t. to_lower (trim t)) (concat (map (split_char CHR '','') (connection_texts hs))))"
    by (simp add: connection_tokens_def connection_texts_def split: option.split header_value.split)
  ultimately show ?thesis by simp
qed

lemma strip_hop_by_hop_filter:
  "strip_hop_by_hop hs = filter (\<lambda>(k, v). \<not> hop_name hs k \<and> v \<noteq> Undefined) hs"
proof -
  have "to_lower k \<in> set hop_by_hop \<union>
      set (connection_tokens (case map_get hs ''connection'' of None \<Rightarrow> Undefined | Some v \<Rightarrow> v)) \<longleftrightarrow>
      hop_name hs k" for k
    unfolding set_connection_tokens hop_by_hop_def hop_name_def list.set
      Un_iff mem_Collect_eq by (rule disj_cong [OF refl]) (metis (no_types, lifting))
  then show ?thesis
    unfolding strip_hop_by_hop_def Let_def set_foldl_set_add
    by (intro filter_cong refl) (simp add: case_prod_unfold)
qed

lemma connection_stripped: "connection_texts (strip_hop_by_hop hs) = []"
proof -
  have "hop_name hs ''connection''" unfolding hop_name_def by (intro disjI1) code_simp
  then have "map_of (strip_hop_by_hop hs) ''connection'' = None"
    unfolding map_of_eq_None_iff strip_hop_by_hop_filter by auto
  then show ?thesis by (simp add: connection_texts_def)
qed

text \<open>C24: What the proxy forwards of a message's headers is exactly those, in order, that have
  a value and are not hop-by-hop: a name is dropped when, letter case aside, it is one of the nine
  hop-by-hop names or is named by an element of the \<open>Connection\<close> header. Stripping twice is
  stripping once.\<close>

theorem strip_hop_by_hop_exact:
  "subseq (strip_hop_by_hop hs) hs \<and>
   set (strip_hop_by_hop hs) = {(k, v) \<in> set hs. v \<noteq> Undefined \<and> \<not> hop_name hs k} \<and>
   strip_hop_by_hop (strip_hop_by_hop hs) = strip_hop_by_hop hs"
proof (intro conjI)
  show "subseq (strip_hop_by_hop hs) hs"
    unfolding strip_hop_by_hop_filter by (rule subseq_filter_left)
  show set_exact: "set (strip_hop_by_hop hs) = {(k, v) \<in> set hs. v \<noteq> Undefined \<and> \<not> hop_name hs k}"
    unfolding strip_hop_by_hop_filter set_filter by blast
  have "hop_name (strip_hop_by_hop hs) k \<Longrightarrow> hop_name hs k" for k
    unfolding hop_name_def connection_stripped by simp
  then show "strip_hop_by_hop (strip_hop_by_hop hs) = strip_hop_by_hop hs"
    unfolding strip_hop_by_hop_filter [of "strip_hop_by_hop hs"] filter_id_conv set_exact by blast
qed

end
