(* ===== verification/ClearanceProxy.thy ===== *)
theory ClearanceProxy
  imports ClearancePolicy
begin

section \<open>clearance: the proxy\<close>

text \<open>
  Models the stateful part of \<open>packages/clearance/src/index.ts\<close>. A request runs until it awaits
  the DNS lookup; other requests may run before the lookup answers, so \<open>authorize\<close> is split at
  that point into \<open>authorize_start\<close> and \<open>authorize_finish\<close>, and \<open>proxy_step\<close> interleaves them.
  The DNS lookup, the URL parser and the sockets are outside: a lookup answers with records or
  with the message of its error, \<open>parse_url\<close> is a parameter, and what the handlers do to the
  sockets is the list of actions they return.
\<close>

subsection \<open>State\<close>

record lookup_record =
  lookup_address :: string
  lookup_family :: int

record resolved =
  res_address :: string
  res_family :: ip_family

record cache_entry =
  entry_records :: "resolved list"
  entry_until :: int

record proxy_state =
  ps_hosts :: "string list"
  ps_ports :: "int list"
  ps_cache :: "(string, cache_entry) js_map"
  ps_dns_ttl :: int
  ps_block_private :: bool
  ps_idle_timeout :: int
  ps_max_sockets :: int

record server_options =
  opt_hosts :: "string list"
  opt_ports :: "js_number list option"
  opt_dns_ttl :: "int option"
  opt_idle_timeout :: "int option"
  opt_max_sockets :: "int option"
  opt_block_private :: "bool option"

definition or_default :: "'a option \<Rightarrow> 'a \<Rightarrow> 'a" where
  "or_default x d = (case x of None \<Rightarrow> d | Some v \<Rightarrow> v)"

definition create_proxy_state :: "to_ascii \<Rightarrow> server_options \<Rightarrow> config_error + proxy_state" where
  "create_proxy_state to_ascii opts =
     (let hosts = normalize_rules to_ascii (opt_hosts opts)
      in if length hosts = 0 then Inl NoValidRule
         else bind_result (normalize_allowed_ports
                (case opt_ports opts of
                   None \<Rightarrow> map (\<lambda>p. PortNumber (Finite p 0)) default_allowed_ports
                 | Some ps \<Rightarrow> map PortNumber ps)) (\<lambda>ports.
           Inr \<lparr>ps_hosts = hosts, ps_ports = set_of_list ports, ps_cache = [],
                ps_dns_ttl = or_default (opt_dns_ttl opts) default_dns_ttl,
                ps_block_private = or_default (opt_block_private opts) True,
                ps_idle_timeout = or_default (opt_idle_timeout opts) default_idle_timeout,
                ps_max_sockets = or_default (opt_max_sockets opts) default_max_sockets\<rparr>))"

subsection \<open>createClearanceServer and startClearanceFromEnv\<close>

text \<open>What the server sets up beside its handlers, and the run from the environment: \<open>listen\<close> is
  the outcome of binding the socket, an error message or nothing. The result is the server and the
  lines logged.\<close>

record clearance_server =
  srv_state :: proxy_state
  srv_headers_timeout :: int
  srv_keep_alive_timeout :: int
  srv_max_connections :: int

definition create_clearance_server :: "to_ascii \<Rightarrow> server_options \<Rightarrow> config_error + clearance_server" where
  "create_clearance_server to_ascii opts =
     bind_result (create_proxy_state to_ascii opts) (\<lambda>st.
       Inr \<lparr>srv_state = st, srv_headers_timeout = 15000, srv_keep_alive_timeout = 5000,
            srv_max_connections = ps_max_sockets st\<rparr>)"

definition options_of_config :: "clearance_config \<Rightarrow> server_options" where
  "options_of_config c =
     \<lparr>opt_hosts = conf_hosts c, opt_ports = Some (map (\<lambda>p. Finite p 0) (conf_ports c)),
      opt_dns_ttl = Some (conf_dns_ttl c), opt_idle_timeout = Some (conf_idle_timeout c),
      opt_max_sockets = Some (conf_max_sockets c), opt_block_private = Some (conf_block_private c)\<rparr>"

datatype start_error = BadConfig config_error | ListenFailed string

definition start_clearance_from_env ::
  "to_ascii \<Rightarrow> (path \<Rightarrow> string + string) \<Rightarrow> (string \<Rightarrow> int \<Rightarrow> string option) \<Rightarrow> env \<Rightarrow>
   start_error + clearance_server \<times> string list" where
  "start_clearance_from_env to_ascii read_file listen e =
     (case resolve_clearance_config to_ascii read_file e of
        Inl err \<Rightarrow> Inl (BadConfig err)
      | Inr c \<Rightarrow>
          (case create_clearance_server to_ascii (options_of_config c) of
             Inl err \<Rightarrow> Inl (BadConfig err)
           | Inr server \<Rightarrow>
               (case listen (conf_listen_host c) (conf_port c) of
                  Some msg \<Rightarrow> Inl (ListenFailed msg)
                | None \<Rightarrow> Inr (server,
                    [''clearance listening on http://'' @ conf_listen_host c @ '':'' @ show_int (conf_port c),
                     ''allowed hosts: '' @ join '', '' (conf_hosts c),
                     ''allowed ports: '' @ join '','' (map show_int (conf_ports c))]))))"

subsection \<open>resolveHost\<close>

datatype deny =
    InvalidHost
  | PortNotAllowed int
  | HostNotAllowed string
  | PrivateIpBlocked string
  | NoPublicAddress string
  | LookupFailed string
  | InvalidAddress string

datatype 'r settled = Settled "deny + 'r" | AwaitLookup string int

definition resolve_start :: "proxy_state \<Rightarrow> int \<Rightarrow> string \<Rightarrow> proxy_state \<times> resolved settled" where
  "resolve_start st now hostname =
     (case is_ip hostname of
        Some family \<Rightarrow>
          (case (if ps_block_private st then is_private hostname family else Some False) of
             None \<Rightarrow> (st, Settled (Inl (InvalidAddress hostname)))
           | Some True \<Rightarrow> (st, Settled (Inl (PrivateIpBlocked hostname)))
           | Some False \<Rightarrow> (st, Settled (Inr \<lparr>res_address = hostname, res_family = family\<rparr>)))
      | None \<Rightarrow>
          (case map_get (ps_cache st) hostname of
             None \<Rightarrow> (st, AwaitLookup hostname now)
           | Some entry \<Rightarrow>
               if now < entry_until entry
               then (case entry_records entry of
                       r # _ \<Rightarrow> (st, Settled (Inr r))
                     | [] \<Rightarrow> (st, AwaitLookup hostname now))
               else (st\<lparr>ps_cache := map_delete hostname (ps_cache st)\<rparr>, AwaitLookup hostname now)))"

definition family_of :: "int \<Rightarrow> ip_family option" where
  "family_of n = (if n = 4 then Some IPv4 else if n = 6 then Some IPv6 else None)"

definition with_family :: "lookup_record list \<Rightarrow> resolved list" where
  "with_family rs =
     List.map_filter (\<lambda>r. map_option (\<lambda>f. \<lparr>res_address = lookup_address r, res_family = f\<rparr>)
       (family_of (lookup_family r))) rs"

fun keep_public :: "bool \<Rightarrow> resolved list \<Rightarrow> deny + resolved list" where
  "keep_public block [] = Inr []"
| "keep_public block (r # rs) =
     (case (if block then is_private (res_address r) (res_family r) else Some False) of
        None \<Rightarrow> Inl (InvalidAddress (res_address r))
      | Some private \<Rightarrow>
          bind_result (keep_public block rs) (\<lambda>kept. Inr (if private then kept else r # kept)))"

definition family_rank :: "ip_family \<Rightarrow> nat" where
  "family_rank f = (case f of IPv4 \<Rightarrow> 4 | IPv6 \<Rightarrow> 6)"

definition resolve_finish ::
  "proxy_state \<Rightarrow> string \<Rightarrow> int \<Rightarrow> string + lookup_record list \<Rightarrow> proxy_state \<times> (deny + resolved)" where
  "resolve_finish st hostname now answer =
     (case answer of
        Inl msg \<Rightarrow> (st, Inl (LookupFailed msg))
      | Inr found \<Rightarrow>
          (case keep_public (ps_block_private st) (with_family found) of
             Inl e \<Rightarrow> (st, Inl e)
           | Inr kept \<Rightarrow>
               (let records = sort_key (\<lambda>r. family_rank (res_family r)) kept in
                case records of
                  [] \<Rightarrow> (st, Inl (NoPublicAddress hostname))
                | r # _ \<Rightarrow>
                    (if 0 < ps_dns_ttl st
                     then st\<lparr>ps_cache := map_set hostname
                            \<lparr>entry_records = records, entry_until = now + ps_dns_ttl st\<rparr> (ps_cache st)\<rparr>
                     else st,
                     Inr r))))"

subsection \<open>authorize\<close>

record target =
  tgt_address :: string
  tgt_family :: ip_family
  tgt_hostname :: string
  tgt_port :: int

definition target_of :: "string \<Rightarrow> int \<Rightarrow> resolved \<Rightarrow> target" where
  "target_of hostname port r =
     \<lparr>tgt_address = res_address r, tgt_family = res_family r, tgt_hostname = hostname, tgt_port = port\<rparr>"

fun settled_map :: "('a \<Rightarrow> 'b) \<Rightarrow> 'a settled \<Rightarrow> 'b settled" where
  "settled_map f (Settled r) = Settled (bind_result r (\<lambda>x. Inr (f x)))"
| "settled_map f (AwaitLookup h t) = AwaitLookup h t"

definition authorize_start ::
  "to_ascii \<Rightarrow> proxy_state \<Rightarrow> int \<Rightarrow> string \<Rightarrow> int \<Rightarrow> proxy_state \<times> target settled" where
  "authorize_start to_ascii st now host port =
     (case normalize_host to_ascii host of
        None \<Rightarrow> (st, Settled (Inl InvalidHost))
      | Some hostname \<Rightarrow>
          if port \<notin> set (ps_ports st) then (st, Settled (Inl (PortNotAllowed port)))
          else if \<not> host_allowed hostname (ps_hosts st)
          then (st, Settled (Inl (HostNotAllowed hostname)))
          else (case resolve_start st now hostname of
                  (st', out) \<Rightarrow> (st', settled_map (target_of hostname port) out)))"

definition authorize_finish ::
  "proxy_state \<Rightarrow> string \<Rightarrow> int \<Rightarrow> int \<Rightarrow> string + lookup_record list \<Rightarrow>
   proxy_state \<times> (deny + target)" where
  "authorize_finish st hostname port now answer =
     (case resolve_finish st hostname now answer of
        (st', r) \<Rightarrow> (st', bind_result r (\<lambda>x. Inr (target_of hostname port x))))"

subsection \<open>Replies and the log\<close>

definition deny_reason :: "deny \<Rightarrow> string" where
  "deny_reason d =
     (case d of
        InvalidHost \<Rightarrow> ''empty or invalid host''
      | PortNotAllowed p \<Rightarrow> ''port not allowed: '' @ show_int p
      | HostNotAllowed h \<Rightarrow> ''host not allowed: '' @ h
      | PrivateIpBlocked ip \<Rightarrow> ''private IP blocked: '' @ ip
      | NoPublicAddress h \<Rightarrow> ''no public address for '' @ h
      | LookupFailed msg \<Rightarrow> msg
      | InvalidAddress a \<Rightarrow> ''Invalid address'')"

definition log_decision ::
  "string \<Rightarrow> string \<Rightarrow> string \<Rightarrow> int \<Rightarrow> string option \<Rightarrow> string option \<Rightarrow> string" where
  "log_decision decision method hostname port address reason =
     join '' '' ([decision, ''method='' @ method, ''host='' @ hostname, ''port='' @ show_int port] @
       (case address of None \<Rightarrow> [] | Some a \<Rightarrow> [''address='' @ a]) @
       (case reason of None \<Rightarrow> [] | Some r \<Rightarrow> [''reason='' @ r]))"

definition byte_length :: "string \<Rightarrow> nat" where
  "byte_length s = sum_list (map (\<lambda>c. if code c < 128 then 1 else 2) s)"

definition reply_text :: "int \<Rightarrow> string \<Rightarrow> string \<Rightarrow> string" where
  "reply_text status reason body =
     ''HTTP/1.1 '' @ show_int status @ '' '' @ reason @ [CR, LF] @
     ''content-type: text/plain; charset=utf-8'' @ [CR, LF] @
     ''content-length: '' @ show_int (int (byte_length body)) @ [CR, LF] @
     ''connection: close'' @ [CR, LF, CR, LF] @ body"

record http_reply =
  reply_status :: int
  reply_headers :: headers
  reply_body :: string

definition http_reply_of :: "int \<Rightarrow> string \<Rightarrow> http_reply" where
  "http_reply_of status body =
     \<lparr>reply_status = status,
      reply_headers = [(''connection'', One ''close''),
        (''content-length'', One (show_int (int (byte_length body)))),
        (''content-type'', One ''text/plain; charset=utf-8'')],
      reply_body = body\<rparr>"

subsection \<open>CONNECT\<close>

datatype connect_action =
    LogLine string
  | EndClient string
  | WriteClient string
  | WriteUpstream string
  | OpenUpstream target
  | PipeBoth
  | DestroyClient
  | DestroyUpstream

text \<open>\<open>socketReply\<close>: nothing is sent to a socket that has been destroyed.\<close>

definition socket_reply :: "bool \<Rightarrow> int \<Rightarrow> string \<Rightarrow> string \<Rightarrow> connect_action list" where
  "socket_reply destroyed status reason body =
     (if destroyed then [] else [EndClient (reply_text status reason body)])"

definition connect_refused :: "bool \<Rightarrow> connect_target \<Rightarrow> deny \<Rightarrow> connect_action list" where
  "connect_refused destroyed parsed d =
     LogLine (log_decision ''DENY'' ''CONNECT'' (target_host parsed) (target_port parsed) None
       (Some (deny_reason d))) #
     socket_reply destroyed 403 ''Forbidden'' (deny_reason d @ [LF])"

definition connect_decided :: "bool \<Rightarrow> connect_target \<Rightarrow> deny + target \<Rightarrow> connect_action list" where
  "connect_decided destroyed parsed r =
     (case r of Inl d \<Rightarrow> connect_refused destroyed parsed d | Inr t \<Rightarrow> [OpenUpstream t])"

datatype 'k begun = Done "connect_action list" | Pending string int 'k

text \<open>\<open>destroyed\<close>: whether the client socket is destroyed at the step; the idle timeout may
  destroy it while \<open>authorize\<close> waits for an answer.\<close>

definition handle_connect ::
  "to_ascii \<Rightarrow> bool \<Rightarrow> proxy_state \<Rightarrow> int \<Rightarrow> string \<Rightarrow> proxy_state \<times> connect_target begun" where
  "handle_connect to_ascii destroyed st now url =
     (case parse_connect_target url of
        None \<Rightarrow> (st, Done (socket_reply destroyed 400 ''Bad Request'' (''Bad CONNECT target'' @ [LF])))
      | Some parsed \<Rightarrow>
          (case authorize_start to_ascii st now (target_host parsed) (target_port parsed) of
             (st', Settled r) \<Rightarrow> (st', Done (connect_decided destroyed parsed r))
           | (st', AwaitLookup h t) \<Rightarrow> (st', Pending h t parsed)))"

text \<open>The tunnel, once its upstream socket has been opened: the flags say which one-time
  listeners are still registered and whether the client socket has been destroyed, by its idle
  timeout, by its peer or by the tunnel.\<close>

record tunnel =
  tun_target :: target
  tun_head :: string
  tun_established :: bool
  tun_on_connect :: bool
  tun_on_error :: bool
  tun_on_close :: bool
  tun_client_destroyed :: bool

definition open_tunnel :: "target \<Rightarrow> string \<Rightarrow> bool \<Rightarrow> tunnel" where
  "open_tunnel t head destroyed =
     \<lparr>tun_target = t, tun_head = head, tun_established = False, tun_on_connect = True,
      tun_on_error = True, tun_on_close = True, tun_client_destroyed = destroyed\<rparr>"

datatype tunnel_event = UpstreamConnected | UpstreamFailed string | ClientClosed
  | ClientIdle | UpstreamIdle

definition tunnel_step :: "tunnel \<Rightarrow> tunnel_event \<Rightarrow> tunnel \<times> connect_action list" where
  "tunnel_step tun ev =
     (case ev of
        UpstreamConnected \<Rightarrow>
          if \<not> tun_on_connect tun then (tun, [])
          else (tun\<lparr>tun_established := True, tun_on_connect := False\<rparr>,
                [LogLine (log_decision ''ALLOW'' ''CONNECT'' (tgt_hostname (tun_target tun))
                   (tgt_port (tun_target tun)) (Some (tgt_address (tun_target tun))) None),
                 WriteClient (''HTTP/1.1 200 Connection Established'' @ [CR, LF, CR, LF])] @
                (if 0 < length (tun_head tun) then [WriteUpstream (tun_head tun)] else []) @
                [PipeBoth])
      | UpstreamFailed msg \<Rightarrow>
          if \<not> tun_on_error tun then (tun, [])
          else if \<not> tun_established tun
          then (tun\<lparr>tun_on_error := False\<rparr>,
                socket_reply (tun_client_destroyed tun) 502 ''Bad Gateway'' (msg @ [LF]))
          else (tun\<lparr>tun_on_error := False, tun_client_destroyed := True\<rparr>, [DestroyClient])
      | ClientClosed \<Rightarrow>
          if \<not> tun_on_close tun then (tun, [])
          else (tun\<lparr>tun_on_close := False, tun_client_destroyed := True\<rparr>, [DestroyUpstream])
      | ClientIdle \<Rightarrow> (tun\<lparr>tun_client_destroyed := True\<rparr>, [DestroyClient])
      | UpstreamIdle \<Rightarrow> (tun, [DestroyUpstream]))"

fun tunnel_run :: "tunnel \<Rightarrow> tunnel_event list \<Rightarrow> connect_action list" where
  "tunnel_run tun [] = []"
| "tunnel_run tun (ev # evs) = snd (tunnel_step tun ev) @ tunnel_run (fst (tunnel_step tun ev)) evs"

subsection \<open>Plain HTTP\<close>

record url =
  url_protocol :: string
  url_hostname :: string
  url_port :: string
  url_host :: string
  url_pathname :: string
  url_search :: string

record http_request =
  req_method :: string
  req_url :: string
  req_headers :: headers

record upstream_request =
  up_address :: string
  up_family :: ip_family
  up_port :: int
  up_method :: string
  up_path :: string
  up_headers :: headers

datatype http_action = HttpLog string | HttpReply http_reply | Forward target upstream_request

definition url_port_of :: "url \<Rightarrow> int" where
  "url_port_of u =
     (if 0 < length (url_port u)
      then (case integer_value (to_number (url_port u)) of Some p \<Rightarrow> p | None \<Rightarrow> 0) else 80)"

definition forward :: "http_request \<Rightarrow> url \<Rightarrow> target \<Rightarrow> upstream_request" where
  "forward req u t =
     \<lparr>up_address = tgt_address t, up_family = tgt_family t, up_port = tgt_port t,
      up_method = req_method req, up_path = url_pathname u @ url_search u,
      up_headers = map_set ''host'' (One (url_host u)) (strip_hop_by_hop (req_headers req))\<rparr>"

definition http_decided :: "http_request \<Rightarrow> url \<Rightarrow> deny + target \<Rightarrow> http_action list" where
  "http_decided req u r =
     (case r of
        Inl d \<Rightarrow>
          [HttpLog (log_decision ''DENY'' (req_method req) (url_hostname u) (url_port_of u) None
             (Some (deny_reason d))),
           HttpReply (http_reply_of 403 (deny_reason d @ [LF]))]
      | Inr t \<Rightarrow> [Forward t (forward req u t)])"

datatype http_begun = HttpDone "http_action list" | HttpPending string int url

definition handle_http ::
  "to_ascii \<Rightarrow> (string \<Rightarrow> url option) \<Rightarrow> proxy_state \<Rightarrow> int \<Rightarrow> http_request \<Rightarrow>
   proxy_state \<times> http_begun" where
  "handle_http to_ascii parse_url st now req =
     (case parse_url (req_url req) of
        None \<Rightarrow>
          (st, HttpDone [HttpReply (http_reply_of 400
             (''HTTP proxy requests must use absolute URLs'' @ [LF]))])
      | Some u \<Rightarrow>
          if url_protocol u \<noteq> ''http:''
          then (st, HttpDone [HttpReply (http_reply_of 400 (''Use CONNECT for HTTPS'' @ [LF]))])
          else (case authorize_start to_ascii st now (url_hostname u) (url_port_of u) of
                  (st', Settled r) \<Rightarrow> (st', HttpDone (http_decided req u r))
                | (st', AwaitLookup h t) \<Rightarrow> (st', HttpPending h t u)))"

text \<open>The answer of the upstream server is passed on without its hop-by-hop headers.\<close>

definition upstream_response ::
  "http_request \<Rightarrow> target \<Rightarrow> int option \<Rightarrow> headers \<Rightarrow> string \<times> int \<times> headers" where
  "upstream_response req t status hs =
     (log_decision ''ALLOW'' (req_method req) (tgt_hostname t) (tgt_port t) (Some (tgt_address t)) None,
      or_default status 502, strip_hop_by_hop hs)"

text \<open>A forwarded request, until its sockets are closed. \<open>exc_sent\<close> is \<open>res.headersSent\<close>,
  \<open>exc_ended\<close> is \<open>res.writableEnded\<close>; a request emits its response once, and a timeout or a
  client that goes away destroys the upstream request.\<close>

record exchange =
  exc_request :: http_request
  exc_target :: target
  exc_sent :: bool
  exc_ended :: bool

datatype exchange_event =
    UpstreamResponded "int option" headers
  | UpstreamErrored string
  | UpstreamEnded
  | UpstreamTimedOut
  | ClientTimedOut
  | ClientAborted
  | ResponseClosed

datatype exchange_action =
    ExchangeLog string
  | WriteHead int headers
  | PipeResponse
  | ReplyError http_reply
  | DestroyResponse
  | DestroyRequest string

definition exchange_step :: "exchange \<Rightarrow> exchange_event \<Rightarrow> exchange \<times> exchange_action list" where
  "exchange_step ex ev =
     (case ev of
        UpstreamResponded status hs \<Rightarrow>
          (case upstream_response (exc_request ex) (exc_target ex) status hs of
             (line, st, kept) \<Rightarrow> (ex\<lparr>exc_sent := True\<rparr>, [ExchangeLog line, WriteHead st kept, PipeResponse]))
      | UpstreamErrored msg \<Rightarrow>
          if exc_sent ex then (ex, [DestroyResponse])
          else (ex\<lparr>exc_sent := True, exc_ended := True\<rparr>, [ReplyError (http_reply_of 502 (msg @ [LF]))])
      | UpstreamEnded \<Rightarrow> (ex\<lparr>exc_ended := True\<rparr>, [])
      | UpstreamTimedOut \<Rightarrow> (ex, [DestroyRequest ''upstream timeout''])
      | ClientTimedOut \<Rightarrow> (ex, [DestroyRequest ''client idle timeout''])
      | ClientAborted \<Rightarrow> (ex, [DestroyRequest ''client aborted''])
      | ResponseClosed \<Rightarrow> (ex, if \<not> exc_ended ex then [DestroyRequest ''client disconnected''] else []))"

fun exchange_run :: "exchange \<Rightarrow> exchange_event list \<Rightarrow> exchange_action list" where
  "exchange_run ex [] = []"
| "exchange_run ex (ev # evs) = snd (exchange_step ex ev) @ exchange_run (fst (exchange_step ex ev)) evs"

end
