(* ===== verification/ClearanceSafety.thy ===== *)
theory ClearanceSafety
  imports ClearanceProxy
begin

section \<open>clearance: what the proxy can reach\<close>

text \<open>
  The interface between authorisation and address resolution is the locale \<open>resolver\<close>; it is
  interpreted on \<open>resolveHost\<close> with its cache. \<open>proxy_step\<close> is the system of all requests in
  flight: requests start at any time, lookups answer in any order and with any records.
\<close>

subsection \<open>Resolvers\<close>

locale resolver =
  fixes start :: "'s \<Rightarrow> int \<Rightarrow> string \<Rightarrow> 's \<times> 'r settled"
    and finish :: "'s \<Rightarrow> string \<Rightarrow> int \<Rightarrow> 'ans \<Rightarrow> 's \<times> (deny + 'r)"
    and sound :: "'s \<Rightarrow> bool"
    and good :: "'r \<Rightarrow> bool"
  assumes start_sound: "sound s \<Longrightarrow> start s now h = (s', out) \<Longrightarrow> sound s'"
    and start_good: "sound s \<Longrightarrow> start s now h = (s', Settled (Inr r)) \<Longrightarrow> good r"
    and finish_sound: "sound s \<Longrightarrow> finish s h t ans = (s', out') \<Longrightarrow> sound s'"
    and finish_good: "sound s \<Longrightarrow> finish s h t ans = (s', Inr r) \<Longrightarrow> good r"
begin

lemma start_mapped:
  assumes "sound s" and "start s now h = (s', out)"
  shows "sound s'" and "settled_map f out = Settled (Inr y) \<Longrightarrow> \<exists>x. good x \<and> y = f x"
proof -
  show "sound s'" using assms by (rule start_sound)
  assume "settled_map f out = Settled (Inr y)"
  then obtain x where "out = Settled (Inr x)" "y = f x"
    by (cases out) (auto simp: bind_result_Inr_iff)
  with assms start_good show "\<exists>x. good x \<and> y = f x" by blast
qed

lemma finish_mapped:
  assumes "sound s" and "finish s h t ans = (s', out)"
  shows "sound s'" and "bind_result out (\<lambda>x. Inr (f x)) = Inr y \<Longrightarrow> \<exists>x. good x \<and> y = f x"
proof -
  show "sound s'" using assms by (rule finish_sound)
  assume "bind_result out (\<lambda>x. Inr (f x)) = Inr y"
  then obtain x where "out = Inr x" "y = f x"
    by (auto simp: bind_result_Inr_iff)
  with assms finish_good show "\<exists>x. good x \<and> y = f x" by blast
qed

end

subsection \<open>The cache and the filter\<close>

text \<open>An address is public when the block lists do not hold it.\<close>

definition public :: "resolved \<Rightarrow> bool" where
  "public r \<longleftrightarrow> is_private (res_address r) (res_family r) = Some False"

definition admissible :: "bool \<Rightarrow> resolved \<Rightarrow> bool" where
  "admissible block r \<longleftrightarrow> (block \<longrightarrow> public r)"

definition cache_sound :: "bool \<Rightarrow> proxy_state \<Rightarrow> bool" where
  "cache_sound block st \<longleftrightarrow>
     ps_block_private st = block \<and>
     (\<forall>(h, e) \<in> set (ps_cache st). \<forall>r \<in> set (entry_records e). admissible block r)"

lemma keep_public_admissible:
  "keep_public block rs = Inr kept \<Longrightarrow> set kept \<subseteq> set rs \<and> (\<forall>r \<in> set kept. admissible block r)"
proof (induction rs arbitrary: kept)
  case (Cons r rs)
  then obtain priv kept' where p: "(if block then is_private (res_address r) (res_family r)
      else Some False) = Some priv" "keep_public block rs = Inr kept'"
    "kept = (if priv then kept' else r # kept')"
    by (auto simp: bind_result_Inr_iff split: option.splits)
  have "admissible block r" if "\<not> priv"
    using p(1) that by (auto simp: admissible_def public_def split: if_splits)
  with Cons.IH [OF p(2)] p(3) show ?case by auto
qed simp

lemma resolve_start_sound:
  assumes "cache_sound block st" and "resolve_start st now h = (st', out)"
  shows "cache_sound block st'" and "out = Settled (Inr r) \<Longrightarrow> admissible block r"
proof -
  have del: "set (map_delete h (ps_cache st)) \<subseteq> set (ps_cache st)" by (rule set_map_delete)
  show "cache_sound block st'"
    using assms del unfolding resolve_start_def cache_sound_def
    by (auto split: option.splits bool.splits if_splits list.splits; blast)
  assume out: "out = Settled (Inr r)"
  show "admissible block r"
  proof (cases "is_ip h")
    case (Some f)
    then show ?thesis
      using assms out unfolding resolve_start_def cache_sound_def admissible_def public_def
      by (auto split: option.splits bool.splits if_splits)
  next
    case None
    with assms(2) out obtain e where "map_get (ps_cache st) h = Some e" "r \<in> set (entry_records e)"
      unfolding resolve_start_def by (auto split: option.splits if_splits list.splits)
    with assms(1) show ?thesis unfolding cache_sound_def by (auto dest!: map_of_SomeD)
  qed
qed

lemma resolve_finish_sound:
  assumes "cache_sound block st" and "resolve_finish st h t ans = (st', out)"
  shows "cache_sound block st'" and "out = Inr r \<Longrightarrow> admissible block r"
proof -
  have block: "ps_block_private st = block" using assms(1) by (simp add: cache_sound_def)
  consider (fail) e where "st' = st" "out = Inl e"
    | (found) found kept r0 where "ans = Inr found"
        "keep_public block (with_family found) = Inr kept"
        "r0 \<in> set kept" "out = Inr r0"
        "ps_cache st' = ps_cache st \<or> ps_cache st' = map_set h
          \<lparr>entry_records = sort_key (\<lambda>r. family_rank (res_family r)) kept,
           entry_until = t + ps_dns_ttl st\<rparr> (ps_cache st)"
        "ps_block_private st' = block"
  proof (cases ans)
    case (Inl msg)
    with assms(2) that(1) [of "LookupFailed msg"] show ?thesis by (simp add: resolve_finish_def)
  next
    case (Inr found)
    show ?thesis
    proof (cases "keep_public block (with_family found)")
      case (Inl e)
      with assms(2) Inr block that(1) [of e] show ?thesis by (simp add: resolve_finish_def)
    next
      case kept: (Inr kept)
      show ?thesis
      proof (cases "sort_key (\<lambda>r. family_rank (res_family r)) kept")
        case Nil
        with assms(2) Inr kept block that(1) [of "NoPublicAddress h"] show ?thesis by (simp add: resolve_finish_def)
      next
        case (Cons r0 rs)
        then have "r0 \<in> set kept" by (metis list.set_intros(1) set_sort)
        with assms(2) Inr kept block Cons that(2) [of found kept r0] show ?thesis
          by (auto simp: resolve_finish_def split: if_splits)
      qed
    qed
  qed
  note cases = this
  show "cache_sound block st'"
  proof (cases rule: cases)
    case fail
    with assms(1) show ?thesis by simp
  next
    case (found found kept r0)
    note keep = keep_public_admissible [OF found(2)]
    from found(5) show ?thesis
    proof
      assume "ps_cache st' = ps_cache st"
      with assms(1) found(6) show ?thesis by (simp add: cache_sound_def)
    next
      let ?e = "\<lparr>entry_records = sort_key (\<lambda>r. family_rank (res_family r)) kept,
           entry_until = t + ps_dns_ttl st\<rparr>"
      assume "ps_cache st' = map_set h ?e (ps_cache st)"
      then have "set (ps_cache st') \<subseteq> insert (h, ?e) (set (ps_cache st))"
        using set_update_subset [of h ?e "ps_cache st"] by simp
      with assms(1) found(6) keep show ?thesis
        unfolding cache_sound_def by fastforce
    qed
  qed
  assume "out = Inr r"
  then show "admissible block r"
    using keep_public_admissible by (cases rule: cases) auto
qed

interpretation dns: resolver resolve_start resolve_finish "cache_sound block" "admissible block"
  for block
proof
  show "cache_sound block st \<Longrightarrow> resolve_start st now h = (st', out) \<Longrightarrow> cache_sound block st'"
    for st now h st' out by (rule resolve_start_sound)
  show "cache_sound block st \<Longrightarrow> resolve_start st now h = (st', Settled (Inr r)) \<Longrightarrow> admissible block r"
    for st now h st' r by (rule resolve_start_sound(2)) simp_all
  show "cache_sound block st \<Longrightarrow> resolve_finish st h t ans = (st', out) \<Longrightarrow> cache_sound block st'"
    for st h t ans st' out by (rule resolve_finish_sound)
  show "cache_sound block st \<Longrightarrow> resolve_finish st h t ans = (st', Inr r) \<Longrightarrow> admissible block r"
    for st h t ans st' r by (rule resolve_finish_sound(2)) simp_all
qed

subsection \<open>All requests in flight\<close>

text \<open>The targets handed to the sockets, the lookups awaited, and the history of the answers
  the DNS lookup gave (the host asked for, the time of asking, the records).\<close>

record proxy_system =
  sys_state :: proxy_state
  sys_waiting :: "(string \<times> int \<times> int) list"
  sys_reached :: "(int \<times> target) list"
  sys_answers :: "(string \<times> int \<times> lookup_record list) list"

definition reached_by :: "int \<Rightarrow> deny + target \<Rightarrow> (int \<times> target) list" where
  "reached_by now r = (case r of Inl e \<Rightarrow> [] | Inr t \<Rightarrow> [(now, t)])"

definition answered :: "string \<Rightarrow> int \<Rightarrow> string + lookup_record list \<Rightarrow>
    (string \<times> int \<times> lookup_record list) list" where
  "answered h t ans = (case ans of Inl msg \<Rightarrow> [] | Inr found \<Rightarrow> [(h, t, found)])"

inductive proxy_step :: "to_ascii \<Rightarrow> proxy_system \<Rightarrow> proxy_system \<Rightarrow> bool"
  for to_ascii :: to_ascii where
  request_settled:
    "authorize_start to_ascii (sys_state s) now host port = (st, Settled r) \<Longrightarrow>
     proxy_step to_ascii s (s\<lparr>sys_state := st, sys_reached := reached_by now r @ sys_reached s\<rparr>)"
| request_waits:
    "authorize_start to_ascii (sys_state s) now host port = (st, AwaitLookup h t) \<Longrightarrow>
     proxy_step to_ascii s (s\<lparr>sys_state := st, sys_waiting := (h, t, port) # sys_waiting s\<rparr>)"
| lookup_answers:
    "(h, t, port) \<in> set (sys_waiting s) \<Longrightarrow>
     authorize_finish (sys_state s) h port t ans = (st, r) \<Longrightarrow>
     proxy_step to_ascii s (s\<lparr>sys_state := st, sys_waiting := remove1 (h, t, port) (sys_waiting s),
       sys_reached := reached_by t r @ sys_reached s, sys_answers := answered h t ans @ sys_answers s\<rparr>)"

inductive_cases proxy_stepE: "proxy_step to_ascii s s'"

inductive proxy_reachable :: "to_ascii \<Rightarrow> proxy_state \<Rightarrow> proxy_system \<Rightarrow> bool"
  for to_ascii :: to_ascii and st0 :: proxy_state where
  proxy_init: "proxy_reachable to_ascii st0
     \<lparr>sys_state = st0, sys_waiting = [], sys_reached = [], sys_answers = []\<rparr>"
| proxy_next: "proxy_reachable to_ascii st0 s \<Longrightarrow> proxy_step to_ascii s s' \<Longrightarrow>
     proxy_reachable to_ascii st0 s'"

subsection \<open>The invariant\<close>

definition same_config :: "proxy_state \<Rightarrow> proxy_state \<Rightarrow> bool" where
  "same_config st0 st \<longleftrightarrow> st\<lparr>ps_cache := []\<rparr> = st0\<lparr>ps_cache := []\<rparr>"

lemma same_config_simps:
  assumes "same_config st0 st"
  shows "ps_hosts st = ps_hosts st0" "ps_ports st = ps_ports st0"
    "ps_dns_ttl st = ps_dns_ttl st0" "ps_block_private st = ps_block_private st0"
  using assms by (cases st; cases st0; simp add: same_config_def)+

lemma same_config_refl [simp]: "same_config st st"
  by (simp add: same_config_def)

lemma same_config_cache [simp]: "same_config st0 (st\<lparr>ps_cache := c\<rparr>) = same_config st0 st"
  by (simp add: same_config_def)

definition policy_ok :: "proxy_state \<Rightarrow> string \<Rightarrow> int \<Rightarrow> bool" where
  "policy_ok st0 hostname port \<longleftrightarrow> port \<in> set (ps_ports st0) \<and> host_allowed hostname (ps_hosts st0)"

text \<open>A target is justified when the policy allows its host and port, its address is admissible,
  and the address is the host itself or one of the records a lookup of that host gave, no
  longer than the time to live before the request.\<close>

definition from_answer ::
  "proxy_state \<Rightarrow> (string \<times> int \<times> lookup_record list) list \<Rightarrow> int \<Rightarrow> string \<Rightarrow> resolved \<Rightarrow> bool" where
  "from_answer st0 answers now hostname r \<longleftrightarrow>
     (\<exists>t found. (hostname, t, found) \<in> set answers \<and> r \<in> set (with_family found) \<and>
        (t = now \<or> now < t + ps_dns_ttl st0))"

definition justified ::
  "proxy_state \<Rightarrow> (string \<times> int \<times> lookup_record list) list \<Rightarrow> int \<times> target \<Rightarrow> bool" where
  "justified st0 answers nt \<longleftrightarrow>
     (let tgt = snd nt; r = \<lparr>res_address = tgt_address tgt, res_family = tgt_family tgt\<rparr> in
      policy_ok st0 (tgt_hostname tgt) (tgt_port tgt) \<and> admissible (ps_block_private st0) r \<and>
      (is_ip (tgt_hostname tgt) = Some (tgt_family tgt) \<and> tgt_address tgt = tgt_hostname tgt \<or>
       from_answer st0 answers (fst nt) (tgt_hostname tgt) r))"

definition cache_traced ::
  "(string \<times> int \<times> lookup_record list) list \<Rightarrow> proxy_state \<Rightarrow> bool" where
  "cache_traced answers st \<longleftrightarrow>
     (\<forall>(h, e) \<in> set (ps_cache st). \<exists>t found. (h, t, found) \<in> set answers \<and>
        entry_until e = t + ps_dns_ttl st \<and> set (entry_records e) \<subseteq> set (with_family found))"

definition proxy_inv :: "proxy_state \<Rightarrow> proxy_system \<Rightarrow> bool" where
  "proxy_inv st0 s \<longleftrightarrow>
     same_config st0 (sys_state s) \<and> cache_sound (ps_block_private st0) (sys_state s) \<and>
     cache_traced (sys_answers s) (sys_state s) \<and>
     (\<forall>(h, t, port) \<in> set (sys_waiting s). policy_ok st0 h port) \<and>
     (\<forall>nt \<in> set (sys_reached s). justified st0 (sys_answers s) nt)"

lemma justified_mono: "set a \<subseteq> set b \<Longrightarrow> justified st0 a nt \<Longrightarrow> justified st0 b nt"
  unfolding justified_def from_answer_def Let_def by blast

lemma cache_traced_mono: "set a \<subseteq> set b \<Longrightarrow> cache_traced a st \<Longrightarrow> cache_traced b st"
  unfolding cache_traced_def by fast

lemma resolve_start_config: "resolve_start st now h = (st', out) \<Longrightarrow> same_config st0 st \<Longrightarrow> same_config st0 st'"
  unfolding resolve_start_def by (auto split: option.splits bool.splits if_splits list.splits)

lemma resolve_start_traced:
  "resolve_start st now h = (st', out) \<Longrightarrow> cache_traced a st \<Longrightarrow> cache_traced a st'"
  using set_map_delete [of h "ps_cache st"] unfolding resolve_start_def cache_traced_def
  by (auto split: option.splits bool.splits if_splits list.splits; fast)

lemma resolve_start_await:
  "resolve_start st now h = (st', AwaitLookup h' t) \<Longrightarrow> h' = h \<and> t = now"
  unfolding resolve_start_def by (auto split: option.splits bool.splits if_splits list.splits)

lemma resolve_start_source:
  assumes "resolve_start st now h = (st', Settled (Inr r))" and "cache_traced a st"
    and "same_config st0 st"
  shows "is_ip h = Some (res_family r) \<and> res_address r = h \<or> from_answer st0 a now h r"
proof (cases "is_ip h")
  case (Some f)
  then show ?thesis
    using assms(1) unfolding resolve_start_def by (auto split: option.splits bool.splits if_splits)
next
  case None
  with assms(1) obtain e where e: "map_get (ps_cache st) h = Some e" "r \<in> set (entry_records e)"
    "now < entry_until e"
    unfolding resolve_start_def by (auto split: option.splits if_splits list.splits)
  then have "(h, e) \<in> set (ps_cache st)" by (auto dest: map_of_SomeD)
  with assms(2) obtain t found where "(h, t, found) \<in> set a" "entry_until e = t + ps_dns_ttl st"
    "set (entry_records e) \<subseteq> set (with_family found)" unfolding cache_traced_def by blast
  with e same_config_simps [OF assms(3)] show ?thesis unfolding from_answer_def by auto
qed

lemma resolve_finish_cases:
  assumes "resolve_finish st h t ans = (st', out)"
  obtains (fail) e where "st' = st" "out = Inl e"
    | (found) found kept r where "ans = Inr found" "out = Inr r" "r \<in> set (with_family found)"
        "set kept \<subseteq> set (with_family found)"
        "st' = st \<or> st' = st\<lparr>ps_cache := map_set h \<lparr>entry_records = kept,
           entry_until = t + ps_dns_ttl st\<rparr> (ps_cache st)\<rparr>"
proof (cases ans)
  case (Inl msg)
  with assms that(1) [of "LookupFailed msg"] show thesis by (simp add: resolve_finish_def)
next
  case (Inr found)
  show thesis
  proof (cases "keep_public (ps_block_private st) (with_family found)")
    case (Inl e)
    with assms \<open>ans = Inr found\<close> that(1) [of e] show thesis by (simp add: resolve_finish_def)
  next
    case kept: (Inr kept)
    let ?sorted = "sort_key (\<lambda>r. family_rank (res_family r)) kept"
    have sub: "set ?sorted \<subseteq> set (with_family found)"
      using keep_public_admissible [OF kept] by simp
    show thesis
    proof (cases ?sorted)
      case Nil
      with assms Inr kept that(1) [of "NoPublicAddress h"] show thesis
        by (simp add: resolve_finish_def)
    next
      case (Cons r rs)
      with sub have "r \<in> set (with_family found)" by auto
      with assms Inr kept Cons sub that(2) [of found r ?sorted] show thesis
        by (auto simp: resolve_finish_def split: if_splits)
    qed
  qed
qed

lemma target_of_inject [simp]: "target_of h p r = target_of h p r' \<longleftrightarrow> r = r'"
  by (cases r; cases r') (simp add: target_of_def)

lemma resolved_eta [simp]: "\<lparr>res_address = res_address r, res_family = res_family r\<rparr> = r"
  by (cases r) simp

lemma justified_target_of:
  "justified st0 answers (now, target_of h p r) \<longleftrightarrow>
     policy_ok st0 h p \<and> admissible (ps_block_private st0) r \<and>
     (is_ip h = Some (res_family r) \<and> res_address r = h \<or> from_answer st0 answers now h r)"
  by (simp add: justified_def target_of_def Let_def)

lemma settled_map_Inr:
  "settled_map (target_of h p) out = Settled (Inr (target_of h p r)) \<longleftrightarrow> out = Settled (Inr r)"
  by (cases out) (auto simp: bind_result_Inr_iff)

lemma bind_target_Inr:
  "bind_result out (\<lambda>x. Inr (target_of h p x)) = Inr (target_of h p r) \<longleftrightarrow> out = Inr r"
  by (auto simp: bind_result_Inr_iff)

lemma authorize_start_cases:
  assumes "authorize_start to_ascii st now host port = (st', out)"
  obtains (refused) e where "st' = st" "out = Settled (Inl e)"
    | (resolved) hostname out' where "normalize_host to_ascii host = Some hostname"
        "port \<in> set (ps_ports st)" "host_allowed hostname (ps_hosts st)"
        "resolve_start st now hostname = (st', out')"
        "out = settled_map (target_of hostname port) out'"
  using assms unfolding authorize_start_def
  by (auto split: option.splits if_splits prod.splits)

lemma authorize_start_inv:
  assumes inv: "proxy_inv st0 s" and run: "authorize_start to_ascii (sys_state s) now host port = (st', out)"
  shows "same_config st0 st'" "cache_sound (ps_block_private st0) st'"
    "cache_traced (sys_answers s) st'"
    and "out = AwaitLookup h t \<Longrightarrow> policy_ok st0 h port"
    and "out = Settled (Inr tgt) \<Longrightarrow> justified st0 (sys_answers s) (now, tgt)"
proof -
  let ?block = "ps_block_private st0"
  from inv have conf: "same_config st0 (sys_state s)" and sound: "cache_sound ?block (sys_state s)"
    and traced: "cache_traced (sys_answers s) (sys_state s)"
    by (auto simp: proxy_inv_def)
  note config = same_config_simps [OF conf]
  have "same_config st0 st' \<and> cache_sound ?block st' \<and> cache_traced (sys_answers s) st'"
    using run
  proof (cases rule: authorize_start_cases)
    case (resolved hostname out')
    with conf sound traced show ?thesis
      by (blast intro: resolve_start_config resolve_start_traced dns.start_mapped(1))
  qed (use conf sound traced in simp)
  then show "same_config st0 st'" "cache_sound ?block st'" "cache_traced (sys_answers s) st'"
    by auto
  show "policy_ok st0 h port" if "out = AwaitLookup h t"
    using run
  proof (cases rule: authorize_start_cases)
    case (resolved hostname out')
    with that have "out' = AwaitLookup h t" by (cases out') auto
    with resolved(4) have "h = hostname" using resolve_start_await by blast
    with resolved config show ?thesis by (simp add: policy_ok_def)
  qed (use that in simp)
  show "justified st0 (sys_answers s) (now, tgt)" if "out = Settled (Inr tgt)"
    using run
  proof (cases rule: authorize_start_cases)
    case (resolved hostname out')
    have "settled_map (target_of hostname port) out' = Settled (Inr tgt)"
      using that resolved(5) by argo
    from dns.start_mapped(2) [OF sound resolved(4) this]
    obtain r where r: "admissible ?block r" "tgt = target_of hostname port r" by blast
    have "out' = Settled (Inr r)"
      using that resolved(5) unfolding r(2) by (metis settled_map_Inr)
    with resolve_start_source [OF _ traced conf] resolved(4) r
    have "is_ip hostname = Some (res_family r) \<and> res_address r = hostname \<or>
        from_answer st0 (sys_answers s) now hostname r" by blast
    with r resolved(2,3) config show ?thesis
      by (auto simp: justified_target_of policy_ok_def)
  qed (use that in simp)
qed

lemma authorize_finish_inv:
  assumes inv: "proxy_inv st0 s" and policy: "policy_ok st0 h port"
    and run: "authorize_finish (sys_state s) h port t ans = (st', out)"
  defines "answers \<equiv> answered h t ans @ sys_answers s"
  shows "same_config st0 st'" "cache_sound (ps_block_private st0) st'" "cache_traced answers st'"
    and "out = Inr tgt \<Longrightarrow> justified st0 answers (t, tgt)"
proof -
  let ?block = "ps_block_private st0"
  from inv have conf: "same_config st0 (sys_state s)" and sound: "cache_sound ?block (sys_state s)"
    and traced: "cache_traced answers (sys_state s)"
    by (auto simp: proxy_inv_def answers_def intro: cache_traced_mono)
  obtain out' where fin: "resolve_finish (sys_state s) h t ans = (st', out')"
    and out: "out = bind_result out' (\<lambda>x. Inr (target_of h port x))"
    using run unfolding authorize_finish_def by (auto split: prod.splits)
  show "cache_sound ?block st'" using dns.finish_mapped(1) [OF sound fin] .
  show "same_config st0 st'"
    using fin conf by (cases rule: resolve_finish_cases) auto
  show "cache_traced answers st'"
    using fin
  proof (cases rule: resolve_finish_cases)
    case (found found kept r)
    let ?e = "\<lparr>entry_records = kept, entry_until = t + ps_dns_ttl (sys_state s)\<rparr>"
    have mem: "(h, t, found) \<in> set answers"
      by (simp add: answers_def answered_def found(1))
    have sub: "set (map_set h ?e (ps_cache (sys_state s))) \<subseteq> insert (h, ?e) (set (ps_cache (sys_state s)))"
      by (rule set_update_subset)
    from found(5) show ?thesis
    proof
      assume st': "st' = sys_state s\<lparr>ps_cache := map_set h ?e (ps_cache (sys_state s))\<rparr>"
      show ?thesis
        unfolding cache_traced_def
      proof (clarify)
        fix h' e assume "(h', e) \<in> set (ps_cache st')"
        with st' sub consider "h' = h" "e = ?e" | "(h', e) \<in> set (ps_cache (sys_state s))"
          by auto
        then show "\<exists>t found. (h', t, found) \<in> set answers \<and> entry_until e = t + ps_dns_ttl st' \<and>
            set (entry_records e) \<subseteq> set (with_family found)"
        proof cases
          case 1
          with mem found(4) st' show ?thesis by auto
        next
          case 2
          with traced have "\<exists>t found. (h', t, found) \<in> set answers \<and>
              entry_until e = t + ps_dns_ttl (sys_state s) \<and> set (entry_records e) \<subseteq> set (with_family found)"
            unfolding cache_traced_def by blast
          with st' show ?thesis by simp
        qed
      qed
    qed (use traced in simp)
  qed (use traced in simp)
  show "justified st0 answers (t, tgt)" if "out = Inr tgt"
  proof -
    have "bind_result out' (\<lambda>x. Inr (target_of h port x)) = Inr tgt"
      using that out by argo
    from dns.finish_mapped(2) [OF sound fin this]
    obtain x where x: "admissible ?block x" "tgt = target_of h port x" by blast
    then have "out' = Inr x"
      using that out by (metis bind_target_Inr)
    with fin obtain found where "ans = Inr found" "x \<in> set (with_family found)"
      by (cases rule: resolve_finish_cases) auto
    then have "from_answer st0 answers t h x"
      by (auto simp: from_answer_def answers_def answered_def)
    with x policy show ?thesis
      by (simp add: justified_target_of)
  qed
qed

lemma proxy_step_inv: "proxy_step to_ascii s s' \<Longrightarrow> proxy_inv st0 s \<Longrightarrow> proxy_inv st0 s'"
proof (induction rule: proxy_step.induct)
  case (request_settled s now host port st r)
  note a = authorize_start_inv [OF request_settled(2,1)]
  from a(1,2,3) a(5) request_settled(2) show ?case
    by (auto simp: proxy_inv_def reached_by_def split: sum.split)
next
  case (request_waits s now host port st h t)
  note a = authorize_start_inv [OF request_waits(2,1)]
  from a(1,2,3) a(4) request_waits(2) show ?case
    by (auto simp: proxy_inv_def)
next
  case (lookup_answers h t port s ans st r)
  then have "policy_ok st0 h port" by (auto simp: proxy_inv_def)
  note a = authorize_finish_inv [OF lookup_answers(3) this lookup_answers(2)]
  have "set (sys_answers s) \<subseteq> set (answered h t ans @ sys_answers s)" by simp
  moreover have "set (remove1 (h, t, port) (sys_waiting s)) \<subseteq> set (sys_waiting s)"
    by (rule set_remove1_subset)
  ultimately show ?case
    using a lookup_answers(3) unfolding proxy_inv_def reached_by_def
    by (auto split: sum.split intro: justified_mono; blast)
qed

lemma proxy_reachable_inv:
  "proxy_reachable to_ascii st0 s \<Longrightarrow> ps_cache st0 = [] \<Longrightarrow> proxy_inv st0 s"
proof (induction rule: proxy_reachable.induct)
  case proxy_init
  then show ?case by (simp add: proxy_inv_def cache_sound_def cache_traced_def)
next
  case (proxy_next s s')
  then show ?case using proxy_step_inv by blast
qed

subsection \<open>Properties\<close>

lemma create_proxy_state_empty_cache:
  "create_proxy_state to_ascii opts = Inr st0 \<Longrightarrow>
     ps_cache st0 = [] \<and> ps_block_private st0 = or_default (opt_block_private opts) True \<and>
     ps_hosts st0 = normalize_rules to_ascii (opt_hosts opts)"
  unfolding create_proxy_state_def Let_def
  by (auto simp: bind_result_Inr_iff split: if_splits)

text \<open>C2: Whatever the requests, their interleaving and the answers of the DNS, a server that
  blocks private addresses (the default) hands only public addresses to the sockets, for a host
  one of its rules covers and a port it allows.\<close>

theorem proxy_never_reaches_private:
  assumes "create_proxy_state to_ascii opts = Inr st0"
    and "proxy_reachable to_ascii st0 s"
    and "(now, tgt) \<in> set (sys_reached s)"
  shows "tgt_port tgt \<in> set (ps_ports st0) \<and>
    list_ex (\<lambda>rule. covers rule (tgt_hostname tgt)) (normalize_rules to_ascii (opt_hosts opts)) \<and>
    (opt_block_private opts = Some False \<or> is_private (tgt_address tgt) (tgt_family tgt) = Some False)"
proof -
  note created = create_proxy_state_empty_cache [OF assms(1)]
  have "proxy_inv st0 s"
    using proxy_reachable_inv [OF assms(2)] created by blast
  with assms(3) have "justified st0 (sys_answers s) (now, tgt)"
    by (auto simp: proxy_inv_def)
  then show ?thesis
    using created
    by (auto simp: justified_def Let_def policy_ok_def host_allowed_covers list_ex_iff admissible_def
        public_def or_default_def split: option.splits)
qed

definition example_options :: server_options where
  "example_options =
     \<lparr>opt_hosts = [''*.Example.com''], opt_ports = None, opt_dns_ttl = None, opt_idle_timeout = None,
      opt_max_sockets = None, opt_block_private = None\<rparr>"

definition example_state :: proxy_state where
  "example_state =
     \<lparr>ps_hosts = [''*.example.com''], ps_ports = [443], ps_cache = [], ps_dns_ttl = 60000,
      ps_block_private = True, ps_idle_timeout = 120000, ps_max_sockets = 1024\<rparr>"

definition example_answer :: "lookup_record list" where
  "example_answer =
     [\<lparr>lookup_address = ''10.0.0.1'', lookup_family = 4\<rparr>,
      \<lparr>lookup_address = ''93.184.216.34'', lookup_family = 4\<rparr>]"

definition example_target :: target where
  "example_target = \<lparr>tgt_address = ''93.184.216.34'', tgt_family = IPv4,
     tgt_hostname = ''api.example.com'', tgt_port = 443\<rparr>"

lemma example_state_created: "create_proxy_state (\<lambda>s. s) example_options = Inr example_state"
  by code_simp

lemma example_reachable:
  "\<exists>s. proxy_reachable (\<lambda>s. s) example_state s \<and> sys_reached s = [(7, example_target)] \<and>
     sys_answers s = [(''api.example.com'', 7, example_answer)]"
proof -
  let ?s0 = "\<lparr>sys_state = example_state, sys_waiting = [], sys_reached = [], sys_answers = []\<rparr>"
  have w: "authorize_start (\<lambda>s. s) (sys_state ?s0) 7 ''api.example.com.'' 443 =
      (example_state, AwaitLookup ''api.example.com'' 7)"
    by code_simp
  let ?s1 = "?s0\<lparr>sys_state := example_state, sys_waiting := (''api.example.com'', 7, 443) # sys_waiting ?s0\<rparr>"
  have r1: "proxy_reachable (\<lambda>s. s) example_state ?s1"
    by (rule proxy_next [OF proxy_init request_waits [OF w]])
  have mem: "(''api.example.com'', 7, 443) \<in> set (sys_waiting ?s1)" by simp
  obtain st where a: "authorize_finish (sys_state ?s1) ''api.example.com'' 443 7 (Inr example_answer) =
      (st, Inr example_target)"
  proof -
    have "snd (authorize_finish example_state ''api.example.com'' 443 7 (Inr example_answer)) = Inr example_target"
      by code_simp
    with that show thesis by (metis prod.collapse select_convs(1) update_convs(1,2))
  qed
  from proxy_next [OF r1 lookup_answers [OF mem a]] show ?thesis
    by (intro exI conjI) (auto simp: reached_by_def answered_def)
qed

lemma proxy_never_reaches_private_witness:
  "443 \<in> set (ps_ports example_state) \<and>
   list_ex (\<lambda>rule. covers rule ''api.example.com'') (normalize_rules (\<lambda>s. s) [''*.Example.com'']) \<and>
   (opt_block_private example_options = Some False \<or> is_private ''93.184.216.34'' IPv4 = Some False)"
proof -
  obtain s where s: "proxy_reachable (\<lambda>s. s) example_state s" "sys_reached s = [(7, example_target)]"
    using example_reachable by blast
  then have "(7, example_target) \<in> set (sys_reached s)" by simp
  from proxy_never_reaches_private [OF example_state_created s(1) this] show ?thesis
    by (simp add: example_target_def example_options_def)
qed

text \<open>C20: The address of a target is the host itself when it is an address, and otherwise a
  record the DNS gave for that very host: in answer to this request, or less than the time to
  live before it. No request is served the records of another host or an expired answer.\<close>

theorem reached_address_comes_from_its_host:
  assumes "create_proxy_state to_ascii opts = Inr st0"
    and "proxy_reachable to_ascii st0 s"
    and "(now, tgt) \<in> set (sys_reached s)"
  shows "is_ip (tgt_hostname tgt) = Some (tgt_family tgt) \<and> tgt_address tgt = tgt_hostname tgt \<or>
    (\<exists>t found. (tgt_hostname tgt, t, found) \<in> set (sys_answers s) \<and>
       \<lparr>res_address = tgt_address tgt, res_family = tgt_family tgt\<rparr> \<in> set (with_family found) \<and>
       (t = now \<or> now < t + ps_dns_ttl st0))"
proof -
  have "proxy_inv st0 s"
    using proxy_reachable_inv [OF assms(2)] create_proxy_state_empty_cache [OF assms(1)] by blast
  with assms(3) have "justified st0 (sys_answers s) (now, tgt)"
    by (auto simp: proxy_inv_def)
  then show ?thesis
    unfolding justified_def from_answer_def Let_def fst_conv snd_conv by blast
qed

lemma reached_address_comes_from_its_host_witness:
  "is_ip ''api.example.com'' = Some IPv4 \<and> ''93.184.216.34'' = ''api.example.com'' \<or>
    (\<exists>t found. (''api.example.com'', t, found) \<in> set [(''api.example.com'', 7, example_answer)] \<and>
       \<lparr>res_address = ''93.184.216.34'', res_family = IPv4\<rparr> \<in> set (with_family found) \<and>
       (t = 7 \<or> 7 < t + 60000))"
proof -
  obtain s where s: "proxy_reachable (\<lambda>s. s) example_state s" "sys_reached s = [(7, example_target)]"
    "sys_answers s = [(''api.example.com'', 7, example_answer)]"
    using example_reachable by blast
  then have "(7, example_target) \<in> set (sys_reached s)" by simp
  from reached_address_comes_from_its_host [OF example_state_created s(1) this] show ?thesis
    unfolding s(3) by (simp add: example_target_def example_state_def)
qed

subsection \<open>The tunnel\<close>

fun answers_client :: "connect_action \<Rightarrow> bool" where
  "answers_client (EndClient _) = True"
| "answers_client (WriteClient _) = True"
| "answers_client _ = False"

fun is_allow_log :: "connect_action \<Rightarrow> bool" where
  "is_allow_log (LogLine _) = True"
| "is_allow_log _ = False"

definition is_outcome :: "tunnel_event \<Rightarrow> bool" where
  "is_outcome ev = (case ev of UpstreamConnected \<Rightarrow> True | UpstreamFailed _ \<Rightarrow> True | _ \<Rightarrow> False)"

definition client_gone :: "tunnel_event \<Rightarrow> bool" where
  "client_gone ev \<longleftrightarrow> ev = ClientIdle \<or> ev = ClientClosed"

text \<open>A socket that has failed never connects.\<close>

fun socket_events :: "tunnel_event list \<Rightarrow> bool" where
  "socket_events [] = True"
| "socket_events (UpstreamFailed _ # evs) = (UpstreamConnected \<notin> set evs)"
| "socket_events (_ # evs) = socket_events evs"

definition quiet :: "tunnel \<Rightarrow> tunnel_event list \<Rightarrow> bool" where
  "quiet tun evs \<longleftrightarrow>
     filter answers_client (tunnel_run tun evs) = [] \<and> filter is_allow_log (tunnel_run tun evs) = []"

lemma tunnel_closed_quiet:
  "\<not> tun_on_connect tun \<Longrightarrow> tun_established tun \<or> \<not> tun_on_error tun \<Longrightarrow> quiet tun evs"
proof (induction evs arbitrary: tun)
  case (Cons ev evs)
  then show ?case
    by (cases ev) (auto simp: quiet_def tunnel_step_def)
qed (simp add: quiet_def)

lemma tunnel_failed_quiet:
  "UpstreamConnected \<notin> set evs \<Longrightarrow> \<not> tun_on_error tun \<Longrightarrow> quiet tun evs"
proof (induction evs arbitrary: tun)
  case (Cons ev evs)
  then show ?case
    by (cases ev) (auto simp: quiet_def tunnel_step_def)
qed (simp add: quiet_def)

text \<open>What the client is sent, from the events alone: \<open>gone\<close> if its socket was destroyed before
  the tunnel was opened.\<close>

definition answer_to :: "bool \<Rightarrow> tunnel_event list \<Rightarrow> connect_action list" where
  "answer_to gone evs =
     (case evs of
        [] \<Rightarrow> []
      | UpstreamFailed msg # _ \<Rightarrow>
          if gone then [] else [EndClient (reply_text 502 ''Bad Gateway'' (msg @ [LF]))]
      | _ \<Rightarrow> [WriteClient (''HTTP/1.1 200 Connection Established'' @ [CR, LF, CR, LF])])"

definition answer_due :: "bool \<Rightarrow> tunnel_event list \<Rightarrow> connect_action list" where
  "answer_due gone evs =
     answer_to (gone \<or> list_ex client_gone (takeWhile (\<lambda>ev. \<not> is_outcome ev) evs))
       (dropWhile (\<lambda>ev. \<not> is_outcome ev) evs)"

lemma answer_due_simps:
  "answer_due gone [] = []"
  "answer_due gone (UpstreamConnected # evs) =
     [WriteClient (''HTTP/1.1 200 Connection Established'' @ [CR, LF, CR, LF])]"
  "answer_due gone (UpstreamFailed msg # evs) =
     (if gone then [] else [EndClient (reply_text 502 ''Bad Gateway'' (msg @ [LF]))])"
  "answer_due gone (ClientClosed # evs) = answer_due True evs"
  "answer_due gone (ClientIdle # evs) = answer_due True evs"
  "answer_due gone (UpstreamIdle # evs) = answer_due gone evs"
  by (simp_all add: answer_due_def is_outcome_def client_gone_def answer_to_def [of _ "[]"]
      answer_to_def [of _ "UpstreamConnected # evs"] answer_to_def [of _ "UpstreamFailed msg # evs"])

lemma tunnel_answers:
  assumes "socket_events evs"
    and "tun_on_connect tun" "tun_on_error tun" "\<not> tun_established tun"
    and "tun_on_close tun \<or> tun_client_destroyed tun"
  shows "filter answers_client (tunnel_run tun evs) = answer_due (tun_client_destroyed tun) evs \<and>
    length (filter is_allow_log (tunnel_run tun evs)) = (if UpstreamConnected \<in> set evs then 1 else 0)"
  using assms
proof (induction evs arbitrary: tun)
  case (Cons ev evs)
  show ?case
  proof (cases ev)
    case UpstreamConnected
    with Cons.prems tunnel_closed_quiet [of "fst (tunnel_step tun ev)" evs] show ?thesis
      by (auto simp: tunnel_step_def answer_due_simps quiet_def)
  next
    case (UpstreamFailed msg)
    with Cons.prems tunnel_failed_quiet [of evs "fst (tunnel_step tun ev)"] show ?thesis
      by (auto simp: tunnel_step_def answer_due_simps quiet_def socket_reply_def)
  qed (use Cons.prems Cons.IH [of "fst (tunnel_step tun ev)"] in
      \<open>auto simp: tunnel_step_def answer_due_simps\<close>)
qed (simp add: answer_due_simps)

text \<open>C25: Whatever happens to the sockets of a tunnel, the client is answered at most once, by
  the first outcome of the upstream socket: the 200 is written when it is a connection (the code
  does not ask whether the client is still there, and the runtime drops a write to a destroyed
  socket); the 502 with the failure's message when it is a failure and the client's socket has not
  been destroyed before, by its idle timeout or its peer; and nothing when it has, or when there is
  no outcome. The ALLOW line is logged exactly with the 200.\<close>

theorem tunnel_answers_once:
  assumes "socket_events evs"
  shows "filter answers_client (tunnel_run (open_tunnel t head gone) evs) =
      (case dropWhile (\<lambda>ev. \<not> is_outcome ev) evs of
         [] \<Rightarrow> []
       | UpstreamFailed msg # _ \<Rightarrow>
           if gone \<or> list_ex client_gone (takeWhile (\<lambda>ev. \<not> is_outcome ev) evs) then []
           else [EndClient (reply_text 502 ''Bad Gateway'' (msg @ [LF]))]
       | _ \<Rightarrow> [WriteClient (''HTTP/1.1 200 Connection Established'' @ [CR, LF, CR, LF])]) \<and>
    length (filter is_allow_log (tunnel_run (open_tunnel t head gone) evs)) =
      (if UpstreamConnected \<in> set evs then 1 else 0)"
  using tunnel_answers [OF assms, of "open_tunnel t head gone"]
  by (simp add: open_tunnel_def answer_due_def answer_to_def)

lemma tunnel_answers_once_witness:
  "length (filter is_allow_log (tunnel_run (open_tunnel example_target ''hi'' False)
     [UpstreamIdle, UpstreamConnected, UpstreamFailed ''x''])) = 1 \<and>
   filter answers_client (tunnel_run (open_tunnel example_target ''hi'' False)
     [ClientIdle, UpstreamFailed ''x'']) = []"
  using tunnel_answers_once [of "[UpstreamIdle, UpstreamConnected, UpstreamFailed ''x'']" example_target "''hi''" False]
    tunnel_answers_once [of "[ClientIdle, UpstreamFailed ''x'']" example_target "''hi''" False]
  by (simp add: is_outcome_def client_gone_def)

end
