(* ===== verification/ClearanceLauncher.thy ===== *)
theory ClearanceLauncher
  imports HostRule
begin

section \<open>clearance: the launcher\<close>

text \<open>
  Models \<open>packages/clearance/src/launcher.ts\<close> and the exit code of \<open>ensureCli.ts\<close>. The world
  a command acts on is the record \<open>launcher\<close>: the answers successive probes of the port get,
  the files at the paths of pid files, the signals sent, the processes spawned, the lines logged. What the operating
  system answers (spawning, signalling, creating the directory, writing the file) is the
  record \<open>os\<close>.
\<close>

subsection \<open>The world\<close>

datatype pid_file = NoFile | FileText string | Unreadable string

datatype kill_answer = Signalled | NoSuchProcess | KillFailed string

record os =
  os_mkdir :: "string option"
  os_spawn :: "string + int"
  os_write :: "string option"
  os_kill :: "int \<Rightarrow> kill_answer"
  os_home :: string

record launcher =
  listening :: "nat \<Rightarrow> bool"
  probes :: nat
  sleeps :: "int list"
  pidfiles :: "path \<Rightarrow> pid_file"
  spawned :: "env list"
  signals :: "int list"
  logged :: "string list"

datatype launch_error =
    AllowlistRejected allowlist_error
  | OsError string
  | DidNotStart
  | DidNotStop int
  | BadPollInterval
  | UnknownCommand string

datatype 'a launch_result = Failed launch_error | Ok 'a

definition probe :: "launcher \<Rightarrow> bool \<times> launcher" where
  "probe w = (listening w (probes w), w\<lparr>probes := Suc (probes w)\<rparr>)"

definition log_line :: "string \<Rightarrow> launcher \<Rightarrow> launcher" where
  "log_line s w = w\<lparr>logged := logged w @ [s]\<rparr>"

definition clearance_host :: string where "clearance_host = ''127.0.0.1''"
definition clearance_port :: int where "clearance_port = 19999"
definition start_timeout :: int where "start_timeout = 3000"
definition poll_interval :: int where "poll_interval = 100"

definition clearance_url :: string where
  "clearance_url = ''http://'' @ clearance_host @ '':'' @ show_int clearance_port"

subsection \<open>pollUntil\<close>

fun poll :: "nat \<Rightarrow> bool \<Rightarrow> int \<Rightarrow> launcher \<Rightarrow> bool \<times> launcher" where
  "poll 0 wanted interval w = (False, w)"
| "poll (Suc n) wanted interval w =
     (case probe w of (answer, w1) \<Rightarrow>
        if answer = wanted then (True, w1)
        else poll n wanted interval (w1\<lparr>sleeps := sleeps w1 @ [interval]\<rparr>))"

definition attempts :: "int \<Rightarrow> int \<Rightarrow> nat" where
  "attempts timeout interval = nat (max 1 (- ((- timeout) div interval)))"

definition poll_until :: "bool \<Rightarrow> int \<Rightarrow> int \<Rightarrow> launcher \<Rightarrow> launcher \<times> bool launch_result" where
  "poll_until wanted interval timeout w =
     (if interval \<le> 0 then (w, Failed BadPollInterval)
      else (case poll (attempts timeout interval) wanted interval w of (b, w1) \<Rightarrow> (w1, Ok b)))"

subsection \<open>Environment and paths\<close>

definition forwarded_env_vars :: "string list" where
  "forwarded_env_vars =
     [''CLEARANCE_ALLOW_HOSTS'', ''CLEARANCE_ALLOW_HOSTS_FILES'', ''CLEARANCE_ALLOW_PORTS'',
      ''CLEARANCE_ALLOW_PRIVATE_IPS'', ''CLEARANCE_DNS_TTL_MS'', ''CLEARANCE_IDLE_TIMEOUT_MS'',
      ''CLEARANCE_MAX_SOCKETS'', ''HOME'', ''PATH'', ''XDG_CACHE_HOME'']"

definition default_proxy_env :: "env \<Rightarrow> env" where
  "default_proxy_env process name = (if name \<in> set forwarded_env_vars then process name else None)"

definition proxy_env :: "env \<Rightarrow> env option \<Rightarrow> env option \<Rightarrow> env" where
  "proxy_env process input overrides =
     (let e = (case input of None \<Rightarrow> default_proxy_env process | Some e \<Rightarrow> e)
      in case overrides of None \<Rightarrow> e | Some o' \<Rightarrow> e ++ o')"

definition child_env :: "env \<Rightarrow> env" where
  "child_env e =
     e(''CLEARANCE_LISTEN_HOST'' \<mapsto> clearance_host, ''CLEARANCE_PORT'' \<mapsto> show_int clearance_port)"

definition nonempty :: "string option \<Rightarrow> string option" where
  "nonempty v = (case v of Some s \<Rightarrow> if 0 < length s then Some s else None | None \<Rightarrow> None)"

definition cache_dir_for :: "os \<Rightarrow> env \<Rightarrow> path" where
  "cache_dir_for sys e =
     (case nonempty (e ''XDG_CACHE_HOME'') of
        Some xdg \<Rightarrow> path_join [xdg, ''clearance'']
      | None \<Rightarrow>
          (case nonempty (e ''HOME'') of
             Some home \<Rightarrow> path_join [home, ''.cache'', ''clearance'']
           | None \<Rightarrow> path_join [os_home sys, ''.cache'', ''clearance'']))"

subsection \<open>The pid file\<close>

definition read_pid_file :: "pid_file \<Rightarrow> int option launch_result" where
  "read_pid_file f =
     (case f of
        NoFile \<Rightarrow> Ok None
      | Unreadable msg \<Rightarrow> Failed (OsError msg)
      | FileText raw \<Rightarrow>
          (let t = trim raw
           in if \<not> (t \<noteq> [] \<and> list_all is_digit t) then Ok None
              else (case integer_value (to_number t) of
                      None \<Rightarrow> Ok None
                    | Some pid \<Rightarrow>
                        if pid \<le> 9007199254740991 \<and> 0 < pid then Ok (Some pid) else Ok None)))"

definition pid_text :: "int \<Rightarrow> string" where
  "pid_text pid = show_int pid @ [LF]"

subsection \<open>ensureClearance\<close>

record launch_input =
  in_cache_dir :: "path option"
  in_env :: "env option"
  in_overrides :: "env option"
  in_interval :: "int option"
  in_timeout :: "int option"

definition or_else :: "'a option \<Rightarrow> 'a \<Rightarrow> 'a" where
  "or_else x d = (case x of None \<Rightarrow> d | Some v \<Rightarrow> v)"

datatype ensured = AlreadyRunning | Started int path path

definition ensure_clearance ::
  "to_ascii \<Rightarrow> (path \<Rightarrow> string + string) \<Rightarrow> env \<Rightarrow> os \<Rightarrow> launch_input \<Rightarrow> launcher \<Rightarrow>
   launcher \<times> ensured launch_result" where
  "ensure_clearance to_ascii read_file process sys input w =
     (let e = proxy_env process (in_env input) (in_overrides input) in
      case probe w of (up, w1) \<Rightarrow>
        if up then (log_line (''Clearance already listening on '' @ clearance_url) w1, Ok AlreadyRunning)
        else (case resolve_allowlist to_ascii read_file e of
          Inl err \<Rightarrow> (w1, Failed (AllowlistRejected err))
        | Inr hosts \<Rightarrow>
            let dir = or_else (in_cache_dir input) (cache_dir_for sys e);
                log_path = path_join [dir, ''clearance.log''];
                pid_path = path_join [dir, ''clearance.pid'']
            in case os_mkdir sys of
                 Some msg \<Rightarrow> (w1, Failed (OsError msg))
               | None \<Rightarrow>
                   (case os_spawn sys of
                      Inl msg \<Rightarrow> (w1, Failed (OsError msg))
                    | Inr pid \<Rightarrow>
                        let w2 = w1\<lparr>spawned := spawned w1 @ [child_env e]\<rparr> in
                        (case os_write sys of
                           Some msg \<Rightarrow> (w2, Failed (OsError msg))
                         | None \<Rightarrow>
                             (case poll_until True (or_else (in_interval input) poll_interval)
                                     (or_else (in_timeout input) start_timeout)
                                     (w2\<lparr>pidfiles := (pidfiles w2)(pid_path := FileText (pid_text pid))\<rparr>) of
                                (w3, Failed err) \<Rightarrow> (w3, Failed err)
                              | (w3, Ok ready) \<Rightarrow>
                                  if \<not> ready then (w3, Failed DidNotStart)
                                  else (log_line (''Started clearance on '' @ clearance_url @ '' (pid '' @
                                          show_int pid @ ''); logs: '' @ log_path) w3,
                                        Ok (Started pid log_path pid_path)))))))"

subsection \<open>stopClearance, statusClearance, restartClearance\<close>

text \<open>The overrides of the environment take no part in where these commands look.\<close>

definition lifecycle_pid_path :: "env \<Rightarrow> os \<Rightarrow> launch_input \<Rightarrow> path" where
  "lifecycle_pid_path process sys input =
     (let e = or_else (in_env input) (default_proxy_env process)
      in path_join [or_else (in_cache_dir input) (cache_dir_for sys e), ''clearance.pid''])"

datatype stopped = NotRunning "int option" | Stopped int

definition remove_pidfile :: "path \<Rightarrow> launcher \<Rightarrow> launcher" where
  "remove_pidfile p w = w\<lparr>pidfiles := (pidfiles w)(p := NoFile)\<rparr>"

definition stop_clearance ::
  "env \<Rightarrow> os \<Rightarrow> launch_input \<Rightarrow> launcher \<Rightarrow> launcher \<times> stopped launch_result" where
  "stop_clearance process sys input w =
     (let pid_path = lifecycle_pid_path process sys input in
      case read_pid_file (pidfiles w pid_path) of
        Failed err \<Rightarrow> (w, Failed err)
      | Ok None \<Rightarrow>
          (log_line (''Clearance is not running (no pidfile at '' @ pid_path @ '')'') w, Ok (NotRunning None))
      | Ok (Some pid) \<Rightarrow>
          let w1 = w\<lparr>signals := signals w @ [pid]\<rparr> in
          (case os_kill sys pid of
             KillFailed msg \<Rightarrow> (w1, Failed (OsError msg))
           | NoSuchProcess \<Rightarrow>
               (log_line (''Clearance (pid '' @ show_int pid @
                  '') was already gone; removed stale pidfile '' @ pid_path) (remove_pidfile pid_path w1),
                Ok (NotRunning (Some pid)))
           | Signalled \<Rightarrow>
               (case poll_until False (or_else (in_interval input) poll_interval)
                       (or_else (in_timeout input) start_timeout) w1 of
                  (w2, Failed err) \<Rightarrow> (w2, Failed err)
                | (w2, Ok down) \<Rightarrow>
                    if \<not> down then (w2, Failed (DidNotStop pid))
                    else (log_line (''Stopped clearance (pid '' @ show_int pid @ '')'')
                            (remove_pidfile pid_path w2), Ok (Stopped pid)))))"

datatype run_status = Running "int option" | Down

definition status_clearance ::
  "env \<Rightarrow> os \<Rightarrow> launch_input \<Rightarrow> launcher \<Rightarrow> launcher \<times> run_status launch_result" where
  "status_clearance process sys input w =
     (case read_pid_file (pidfiles w (lifecycle_pid_path process sys input)) of
        Failed err \<Rightarrow> (w, Failed err)
      | Ok pid \<Rightarrow>
          (case probe w of (up, w1) \<Rightarrow>
             if up
             then (log_line (case pid of
                       None \<Rightarrow> ''Clearance is running on '' @ clearance_url
                     | Some p \<Rightarrow> ''Clearance is running (pid '' @ show_int p @ '') on '' @ clearance_url) w1,
                   Ok (Running pid))
             else (log_line (''Clearance is not running on '' @ clearance_url) w1, Ok Down)))"

definition restart_clearance ::
  "to_ascii \<Rightarrow> (path \<Rightarrow> string + string) \<Rightarrow> env \<Rightarrow> os \<Rightarrow> launch_input \<Rightarrow> launcher \<Rightarrow>
   launcher \<times> ensured launch_result" where
  "restart_clearance to_ascii read_file process sys input w =
     (case stop_clearance process sys input w of
        (w1, Failed err) \<Rightarrow> (w1, Failed err)
      | (w1, Ok _) \<Rightarrow> ensure_clearance to_ascii read_file process sys input w1)"

subsection \<open>The command line\<close>

datatype clearance_command = Restart | Start | Status | Stop

definition clearance_commands :: "(string \<times> clearance_command) list" where
  "clearance_commands = [(''restart'', Restart), (''start'', Start), (''status'', Status), (''stop'', Stop)]"

definition parse_clearance_command :: "string list \<Rightarrow> clearance_command launch_result" where
  "parse_clearance_command args =
     (case args of
        [] \<Rightarrow> Ok Start
      | first # _ \<Rightarrow>
          (case map_of clearance_commands first of
             Some c \<Rightarrow> Ok c
           | None \<Rightarrow> Failed (UnknownCommand first)))"

definition exit_of :: "launcher \<times> 'a launch_result \<Rightarrow> launcher \<times> int" where
  "exit_of r = (fst r, case snd r of Failed _ \<Rightarrow> 2 | Ok _ \<Rightarrow> 0)"

definition ensure_cli ::
  "to_ascii \<Rightarrow> (path \<Rightarrow> string + string) \<Rightarrow> env \<Rightarrow> os \<Rightarrow> string list \<Rightarrow> launcher \<Rightarrow> launcher \<times> int" where
  "ensure_cli to_ascii read_file process sys args w =
     (let input = \<lparr>in_cache_dir = None, in_env = None, in_overrides = None, in_interval = None,
                   in_timeout = None\<rparr> in
      case parse_clearance_command args of
        Failed _ \<Rightarrow> (w, 2)
      | Ok Stop \<Rightarrow> exit_of (stop_clearance process sys input w)
      | Ok Restart \<Rightarrow> exit_of (restart_clearance to_ascii read_file process sys input w)
      | Ok Status \<Rightarrow>
          (case status_clearance process sys input w of
             (w1, Failed _) \<Rightarrow> (w1, 2) | (w1, Ok Down) \<Rightarrow> (w1, 1) | (w1, Ok (Running _)) \<Rightarrow> (w1, 0))
      | Ok Start \<Rightarrow> exit_of (ensure_clearance to_ascii read_file process sys input w))"

subsection \<open>Polling\<close>

text \<open>Polling succeeds when one of the next probes gives the wanted answer; it then has asked
  up to that probe and slept between probes only.\<close>

lemma poll_found:
  "poll n wanted interval w = (b, w') \<Longrightarrow>
     (\<exists>k. probes w' = probes w + k \<and> k \<le> n \<and> length (sleeps w') \<le> length (sleeps w) + n \<and>
        (\<forall>i. i + 1 < k \<longrightarrow> listening w (probes w + i) \<noteq> wanted) \<and>
        (b \<longrightarrow> 0 < k \<and> listening w (probes w + k - 1) = wanted) \<and>
        (\<not> b \<longrightarrow> k = n \<and> (\<forall>i < n. listening w (probes w + i) \<noteq> wanted))) \<and>
     pidfiles w' = pidfiles w \<and> signals w' = signals w \<and> spawned w' = spawned w \<and>
     listening w' = listening w \<and> logged w' = logged w"
proof (induction n arbitrary: w)
  case (Suc n)
  show ?case
  proof (cases "listening w (probes w) = wanted")
    case True
    with Suc.prems show ?thesis
      by (auto simp: probe_def intro!: exI [of _ 1])
  next
    case False
    let ?w1 = "w\<lparr>probes := Suc (probes w), sleeps := sleeps w @ [interval]\<rparr>"
    have "poll n wanted interval ?w1 = (b, w')"
      using Suc.prems False by (simp add: probe_def)
    from Suc.IH [OF this] obtain k where k: "probes w' = Suc (probes w) + k" "k \<le> n"
      "length (sleeps w') \<le> length (sleeps w) + 1 + n"
      "\<forall>i. i + 1 < k \<longrightarrow> listening w (Suc (probes w) + i) \<noteq> wanted"
      "b \<longrightarrow> 0 < k \<and> listening w (Suc (probes w) + k - 1) = wanted"
      "\<not> b \<longrightarrow> k = n \<and> (\<forall>i < n. listening w (Suc (probes w) + i) \<noteq> wanted)"
      "pidfiles w' = pidfiles w \<and> signals w' = signals w \<and> spawned w' = spawned w \<and>
       listening w' = listening w \<and> logged w' = logged w" by auto
    have shift: "listening w (probes w + i) \<noteq> wanted"
      if "i = 0 \<or> (\<exists>j. i = Suc j \<and> listening w (Suc (probes w) + j) \<noteq> wanted)" for i
      using that False by auto
    show ?thesis
    proof (intro conjI exI [of _ "Suc k"])
      show "\<forall>i. i + 1 < Suc k \<longrightarrow> listening w (probes w + i) \<noteq> wanted"
        using k(4) shift by (metis Suc_eq_plus1 Suc_less_eq not0_implies_Suc)
      show "b \<longrightarrow> 0 < Suc k \<and> listening w (probes w + Suc k - 1) = wanted"
        using k(5) by auto
      show "\<not> b \<longrightarrow> Suc k = Suc n \<and> (\<forall>i<Suc n. listening w (probes w + i) \<noteq> wanted)"
        using k(6) False by (auto simp: less_Suc_eq_0_disj)
    qed (use k in auto)
  qed
qed simp

lemma read_pid_text:
  assumes "0 < pid" and "pid < 2 ^ 53"
  shows "read_pid_file (FileText (pid_text pid)) = Ok (Some pid)"
proof -
  have digits: "list_all is_digit (show_nat pid)" "show_nat pid \<noteq> []"
    using show_nat_digits [of pid] show_nat_ne assms(1) by auto
  have "trim_start (show_nat pid @ [LF]) = show_nat pid @ [LF]"
    using digits is_digit_not_space by (cases "show_nat pid") (auto simp: trim_start_def)
  moreover have "trim_end (show_nat pid @ [LF]) = trim_end (show_nat pid)"
    by (rule trim_end_append_space) (simp add: LF_def is_space_def code_def)
  moreover have "trim_end (show_nat pid) = show_nat pid"
    using trim_digits [OF digits(1)] digits is_digit_not_space
    by (intro trim_end_id) (auto simp: list_all_iff)
  ultimately have "trim (pid_text pid) = show_nat pid"
    using assms(1) by (simp add: trim_def pid_text_def show_int_def)
  moreover have "integer_value (to_number (show_nat pid)) = Some pid"
    using assms by (intro to_number_show_nat) auto
  ultimately show ?thesis
    using digits assms by (simp add: read_pid_file_def Let_def)
qed

lemma poll_until_ok:
  assumes "poll_until wanted interval timeout w = (w', Ok b)"
  shows "pidfiles w' = pidfiles w" "signals w' = signals w" "spawned w' = spawned w"
    "listening w' = listening w" "probes w' \<le> probes w + attempts timeout interval"
    and "b \<Longrightarrow> listening w (probes w' - 1) = wanted"
  using poll_found [of "attempts timeout interval" wanted interval w b w'] assms
  by (auto simp: poll_until_def split: if_splits prod.splits)

lemma poll_until_failed: "poll_until wanted interval timeout w = (w', Failed e) \<Longrightarrow> w' = w"
  by (auto simp: poll_until_def split: if_splits prod.splits)

text \<open>C26: When the launcher reports that it started the proxy, it spawned exactly one process,
  on the fixed host and port and with nothing signalled; the port was closed before and has
  answered since, within the bounded number of probes; and the pid file reads back as the
  process it spawned.\<close>

theorem ensure_starts_the_proxy:
  assumes "ensure_clearance to_ascii read_file process sys input w = (w', Ok (Started pid log_path pid_path))"
    and "0 < pid" and "pid < 2 ^ 53"
  shows "os_spawn sys = Inr pid \<and> read_pid_file (pidfiles w' pid_path) = Ok (Some pid) \<and>
    \<not> listening w (probes w) \<and> listening w (probes w' - 1) \<and>
    probes w' \<le> probes w + 1 + attempts (or_else (in_timeout input) start_timeout)
      (or_else (in_interval input) poll_interval) \<and>
    spawned w' = spawned w @ [child_env (proxy_env process (in_env input) (in_overrides input))] \<and>
    signals w' = signals w"
proof -
  let ?interval = "or_else (in_interval input) poll_interval"
  let ?timeout = "or_else (in_timeout input) start_timeout"
  let ?child = "child_env (proxy_env process (in_env input) (in_overrides input))"
  obtain w2 w3 where run: "os_spawn sys = Inr pid" "\<not> listening w (probes w)"
    "w2 = w\<lparr>probes := Suc (probes w), spawned := spawned w @ [?child],
       pidfiles := (pidfiles w)(pid_path := FileText (pid_text pid))\<rparr>"
    "poll_until True ?interval ?timeout w2 = (w3, Ok True)"
    "pidfiles w' = pidfiles w3" "probes w' = probes w3" "spawned w' = spawned w3" "signals w' = signals w3"
    using assms(1) unfolding ensure_clearance_def Let_def probe_def log_line_def
    by (auto split: if_splits sum.splits option.splits prod.splits launch_result.splits)
  note p = poll_until_ok [OF run(4)]
  show ?thesis
    using run(1,2,5-) p read_pid_text [OF assms(2,3)] unfolding run(3) by auto
qed

definition example_os :: os where
  "example_os = \<lparr>os_mkdir = None, os_spawn = Inr 4321, os_write = None, os_kill = (\<lambda>_. Signalled),
     os_home = ''/root''\<rparr>"

definition example_input :: launch_input where
  "example_input = \<lparr>in_cache_dir = None, in_env = None,
     in_overrides = Some [''XDG_CACHE_HOME'' \<mapsto> ''/tmp/x''], in_interval = None, in_timeout = None\<rparr>"

definition example_process_env :: env where
  "example_process_env = [''HOME'' \<mapsto> ''/home/u'', ''CLEARANCE_ALLOW_HOSTS'' \<mapsto> ''example.com'']"

text \<open>The port is closed for the first three probes and open from then on.\<close>

definition example_launcher :: launcher where
  "example_launcher =
     \<lparr>listening = (\<lambda>n. 3 \<le> n), probes = 0, sleeps = [], pidfiles = (\<lambda>_. NoFile), spawned = [],
      signals = [], logged = []\<rparr>"

definition example_ensure :: "launcher \<Rightarrow> launcher \<times> ensured launch_result" where
  "example_ensure = ensure_clearance (\<lambda>s. s) (\<lambda>p. Inl ''no file'') example_process_env example_os example_input"

lemma ensure_starts_the_proxy_witness:
  "read_pid_file (pidfiles (fst (example_ensure example_launcher)) ''/tmp/x/clearance/clearance.pid'') = Ok (Some 4321)"
proof -
  have "snd (example_ensure example_launcher) =
      Ok (Started 4321 ''/tmp/x/clearance/clearance.log'' ''/tmp/x/clearance/clearance.pid'')"
    by code_simp
  then obtain w' where "example_ensure example_launcher =
      (w', Ok (Started 4321 ''/tmp/x/clearance/clearance.log'' ''/tmp/x/clearance/clearance.pid''))"
    by (metis prod.collapse)
  from ensure_starts_the_proxy [OF this [unfolded example_ensure_def]] this show ?thesis by simp
qed

text \<open>C27: Stopping signals a process only when the pid file names one, reports it stopped only
  after the signal was sent and the port was seen closed, and removes the pid file only then or
  when the process was already gone; a failure leaves the pid file in place.\<close>

theorem stop_clearance_outcome:
  "let pid_path = lifecycle_pid_path process sys input in
   case stop_clearance process sys input w of
     (w', Ok (Stopped pid)) \<Rightarrow>
       read_pid_file (pidfiles w pid_path) = Ok (Some pid) \<and> os_kill sys pid = Signalled \<and>
       signals w' = signals w @ [pid] \<and> \<not> listening w (probes w' - 1) \<and>
       pidfiles w' = (pidfiles w)(pid_path := NoFile)
   | (w', Ok (NotRunning (Some pid))) \<Rightarrow>
       read_pid_file (pidfiles w pid_path) = Ok (Some pid) \<and> os_kill sys pid = NoSuchProcess \<and>
       pidfiles w' = (pidfiles w)(pid_path := NoFile)
   | (w', Ok (NotRunning None)) \<Rightarrow>
       read_pid_file (pidfiles w pid_path) = Ok None \<and> signals w' = signals w \<and> pidfiles w' = pidfiles w
   | (w', Failed e) \<Rightarrow> pidfiles w' = pidfiles w"
proof -
  let ?path = "lifecycle_pid_path process sys input"
  let ?w1 = "\<lambda>pid. w\<lparr>signals := signals w @ [pid]\<rparr>"
  consider (failed) e where "read_pid_file (pidfiles w ?path) = Failed e"
    | (none) "read_pid_file (pidfiles w ?path) = Ok None"
    | (some) pid where "read_pid_file (pidfiles w ?path) = Ok (Some pid)"
    by (metis launch_result.exhaust option.exhaust)
  then show ?thesis
  proof cases
    case (some pid)
    show ?thesis
    proof (cases "os_kill sys pid")
      case Signalled
      obtain w2 r where poll: "poll_until False (or_else (in_interval input) poll_interval)
          (or_else (in_timeout input) start_timeout) (?w1 pid) = (w2, r)"
        by fastforce
      show ?thesis
      proof (cases r)
        case (Failed e)
        note same = poll_until_failed [OF poll [unfolded Failed]]
        from same poll Failed some Signalled show ?thesis
          by (simp add: stop_clearance_def)
      next
        case (Ok down)
        note p = poll_until_ok [OF poll [unfolded Ok]]
        from p(1-4,6) poll Ok some Signalled show ?thesis
          by (cases down) (auto simp: stop_clearance_def log_line_def remove_pidfile_def)
      qed
    qed (use some in \<open>simp_all add: stop_clearance_def log_line_def remove_pidfile_def\<close>)
  qed (simp_all add: stop_clearance_def log_line_def)
qed

text \<open>Restarting with an overridden cache directory restarts nothing: the stop looks for
  the pid file where the environment without the overrides points, finds none, and the start
  then reports the old process as already running.\<close>

theorem restart_misses_overridden_cache:
  "snd (example_ensure example_launcher) =
     Ok (Started 4321 ''/tmp/x/clearance/clearance.log'' ''/tmp/x/clearance/clearance.pid'') \<and>
   (let r = restart_clearance (\<lambda>s. s) (\<lambda>p. Inl ''no file'') example_process_env example_os example_input
       (fst (example_ensure example_launcher))
    in signals (fst r) = [] \<and> snd r = Ok AlreadyRunning \<and> length (spawned (fst r)) = 1)"
  by code_simp

end
