(* ===== verification/CmuxIntegration.thy ===== *)
theory CmuxIntegration
  imports HostRule
begin

section \<open>clearance: the safehouse integration of cmux\<close>

text \<open>
  Models \<open>packages/clearance/src/safehouseCmux.ts\<close>: which directories and environment variables
  a sandboxed run is given, and which variables of the installed cmux wrapper nobody has
  reviewed. \<open>exists\<close> answers \<open>existsSync\<close>; reading a file gives \<open>None\<close> when it throws. The
  shell prelude is a constant text and is left out.
\<close>

definition env_pass :: "string list" where
  "env_pass =
     [''CMUX_BUNDLED_CLI_PATH'', ''CMUX_CLAUDE_HOOKS_DISABLED'', ''CMUX_CLAUDE_WRAPPER_SHIM'',
      ''CMUX_CLAUDE_WRAPPER_SHIM_ROOT'', ''CMUX_CUSTOM_CLAUDE_PATH'', ''CMUX_PANEL_ID'',
      ''CMUX_PRESERVE_CLAUDE_AUTH_SELECTION_ENV'', ''CMUX_PRESERVE_CLAUDE_AUTH_SELECTION_ENV_KEYS'',
      ''CMUX_SOCKET_PATH'', ''CMUX_SUPPRESS_SUBAGENT_NOTIFICATIONS'', ''CMUX_SURFACE_ID'',
      ''CMUX_TAB_ID'', ''CMUX_WORKSPACE_ID'']"

definition wrapper_local_names :: "string list" where
  "wrapper_local_names =
     [''CMUX_AGENT_LAUNCH_ARGV_B64'', ''CMUX_AGENT_LAUNCH_CWD'', ''CMUX_AGENT_LAUNCH_EXECUTABLE'',
      ''CMUX_AGENT_LAUNCH_KIND'', ''CMUX_AGENT_RESTORE_LAUNCH'', ''CMUX_AGENT_RESUME_LAUNCH'',
      ''CMUX_BASE_SETTINGS'', ''CMUX_CLAUDE_HOOK_CMUX_BIN'', ''CMUX_CLAUDE_PID'',
      ''CMUX_CLAUDE_TEAMS_CMUX_BIN'', ''CMUX_CLAUDE_TEAMS_WRAPPER_LAUNCH'', ''CMUX_FILTERED_ARGS'',
      ''CMUX_MERGED_SETTINGS'', ''CMUX_ORIGINAL_NODE_OPTIONS'', ''CMUX_ORIGINAL_NODE_OPTIONS_PRESENT'',
      ''CMUX_USER_SETTINGS'', ''CMUX_USER_SETTINGS_B64'']"

record cmux_integration =
  cmux_add_dirs :: "path list"
  cmux_add_dirs_read_only :: "path list"
  cmux_env_pass :: "string list"
  cmux_is_active :: bool
  cmux_unreviewed :: "string list"

subsection \<open>Directories\<close>

definition normalize_absolute_path :: "string option \<Rightarrow> path option" where
  "normalize_absolute_path value =
     (case value of
        None \<Rightarrow> None
      | Some v \<Rightarrow> if length v = 0 \<or> \<not> is_absolute v then None else Some v)"

definition home_path :: "string list \<Rightarrow> env \<Rightarrow> path option" where
  "home_path parts e =
     map_option (\<lambda>home. path_join (home # parts)) (normalize_absolute_path (e ''HOME''))"

definition home_hooks_dir :: "env \<Rightarrow> path option" where
  "home_hooks_dir = home_path [''.cmux'', ''hooks'']"

definition home_sentry_cache_dir :: "env \<Rightarrow> path option" where
  "home_sentry_cache_dir = home_path [''Library'', ''Caches'', ''io.sentry'']"

definition home_state_dir :: "env \<Rightarrow> path option" where
  "home_state_dir = home_path [''.local'', ''state'', ''cmux'']"

definition cmux_writable_dirs :: "(path \<Rightarrow> bool) \<Rightarrow> env \<Rightarrow> path list" where
  "cmux_writable_dirs exists e =
     (case home_sentry_cache_dir e of
        None \<Rightarrow> []
      | Some d \<Rightarrow> if \<not> exists d then [] else [d])"

definition cmux_read_only_dirs :: "(path \<Rightarrow> bool) \<Rightarrow> env \<Rightarrow> path list" where
  "cmux_read_only_dirs exists e =
     (let state_dir = (case normalize_absolute_path (e ''XDG_STATE_HOME'') of
                         None \<Rightarrow> home_state_dir e
                       | Some xdg \<Rightarrow> Some (path_join [xdg, ''cmux'']));
          hooks_dir = home_hooks_dir e;
          socket = normalize_absolute_path (e ''CMUX_SOCKET_PATH'')
      in set_of_list
           ([''/Applications/cmux.app''] @
            (case state_dir of None \<Rightarrow> [] | Some d \<Rightarrow> [d]) @
            (case hooks_dir of None \<Rightarrow> [] | Some d \<Rightarrow> if \<not> exists d then [] else [d]) @
            (case socket of None \<Rightarrow> [] | Some s \<Rightarrow> [dir_name s])))"

definition cmux_is_active_in :: "env \<Rightarrow> bool" where
  "cmux_is_active_in e \<longleftrightarrow> e ''CMUX_SURFACE_ID'' \<noteq> None \<or> e ''CMUX_CLAUDE_WRAPPER_SHIM'' \<noteq> None"

subsection \<open>Unreviewed names\<close>

definition default_wrapper_path :: path where
  "default_wrapper_path = ''/Applications/cmux.app/Contents/Resources/bin/cmux-claude-wrapper''"

definition wrapper_candidates :: "env \<Rightarrow> path list" where
  "wrapper_candidates e =
     (case e ''CMUX_BUNDLED_CLI_PATH'' of
        None \<Rightarrow> [default_wrapper_path]
      | Some p \<Rightarrow> set_of_list [path_join [dir_name p, ''cmux-claude-wrapper''], default_wrapper_path])"

fun first_readable :: "(path \<Rightarrow> string option) \<Rightarrow> path list \<Rightarrow> string option" where
  "first_readable read [] = None"
| "first_readable read (p # ps) =
     (case read p of Some s \<Rightarrow> Some s | None \<Rightarrow> first_readable read ps)"

text \<open>\<open>source.match(/CMUX_[A-Za-z0-9_]+/g)\<close>: the matches from left to right, without overlap.\<close>

definition is_name_char :: "char \<Rightarrow> bool" where
  "is_name_char c \<longleftrightarrow>
     is_digit c \<or> 65 \<le> code c \<and> code c \<le> 90 \<or> 97 \<le> code c \<and> code c \<le> 122 \<or> c = CHR ''_''"

function cmux_names :: "string \<Rightarrow> string list" where
  "cmux_names s =
     (case s of
        [] \<Rightarrow> []
      | _ # cs \<Rightarrow>
          if prefix ''CMUX_'' s \<and> takeWhile is_name_char (drop 5 s) \<noteq> []
          then (''CMUX_'' @ takeWhile is_name_char (drop 5 s)) # cmux_names (dropWhile is_name_char (drop 5 s))
          else cmux_names cs)"
  by pat_completeness auto
termination
proof (relation "measure length")
  fix s and c :: char and cs
  assume "s = c # cs"
  have "length (dropWhile is_name_char (drop 5 s)) \<le> length (drop 5 s)"
    by (rule length_dropWhile_le)
  with \<open>s = c # cs\<close> show "(dropWhile is_name_char (drop 5 s), s) \<in> measure length" by simp
qed auto

declare cmux_names.simps [simp del]

definition unreviewed_names :: "(path \<Rightarrow> string option) \<Rightarrow> env \<Rightarrow> string list" where
  "unreviewed_names read e =
     (case first_readable read (wrapper_candidates e) of
        None \<Rightarrow> []
      | Some source \<Rightarrow>
          sort (filter (\<lambda>n. n \<notin> set (env_pass @ wrapper_local_names)) (set_of_list (cmux_names source))))"

definition resolve_cmux_integration ::
  "(path \<Rightarrow> bool) \<Rightarrow> (path \<Rightarrow> string option) \<Rightarrow> env \<Rightarrow> cmux_integration" where
  "resolve_cmux_integration exists read e =
     \<lparr>cmux_add_dirs = cmux_writable_dirs exists e,
      cmux_add_dirs_read_only = cmux_read_only_dirs exists e,
      cmux_env_pass = env_pass,
      cmux_is_active = cmux_is_active_in e,
      cmux_unreviewed = unreviewed_names read e\<rparr>"

definition cmux_warning_lines :: "string \<Rightarrow> string list \<Rightarrow> string list" where
  "cmux_warning_lines command names =
     (if length names = 0 then []
      else [command @ '': cmux wrapper references unreviewed env vars: '' @ join '', '' names,
            command @ '': update SAFEHOUSE_CMUX_ENV_PASS or '' @
              ''SAFEHOUSE_CMUX_WRAPPER_LOCAL_ENV_NAMES after reviewing them.''])"

subsection \<open>Every reference is reviewed or reported\<close>

text \<open>A reference to a variable: the prefix, and name characters that run up to the end of the
  text or to another character.\<close>

definition mentions :: "string \<Rightarrow> string \<Rightarrow> bool" where
  "mentions source name \<longleftrightarrow>
     (\<exists>u w v. source = u @ ''CMUX_'' @ w @ v \<and> name = ''CMUX_'' @ w \<and> w \<noteq> [] \<and>
        list_all is_name_char w \<and> (v = [] \<or> \<not> is_name_char (hd v)) \<and>
        (u = [] \<or> \<not> is_name_char (last u)))"

lemma cmux_names_form:
  "n \<in> set (cmux_names s) \<Longrightarrow> \<exists>w. n = ''CMUX_'' @ w \<and> w \<noteq> [] \<and> list_all is_name_char w \<and> sublist n s"
proof (induction s rule: cmux_names.induct)
  case (1 s)
  show ?case
  proof (cases s)
    case Nil
    with "1.prems" show ?thesis by (simp add: cmux_names.simps)
  next
    case (Cons c cs)
    let ?w = "takeWhile is_name_char (drop 5 s)"
    let ?rest = "dropWhile is_name_char (drop 5 s)"
    show ?thesis
    proof (cases "prefix ''CMUX_'' s \<and> ?w \<noteq> []")
      case True
      then have s: "s = ''CMUX_'' @ ?w @ ?rest"
        by (auto simp: prefix_def)
      have names: "cmux_names s = (''CMUX_'' @ ?w) # cmux_names ?rest"
        using True Cons by (subst cmux_names.simps) simp
      show ?thesis
      proof (cases "n = ''CMUX_'' @ ?w")
        case new: True
        have "list_all is_name_char ?w" by (auto simp: list_all_iff dest: set_takeWhileD)
        moreover have "sublist n s" using new s by (metis append_Nil append_assoc sublist_appendI)
        ultimately show ?thesis using True new by blast
      next
        case False
        with "1.prems" names "1.IH"(1) [OF Cons True] have
          "\<exists>w. n = ''CMUX_'' @ w \<and> w \<noteq> [] \<and> list_all is_name_char w \<and> sublist n ?rest" by auto
        moreover have "sublist ?rest s" using s by (metis append_assoc suffix_imp_sublist suffixI)
        ultimately show ?thesis using sublist_order.order_trans by blast
      qed
    next
      case False
      have names: "cmux_names s = cmux_names cs"
        using False Cons by (subst cmux_names.simps) auto
      with "1.prems" "1.IH"(2) [OF Cons False] have
        "\<exists>w. n = ''CMUX_'' @ w \<and> w \<noteq> [] \<and> list_all is_name_char w \<and> sublist n cs" by auto
      with Cons show ?thesis by (auto simp: sublist_Cons_right)
    qed
  qed
qed

lemma mentioned_name_found: "mentions s n \<Longrightarrow> n \<in> set (cmux_names s)"
proof (induction s rule: cmux_names.induct)
  case (1 s)
  from "1.prems" obtain u w v where m: "s = u @ ''CMUX_'' @ w @ v" "n = ''CMUX_'' @ w" "w \<noteq> []"
    "list_all is_name_char w" "v = [] \<or> \<not> is_name_char (hd v)" "u = [] \<or> \<not> is_name_char (last u)"
    unfolding mentions_def by blast
  have "s \<noteq> []" using m(1) by simp
  then obtain c cs where s: "s = c # cs" by (meson neq_Nil_conv)
  have rest: "mentions t n" if "t = u' @ ''CMUX_'' @ w @ v" "u' = [] \<or> last u' = last u \<and> u \<noteq> []" for t u'
    unfolding mentions_def
  proof (intro exI conjI)
    show "t = u' @ ''CMUX_'' @ w @ v" by (fact that(1))
    show "n = ''CMUX_'' @ w" "w \<noteq> []" "list_all is_name_char w" "v = [] \<or> \<not> is_name_char (hd v)"
      by (fact m)+
    show "u' = [] \<or> \<not> is_name_char (last u')" using m(6) that(2) by auto
  qed
  let ?w = "takeWhile is_name_char (drop 5 s)"
  let ?rest = "dropWhile is_name_char (drop 5 s)"
  show ?case
  proof (cases "prefix ''CMUX_'' s \<and> ?w \<noteq> []")
    case True
    then have tok: "s = (''CMUX_'' @ ?w) @ ?rest"
      by (auto simp: prefix_def)
    have names: "cmux_names s = (''CMUX_'' @ ?w) # cmux_names ?rest"
      using True s by (subst cmux_names.simps) simp
    show ?thesis
    proof (cases "u = []")
      case True
      have "takeWhile is_name_char (w @ v) = w"
        using m(4,5) by (subst takeWhile_append2) (auto simp: list_all_iff takeWhile_eq_Nil_iff)
      with True m names show ?thesis by simp
    next
      case False
      have chars: "list_all is_name_char (''CMUX_'' @ ?w)"
      proof -
        have "list_all is_name_char ''CMUX_''" by code_simp
        moreover have "list_all is_name_char ?w" by (auto simp: list_all_iff dest: set_takeWhileD)
        ultimately show ?thesis by simp
      qed
      have "\<not> prefix u (''CMUX_'' @ ?w)"
      proof
        assume "prefix u (''CMUX_'' @ ?w)"
        then have "last u \<in> set (''CMUX_'' @ ?w)"
          using False set_mono_prefix last_in_set by blast
        with chars m(6) False show False unfolding list_all_iff by blast
      qed
      moreover have "prefix u s" by (rule prefixI [OF m(1)])
      moreover have "prefix (''CMUX_'' @ ?w) s" by (rule prefixI [OF tok])
      ultimately have "prefix (''CMUX_'' @ ?w) u" using prefix_same_cases by blast
      then obtain u' where u': "u = (''CMUX_'' @ ?w) @ u'" unfolding prefix_def by blast
      with \<open>\<not> prefix u (''CMUX_'' @ ?w)\<close> have "u' \<noteq> []" by auto
      have cancel: "x = y" if "s = tk @ x" "s = (tk @ u') @ z" "y = u' @ z" for tk x y z
        using that by simp
      have "?rest = u' @ ''CMUX_'' @ w @ v"
        by (rule cancel [OF tok m(1) [unfolded u'] refl])
      with u' \<open>u' \<noteq> []\<close> have "mentions ?rest n" by (intro rest) auto
      with "1.IH"(1) [OF s \<open>prefix ''CMUX_'' s \<and> ?w \<noteq> []\<close>] names show ?thesis by simp
    qed
  next
    case False
    have "u \<noteq> []"
    proof
      assume "u = []"
      moreover have "takeWhile is_name_char (w @ v) \<noteq> []"
        using m(3,4) by (cases w) auto
      ultimately show False using False m(1) by simp
    qed
    with m(1) s obtain u' where u': "u = c # u'" by (metis Cons_eq_append_conv)
    with m(1) s have "cs = u' @ ''CMUX_'' @ w @ v" by simp
    then have "mentions cs n" using u' by (intro rest) auto
    moreover have "cmux_names s = cmux_names cs"
      using False s by (subst cmux_names.simps) auto
    ultimately show ?thesis using "1.IH"(2) [OF s False] by simp
  qed
qed

text \<open>Of the wrapper that is read, every variable it mentions is reviewed or reported, and
  what is reported occurs in it and is not reviewed; the report is sorted, without repetition.\<close>

theorem unreviewed_names_exact:
  "case first_readable read (wrapper_candidates e) of
     None \<Rightarrow> unreviewed_names read e = []
   | Some source \<Rightarrow>
       {n. mentions source n} \<subseteq> set env_pass \<union> set wrapper_local_names \<union> set (unreviewed_names read e) \<and>
       set (unreviewed_names read e) \<subseteq>
         {n. prefix ''CMUX_'' n \<and> sublist n source} - set env_pass - set wrapper_local_names \<and>
       sorted (unreviewed_names read e) \<and> distinct (unreviewed_names read e)"
proof (cases "first_readable read (wrapper_candidates e)")
  case (Some source)
  then have names: "set (unreviewed_names read e) =
      set (cmux_names source) - set env_pass - set wrapper_local_names"
    by (auto simp: unreviewed_names_def)
  have "{n. mentions source n} \<subseteq> set (cmux_names source)"
    using mentioned_name_found by blast
  moreover have "set (cmux_names source) \<subseteq> {n. prefix ''CMUX_'' n \<and> sublist n source}"
    using cmux_names_form [of _ source] by force
  ultimately show ?thesis
    unfolding Some option.case names
    by (auto simp: unreviewed_names_def Some simp del: set_append)
qed (simp add: unreviewed_names_def)

end
