(* ===== verification/Json.thy ===== *)
theory Json
  imports JsNumber
begin

section \<open>JavaScript values, dates and JSON\<close>

text \<open>
  The values the packages build, log, hash and send, and what the runtime does with them:
  \<open>Date.prototype.toISOString\<close>, \<open>JSON.stringify\<close> and \<open>JSON.parse\<close>, and the object spread. A
  number is an integer, or, when it is none, known by its text. A date is a count of milliseconds,
  \<open>None\<close> for an invalid one. An \<open>Error\<close> is its message and its own further properties. Property
  names that look like array indices are listed in insertion order here.
\<close>

datatype js =
    JNull
  | JUndefined
  | JBool bool
  | JInt int
  | JReal string
  | JStr string
  | JDate "int option"
  | JError string "(string \<times> js) list"
  | JArr "js list"
  | JObj "(string \<times> js) list"

type_synonym js_object = "(string, js) js_map"

text \<open>\<open>{...a, ...b}\<close>: the later properties win, in the places of the earlier ones.\<close>

definition spread :: "js_object \<Rightarrow> js_object \<Rightarrow> js_object" where
  "spread a b = foldl (\<lambda>m (k, v). map_set k v m) a b"

lemma spread_simps [simp]:
  "spread a [] = a" "spread a ((k, v) # b) = spread (map_set k v a) b"
  by (simp_all add: spread_def)

lemma map_of_spread:
  "map_of (spread a b) k = (case map_of (rev b) k of None \<Rightarrow> map_of a k | Some v \<Rightarrow> Some v)"
  by (induction b arbitrary: a) (auto simp: map_add_def split: option.splits)

lemma spread_append: "spread a (b @ c) = spread (spread a b) c"
  by (simp add: spread_def)

subsection \<open>Dates\<close>

text \<open>Days since 1970-01-01 as a date of the proleptic Gregorian calendar, and back.\<close>

definition civil_of_days :: "int \<Rightarrow> int \<times> int \<times> int" where
  "civil_of_days days =
     (let z = days + 719468;
          era = z div 146097;
          doe = z mod 146097;
          yoe = (doe - doe div 1460 + doe div 36524 - doe div 146096) div 365;
          doy = doe - (365 * yoe + yoe div 4 - yoe div 100);
          mp = (5 * doy + 2) div 153;
          d = doy - (153 * mp + 2) div 5 + 1;
          m = (if mp < 10 then mp + 3 else mp - 9);
          y = yoe + era * 400
      in (if m \<le> 2 then y + 1 else y, m, d))"

definition days_of_civil :: "int \<Rightarrow> int \<Rightarrow> int \<Rightarrow> int" where
  "days_of_civil y m d =
     (let y' = (if m \<le> 2 then y - 1 else y);
          era = y' div 400;
          yoe = y' mod 400;
          doy = (153 * (if 2 < m then m - 3 else m + 9) + 2) div 5 + d - 1;
          doe = yoe * 365 + yoe div 4 - yoe div 100 + doy
      in era * 146097 + doe - 719468)"

definition pad :: "nat \<Rightarrow> int \<Rightarrow> string" where
  "pad k n = (let s = show_nat n in replicate (k - length s) CHR ''0'' @ s)"

definition iso_year :: "int \<Rightarrow> string" where
  "iso_year y =
     (if 0 \<le> y \<and> y \<le> 9999 then pad 4 y
      else (if y < 0 then CHR ''-'' else CHR ''+'') # pad 6 (if y < 0 then - y else y))"

definition iso_string :: "int \<Rightarrow> string" where
  "iso_string t =
     (let day = t div 86400000; ms = t mod 86400000 in
      case civil_of_days day of (y, m, d) \<Rightarrow>
        iso_year y @ ''-'' @ pad 2 m @ ''-'' @ pad 2 d @ ''T'' @ pad 2 (ms div 3600000) @ '':'' @
        pad 2 (ms div 60000 mod 60) @ '':'' @ pad 2 (ms div 1000 mod 60) @ ''.'' @ pad 3 (ms mod 1000) @ ''Z'')"

text \<open>\<open>new Date(s)\<close> on the form \<open>toISOString\<close> prints for the years 0 to 9999. What other forms
  give is up to the implementation and a parameter.\<close>

definition days_in_month :: "int \<Rightarrow> int \<Rightarrow> int" where
  "days_in_month y m = days_of_civil (if m = 12 then y + 1 else y) (if m = 12 then 1 else m + 1) 1 - days_of_civil y m 1"

definition parse_iso :: "string \<Rightarrow> int option" where
  "parse_iso s =
     (let num = (\<lambda>i k. digits_value 10 (take k (drop i s)));
          y = num 0 4; m = num 5 2; d = num 8 2; h = num 11 2; mi = num 14 2; sec = num 17 2; ms = num 20 3
      in if length s = 24 \<and>
            list_all (\<lambda>i. is_digit (s ! i)) [0, 1, 2, 3, 5, 6, 8, 9, 11, 12, 14, 15, 17, 18, 20, 21, 22] \<and>
            s ! 4 = CHR ''-'' \<and> s ! 7 = CHR ''-'' \<and> s ! 10 = CHR ''T'' \<and> s ! 13 = CHR '':'' \<and>
            s ! 16 = CHR '':'' \<and> s ! 19 = CHR ''.'' \<and> s ! 23 = CHR ''Z'' \<and>
            1 \<le> m \<and> m \<le> 12 \<and> 1 \<le> d \<and> d \<le> days_in_month y m \<and> h \<le> 23 \<and> mi \<le> 59 \<and> sec \<le> 59
         then Some (days_of_civil y m d * 86400000 + h * 3600000 + mi * 60000 + sec * 1000 + ms)
         else None)"

definition parse_date :: "(string \<Rightarrow> int option) \<Rightarrow> string \<Rightarrow> int option" where
  "parse_date other s = (case parse_iso s of Some t \<Rightarrow> Some t | None \<Rightarrow> other s)"

subsection \<open>JSON.stringify\<close>

text \<open>What serialization makes of a value before it prints it: \<open>undefined\<close> properties are left
  out, \<open>undefined\<close> elements are \<open>null\<close>, dates are their ISO text, errors their own properties.
  \<open>None\<close>: the value itself is \<open>undefined\<close>.\<close>

fun clean :: "js \<Rightarrow> js option"
and clean_elements :: "js list \<Rightarrow> js list"
and clean_members :: "(string \<times> js) list \<Rightarrow> (string \<times> js) list" where
  "clean JUndefined = None"
| "clean (JDate d) = Some (case d of None \<Rightarrow> JNull | Some t \<Rightarrow> JStr (iso_string t))"
| "clean (JError m ps) = Some (JObj (clean_members ps))"
| "clean (JArr vs) = Some (JArr (clean_elements vs))"
| "clean (JObj ps) = Some (JObj (clean_members ps))"
| "clean JNull = Some JNull"
| "clean (JBool b) = Some (JBool b)"
| "clean (JInt n) = Some (JInt n)"
| "clean (JReal s) = Some (JReal s)"
| "clean (JStr s) = Some (JStr s)"
| "clean_elements [] = []"
| "clean_elements (v # vs) = (case clean v of None \<Rightarrow> JNull | Some w \<Rightarrow> w) # clean_elements vs"
| "clean_members [] = []"
| "clean_members ((k, v) # ps) =
     (case clean v of None \<Rightarrow> clean_members ps | Some w \<Rightarrow> (k, w) # clean_members ps)"

definition quote :: char where "quote = CHR 0x22"
definition backslash :: char where "backslash = CHR 0x5C"

definition hex_digit :: "nat \<Rightarrow> char" where
  "hex_digit n = char_of (if n < 10 then n + 48 else n + 87)"

definition escape_char :: "char \<Rightarrow> string" where
  "escape_char c =
     (let n = code c in
      if c = quote \<or> c = backslash then [backslash, c]
      else if n = 8 then [backslash, CHR ''b''] else if n = 9 then [backslash, CHR ''t'']
      else if n = 10 then [backslash, CHR ''n''] else if n = 12 then [backslash, CHR ''f'']
      else if n = 13 then [backslash, CHR ''r'']
      else if n < 32
      then [backslash, CHR ''u'', CHR ''0'', CHR ''0'', hex_digit (n div 16), hex_digit (n mod 16)]
      else [c])"

definition print_string :: "string \<Rightarrow> string" where
  "print_string s = quote # concat (map escape_char s) @ [quote]"

fun print_json :: "js \<Rightarrow> string"
and print_elements :: "js list \<Rightarrow> string"
and print_members :: "(string \<times> js) list \<Rightarrow> string" where
  "print_json JNull = ''null''"
| "print_json (JBool b) = (if b then ''true'' else ''false'')"
| "print_json (JInt n) = show_int n"
| "print_json (JReal s) = s"
| "print_json (JStr s) = print_string s"
| "print_json (JArr vs) = CHR ''['' # print_elements vs"
| "print_json (JObj ps) = CHR ''{'' # print_members ps"
| "print_json JUndefined = ''null''"
| "print_json (JDate d) = ''null''"
| "print_json (JError m ps) = ''null''"
| "print_elements [] = '']''"
| "print_elements (v # vs) = print_json v @ (if vs = [] then [] else '','') @ print_elements vs"
| "print_members [] = ''}''"
| "print_members ((k, v) # ps) =
     print_string k @ '':'' @ print_json v @ (if ps = [] then [] else '','') @ print_members ps"

definition stringify :: "js \<Rightarrow> string option" where
  "stringify v = map_option print_json (clean v)"

subsection \<open>JSON.parse\<close>

definition is_json_space :: "char \<Rightarrow> bool" where
  "is_json_space c \<longleftrightarrow> code c \<in> {9, 10, 13, 32}"

definition skip_space :: "string \<Rightarrow> string" where
  "skip_space s = dropWhile is_json_space s"

text \<open>One code unit of a string literal, plain or escaped. Escapes beyond the code units of the
  model are rejected.\<close>

definition hex_value :: "char \<Rightarrow> nat option" where
  "hex_value c = map_option nat (digit_value c)"

definition simple_escape :: "char \<Rightarrow> char option" where
  "simple_escape e =
     (if e = quote \<or> e = backslash \<or> e = CHR ''/'' then Some e
      else if e = CHR ''b'' then Some (char_of (8::nat)) else if e = CHR ''t'' then Some (char_of (9::nat))
      else if e = CHR ''n'' then Some (char_of (10::nat)) else if e = CHR ''f'' then Some (char_of (12::nat))
      else if e = CHR ''r'' then Some (char_of (13::nat)) else None)"

definition parse_hex :: "string \<Rightarrow> char option" where
  "parse_hex ds =
     (case map hex_value ds of
        [Some a, Some b, Some c, Some d] \<Rightarrow>
          if a = 0 \<and> b = 0 then Some (char_of (16 * c + d)) else None
      | _ \<Rightarrow> None)"

definition parse_char :: "string \<Rightarrow> (char \<times> string) option" where
  "parse_char s =
     (case s of
        [] \<Rightarrow> None
      | c # r \<Rightarrow>
          if c \<noteq> backslash then (if c = quote \<or> code c < 32 then None else Some (c, r))
          else (case r of
                  [] \<Rightarrow> None
                | e # t \<Rightarrow>
                    if e = CHR ''u''
                    then map_option (\<lambda>x. (x, drop 4 t)) (parse_hex (take 4 t))
                    else map_option (\<lambda>x. (x, t)) (simple_escape e)))"

function parse_chars :: "string \<Rightarrow> (string \<times> string) option" where
  "parse_chars s =
     (case s of
        [] \<Rightarrow> None
      | c # r \<Rightarrow>
          if c = quote then Some ([], r)
          else (case parse_char s of
                  None \<Rightarrow> None
                | Some (x, t) \<Rightarrow> map_option (\<lambda>(xs, u). (x # xs, u)) (parse_chars t)))"
  by pat_completeness auto
termination
  by (relation "measure length") (auto simp: parse_char_def split: if_splits list.splits option.splits)

declare parse_chars.simps [simp del]

definition is_number_char :: "char \<Rightarrow> bool" where
  "is_number_char c \<longleftrightarrow> is_digit c \<or> c \<in> set ''+-.eE''"

definition drop_sign :: "string \<Rightarrow> string" where
  "drop_sign s = (case s of c # r \<Rightarrow> if c = CHR ''-'' then r else s | [] \<Rightarrow> s)"

text \<open>The grammar of JSON numbers; \<open>Number\<close> reads what it admits.\<close>

definition is_json_number :: "string \<Rightarrow> bool" where
  "is_json_number s =
     (let s1 = drop_sign s;
          whole = takeWhile is_digit s1;
          r1 = dropWhile is_digit s1
      in whole \<noteq> [] \<and> (hd whole = CHR ''0'' \<longrightarrow> length whole = 1) \<and>
         (case r1 of
            [] \<Rightarrow> True
          | c # r \<Rightarrow>
              if c = CHR ''.''
              then takeWhile is_digit r \<noteq> [] \<and> parse_exponent (dropWhile is_digit r) \<noteq> None
              else parse_exponent r1 \<noteq> None))"

definition number_of_text :: "string \<Rightarrow> js" where
  "number_of_text s = (case integer_value (to_number s) of Some n \<Rightarrow> JInt n | None \<Rightarrow> JReal s)"

definition parse_literal :: "string \<Rightarrow> (js \<times> string) option" where
  "parse_literal s =
     (if prefix ''null'' s then Some (JNull, drop 4 s)
      else if prefix ''true'' s then Some (JBool True, drop 4 s)
      else if prefix ''false'' s then Some (JBool False, drop 5 s)
      else let t = takeWhile is_number_char s in
        if is_json_number t then Some (number_of_text t, dropWhile is_number_char s) else None)"

definition members_of :: "(string \<times> js) list \<Rightarrow> js" where
  "members_of ps = JObj (spread [] ps)"

text \<open>The parser counts down; twice the length of the text is enough for every value.\<close>

fun parse_value :: "nat \<Rightarrow> string \<Rightarrow> (js \<times> string) option"
and parse_elements :: "nat \<Rightarrow> string \<Rightarrow> (js list \<times> string) option"
and parse_members :: "nat \<Rightarrow> string \<Rightarrow> ((string \<times> js) list \<times> string) option" where
  "parse_value 0 s = None"
| "parse_value (Suc n) s =
     (case skip_space s of
        [] \<Rightarrow> None
      | c # r \<Rightarrow>
          if c = quote then map_option (\<lambda>(t, u). (JStr t, u)) (parse_chars r)
          else if c = CHR ''['' then
            (if starts_with (skip_space r) '']'' then Some (JArr [], drop 1 (skip_space r))
             else map_option (\<lambda>(vs, u). (JArr vs, u)) (parse_elements n r))
          else if c = CHR ''{'' then
            (if starts_with (skip_space r) ''}'' then Some (JObj [], drop 1 (skip_space r))
             else map_option (\<lambda>(ps, u). (members_of ps, u)) (parse_members n r))
          else parse_literal (c # r))"
| "parse_elements 0 s = None"
| "parse_elements (Suc n) s =
     (case parse_value n s of
        None \<Rightarrow> None
      | Some (v, u) \<Rightarrow>
          (case skip_space u of
             [] \<Rightarrow> None
           | c # r \<Rightarrow>
               if c = CHR '','' then map_option (\<lambda>(vs, t). (v # vs, t)) (parse_elements n r)
               else if c = CHR '']'' then Some ([v], r) else None))"
| "parse_members 0 s = None"
| "parse_members (Suc n) s =
     (case skip_space s of
        [] \<Rightarrow> None
      | q # a \<Rightarrow>
          if q \<noteq> quote then None
          else (case parse_chars a of
             None \<Rightarrow> None
           | Some (k, b) \<Rightarrow>
               if \<not> starts_with (skip_space b) '':'' then None
               else (case parse_value n (drop 1 (skip_space b)) of
                  None \<Rightarrow> None
                | Some (v, u) \<Rightarrow>
                    (case skip_space u of
                       [] \<Rightarrow> None
                     | c # r \<Rightarrow>
                         if c = CHR '','' then map_option (\<lambda>(ps, t). ((k, v) # ps, t)) (parse_members n r)
                         else if c = CHR ''}'' then Some ([(k, v)], r) else None))))"

definition parse_json :: "string \<Rightarrow> js option" where
  "parse_json s =
     (case parse_value (2 * length s + 2) s of
        None \<Rightarrow> None
      | Some (v, r) \<Rightarrow> if skip_space r = [] then Some v else None)"

subsection \<open>What is printed is read back\<close>

text \<open>The values that come back as they are: no value that serialization changes, integers a double
  holds exactly, other numbers by a text that is one, and no property twice.\<close>

fun plain :: "js \<Rightarrow> bool"
and plain_elements :: "js list \<Rightarrow> bool"
and plain_members :: "(string \<times> js) list \<Rightarrow> bool" where
  "plain JNull = True"
| "plain (JBool b) = True"
| "plain (JInt n) = (\<bar>n\<bar> < 2 ^ 53)"
| "plain (JStr s) = True"
| "plain (JArr vs) = plain_elements vs"
| "plain (JObj ps) = (plain_members ps \<and> distinct (map fst ps))"
| "plain JUndefined = False"
| "plain (JReal s) = (list_all is_number_char s \<and> is_json_number s \<and> number_of_text s = JReal s)"
| "plain (JDate d) = False"
| "plain (JError m ps) = False"
| "plain_elements [] = True"
| "plain_elements (v # vs) = (plain v \<and> plain_elements vs)"
| "plain_members [] = True"
| "plain_members ((k, v) # ps) = (plain v \<and> plain_members ps)"

lemma plain_elements_all: "plain_elements vs = list_all plain vs"
  by (induction vs) auto

lemma plain_members_all: "plain_members ps = list_all (\<lambda>(k, v). plain v) ps"
  by (induction ps) auto

lemma plain_clean:
  "plain v \<Longrightarrow> clean v = Some v"
  "plain_elements vs \<Longrightarrow> clean_elements vs = vs"
  "plain_members ps \<Longrightarrow> clean_members ps = ps"
  by (induction v and vs and ps rule: plain_plain_elements_plain_members.induct) auto

lemma spread_distinct: "distinct (map fst (a @ b)) \<Longrightarrow> spread a b = a @ b"
proof (induction b arbitrary: a)
  case (Cons p b)
  obtain k v where p: "p = (k, v)" by (cases p)
  have "map_set k v a = a @ [(k, v)]"
    using Cons.prems p by (induction a) auto
  with Cons p show ?case by simp
qed simp

lemma spread_Nil_distinct: "distinct (map fst ps) \<Longrightarrow> spread [] ps = ps"
  using spread_distinct [of "[]" ps] by simp

lemma char_eq_code: "c = d \<longleftrightarrow> code c = code d"
  by (simp add: code_def)

lemma hex_value_digit: "n < 16 \<Longrightarrow> hex_value (hex_digit n) = Some n"
  by (auto simp: hex_value_def hex_digit_def digit_value_def is_digit_def)

lemma char_of_code [simp]: "char_of (code c) = c"
  by (simp add: code_def)

lemma code_special [simp]:
  "code quote = 34" "code backslash = 92" "code CHR ''u'' = 117" "code CHR ''b'' = 98"
  "code CHR ''t'' = 116" "code CHR ''n'' = 110" "code CHR ''f'' = 102" "code CHR ''r'' = 114"
  "code CHR ''/'' = 47" "code CHR ''0'' = 48"
  by (simp_all add: code_def quote_def backslash_def)

lemma hex_zero: "hex_value CHR ''0'' = Some 0"
  by (simp add: hex_value_def digit_value_def is_digit_def)

lemma parse_hex_code:
  assumes "n < 256"
  shows "parse_hex [CHR ''0'', CHR ''0'', hex_digit (n div 16), hex_digit (n mod 16)] = Some (char_of n)"
  using assms hex_value_digit [of "n div 16"] hex_value_digit [of "n mod 16"]
  by (simp add: parse_hex_def hex_zero)

lemma simple_escape_simps:
  "simple_escape quote = Some quote" "simple_escape backslash = Some backslash"
  "simple_escape CHR ''b'' = Some (char_of (8::nat))" "simple_escape CHR ''t'' = Some (char_of (9::nat))"
  "simple_escape CHR ''n'' = Some (char_of (10::nat))" "simple_escape CHR ''f'' = Some (char_of (12::nat))"
  "simple_escape CHR ''r'' = Some (char_of (13::nat))"
  by (simp_all add: simple_escape_def char_eq_code)

lemma parse_char_short:
  "simple_escape e = Some c \<Longrightarrow> e \<noteq> CHR ''u'' \<Longrightarrow> parse_char (backslash # e # t) = Some (c, t)"
  by (simp add: parse_char_def)

lemma parse_char_escape: "parse_char (escape_char c @ t) = Some (c, t)"
proof (cases "c = quote \<or> c = backslash")
  case True
  moreover have "quote \<noteq> CHR ''u''" "backslash \<noteq> CHR ''u''" by (simp_all add: char_eq_code)
  ultimately show ?thesis
    by (auto simp: escape_char_def parse_char_short simple_escape_simps)
next
  case False
  show ?thesis
  proof (cases "code c \<in> {8, 9, 10, 12, 13}")
    case True
    have n: "char_of n = c" if "code c = n" for n using that by auto
    from True False show ?thesis
      by (auto simp: escape_char_def Let_def parse_char_short simple_escape_simps n)
  next
    case nonshort: False
    then have escape: "escape_char c = (if code c < 32
        then [backslash, CHR ''u'', CHR ''0'', CHR ''0'', hex_digit (code c div 16), hex_digit (code c mod 16)]
        else [c])"
      using False by (simp add: escape_char_def Let_def)
    show ?thesis
      using False parse_hex_code [of "code c"] by (simp add: escape parse_char_def)
  qed
qed

lemma escape_char_head: "\<exists>d r. escape_char c = d # r \<and> d \<noteq> quote"
proof -
  have "backslash \<noteq> quote" by (simp add: char_eq_code)
  then show ?thesis by (auto simp: escape_char_def Let_def)
qed

lemma parse_chars_print: "parse_chars (concat (map escape_char s) @ quote # t) = Some (s, t)"
proof (induction s)
  case Nil
  show ?case by (subst parse_chars.simps) simp
next
  case (Cons c s)
  obtain d r where d: "escape_char c = d # r" "d \<noteq> quote"
    using escape_char_head by blast
  have "parse_char (d # r @ concat (map escape_char s) @ quote # t) =
      Some (c, concat (map escape_char s) @ quote # t)"
    using parse_char_escape [of c "concat (map escape_char s) @ quote # t"] d by simp
  with Cons d show ?case by (subst parse_chars.simps) simp
qed

definition stops :: "string \<Rightarrow> bool" where
  "stops t \<longleftrightarrow> (case t of [] \<Rightarrow> True | c # _ \<Rightarrow> \<not> is_number_char c)"

lemma takeWhile_stops:
  "list_all is_number_char s \<Longrightarrow> stops t \<Longrightarrow>
   takeWhile is_number_char (s @ t) = s \<and> dropWhile is_number_char (s @ t) = t"
  by (induction s) (auto simp: stops_def split: list.splits)

lemma show_nat_head: "0 \<le> n \<Longrightarrow> hd (show_nat n) = CHR ''0'' \<Longrightarrow> length (show_nat n) = 1"
proof (induction n rule: show_nat.induct)
  case (1 n)
  show ?case
  proof (cases "n < 10")
    case True
    then show ?thesis by (subst show_nat.simps) simp
  next
    case False
    have "hd (show_nat (n div 10)) = CHR ''0''"
      using 1(3) False show_nat_ne [of "n div 10"] by (simp add: show_nat.simps [of n])
    with 1 False have "length (show_nat (n div 10)) = 1" by simp
    moreover have "show_nat (n div 10) \<noteq> [CHR ''0'']"
    proof
      assume "show_nat (n div 10) = [CHR ''0'']"
      with digits_value_show_nat [of "n div 10"] have "digits_value 10 ''0'' = n div 10"
        using 1(2) by simp
      then show False using False by (simp add: digits_value_def digit_value_def is_digit_def code_def)
    qed
    ultimately have False
      using \<open>hd (show_nat (n div 10)) = CHR ''0''\<close> by (cases "show_nat (n div 10)") auto
    then show ?thesis ..
  qed
qed

lemma digits_tw:
  "list_all is_digit s \<Longrightarrow> takeWhile is_digit s = s"
  "list_all is_digit s \<Longrightarrow> dropWhile is_digit s = []"
  by (induction s) auto

lemma to_number_negative:
  assumes "list_all is_digit s" and "s \<noteq> []"
  shows "to_number (CHR ''-'' # s) = round_ratio True (digits_value 10 s) 1"
proof -
  obtain c cs where s: "s = c # cs" using assms(2) by (cases s) auto
  have "c \<noteq> CHR ''I''" using assms(1) s by (auto simp: is_digit_def code_def)
  then have inf: "s \<noteq> ''Infinity''" using s by auto
  have "\<not> is_space CHR ''-''" by (simp add: is_space_def code_def)
  moreover have "\<not> is_space (last s)"
    using assms is_digit_not_space by (auto simp: list_all_iff)
  ultimately have trim: "trim (CHR ''-'' # s) = CHR ''-'' # s"
    using assms(2) by (simp add: trim_def trim_start_def trim_end_id)
  have "parse_decimal (CHR ''-'' # s) = round_ratio True (digits_value 10 s) 1"
    using assms inf
    by (simp add: parse_decimal_def take_sign_def parse_exponent_def of_decimal_def Let_def digits_tw)
  then show ?thesis using trim s by (simp add: to_number_def)
qed

lemma to_number_show_int:
  assumes "\<bar>n\<bar> < 2 ^ 53"
  shows "integer_value (to_number (show_int n)) = Some n"
proof (cases "n < 0")
  case True
  then show ?thesis
    using assms round_ratio_exact [of "- n" True]
    by (simp add: show_int_def to_number_negative show_nat_digits show_nat_ne digits_value_show_nat signed_def)
qed (use assms to_number_show_nat in \<open>simp add: show_int_def\<close>)

lemma show_int_chars:
  "list_all is_number_char (show_int n)" "show_int n \<noteq> []" "is_json_number (show_int n)"
proof -
  have digits: "list_all is_digit (show_nat m)" "show_nat m \<noteq> []" if "0 \<le> m" for m
    using that show_nat_digits show_nat_ne by auto
  have minus: "\<not> is_digit CHR ''-''" by (simp add: is_digit_def code_def)
  have sign: "drop_sign (show_nat m) = show_nat m" if "0 \<le> m" for m
    using digits [OF that] minus by (cases "show_nat m") (auto simp: drop_sign_def)
  have num: "list_all is_number_char (show_nat m)" if "0 \<le> m" for m
    using digits(1) [OF that] by (auto simp: list_all_iff is_number_char_def)
  show "list_all is_number_char (show_int n)"
    using num [of "- n"] num [of n] by (auto simp: show_int_def is_number_char_def)
  show "show_int n \<noteq> []"
    using digits(2) [of n] by (auto simp: show_int_def)
  have "drop_sign (show_int n) = show_nat (if n < 0 then - n else n)"
    using sign [of n] by (auto simp: show_int_def drop_sign_def)
  moreover have "0 \<le> (if n < 0 then - n else n)" by simp
  ultimately show "is_json_number (show_int n)"
    using digits show_nat_head by (simp add: is_json_number_def Let_def digits_tw)
qed

lemma show_int_head: "\<exists>c r. show_int n = c # r \<and> (is_digit c \<or> c = CHR ''-'')"
proof (cases "n < 0")
  case False
  then show ?thesis
    using show_nat_digits [of n] show_nat_ne [of n] by (cases "show_nat n") (auto simp: show_int_def)
qed (simp add: show_int_def)

lemma json_number_head: "is_json_number s \<Longrightarrow> \<exists>c r. s = c # r \<and> (is_digit c \<or> c = CHR ''-'')"
  by (cases s) (auto simp: is_json_number_def drop_sign_def Let_def split: if_splits)

lemma parse_literal_number:
  assumes "list_all is_number_char s" and "is_json_number s" and "stops t"
  shows "parse_literal (s @ t) = Some (number_of_text s, t)"
proof -
  obtain c r where c: "s = c # r" "is_digit c \<or> c = CHR ''-''"
    using json_number_head [OF assms(2)] by blast
  then have "c \<noteq> CHR ''n''" "c \<noteq> CHR ''t''" "c \<noteq> CHR ''f''"
    by (auto simp: is_digit_def code_def)
  then have "\<not> prefix ''null'' (s @ t)" "\<not> prefix ''true'' (s @ t)" "\<not> prefix ''false'' (s @ t)"
    using c(1) by auto
  then show ?thesis
    using takeWhile_stops [OF assms(1,3)] assms(2) by (simp add: parse_literal_def)
qed

lemma parse_literal_int:
  assumes "\<bar>n\<bar> < 2 ^ 53" and "stops t"
  shows "parse_literal (show_int n @ t) = Some (JInt n, t)"
  using parse_literal_number [OF show_int_chars(1,3) assms(2)] to_number_show_int [OF assms(1)]
  by (simp add: number_of_text_def)

text \<open>Every printed value starts with a character that tells its kind.\<close>

lemma print_json_head:
  assumes "plain v"
  obtains c r where "print_json v = c # r" "\<not> is_json_space c" "c \<noteq> CHR '']''" "c \<noteq> CHR ''}''"
proof -
  have digit: "\<not> is_json_space c \<and> c \<noteq> CHR '']'' \<and> c \<noteq> CHR ''}''" if "is_digit c \<or> c = CHR ''-''" for c
    using that by (auto simp: is_json_space_def is_digit_def code_def)
  have "\<exists>c r. print_json v = c # r \<and> \<not> is_json_space c \<and> c \<noteq> CHR '']'' \<and> c \<noteq> CHR ''}''"
  proof (cases v)
    case (JInt n)
    then show ?thesis using show_int_head [of n] digit by auto
  next
    case (JReal s)
    then show ?thesis using json_number_head [of s] assms digit by auto
  qed (use assms in \<open>auto simp: is_json_space_def code_def print_string_def quote_def\<close>)
  with that show ?thesis by blast
qed

lemma skip_space_nonspace [simp]: "\<not> is_json_space c \<Longrightarrow> skip_space (c # s) = c # s"
  by (simp add: skip_space_def)

lemma json_punctuation [simp]:
  "\<not> is_json_space quote" "\<not> is_json_space CHR '',''" "\<not> is_json_space CHR '':''"
  "\<not> is_json_space CHR ''[''" "\<not> is_json_space CHR '']''" "\<not> is_json_space CHR ''{''"
  "\<not> is_json_space CHR ''}''" "\<not> is_number_char CHR '',''" "\<not> is_number_char CHR '']''"
  "\<not> is_number_char CHR ''}''"
  by (simp_all add: is_json_space_def is_number_char_def is_digit_def code_def quote_def)

fun need :: "js \<Rightarrow> nat"
and need_elements :: "js list \<Rightarrow> nat"
and need_members :: "(string \<times> js) list \<Rightarrow> nat" where
  "need (JArr vs) = Suc (need_elements vs)"
| "need (JObj ps) = Suc (need_members ps)"
| "need JNull = 1"
| "need (JBool b) = 1"
| "need (JInt n) = 1"
| "need (JStr s) = 1"
| "need (JReal s) = 1"
| "need JUndefined = 1"
| "need (JDate d) = 1"
| "need (JError m ps) = 1"
| "need_elements [] = 0"
| "need_elements (v # vs) = Suc (max (need v) (need_elements vs))"
| "need_members [] = 0"
| "need_members ((k, v) # ps) = Suc (max (need v) (need_members ps))"

lemma need_pos: "0 < need v"
  by (cases v) auto

lemma need_le_length:
  "plain v \<Longrightarrow> need v \<le> length (print_json v)"
  "plain_elements vs \<Longrightarrow> need_elements vs \<le> length (print_elements vs)"
  "plain_members ps \<Longrightarrow> need_members ps \<le> length (print_members ps)"
proof (induction v and vs and ps rule: need_need_elements_need_members.induct)
  case (5 n)
  then show ?case using show_int_chars(2) [of n] by (cases "show_int n") auto
next
  case (7 s)
  then show ?case using json_number_head [of s] by auto
next
  case (12 v vs)
  then show ?case by (cases vs) auto
next
  case (14 k v ps)
  then show ?case by (cases ps) auto
qed (auto simp: print_string_def)

lemma parse_printed:
  "plain v \<Longrightarrow> stops t \<Longrightarrow> need v \<le> n \<Longrightarrow> parse_value n (print_json v @ t) = Some (v, t)"
  "plain_elements vs \<Longrightarrow> vs \<noteq> [] \<Longrightarrow> need_elements vs \<le> n \<Longrightarrow>
     parse_elements n (print_elements vs @ t) = Some (vs, t)"
  "plain_members ps \<Longrightarrow> ps \<noteq> [] \<Longrightarrow> need_members ps \<le> n \<Longrightarrow>
     parse_members n (print_members ps @ t) = Some (ps, t)"
proof (induction v and vs and ps arbitrary: n t and n t and n t
    rule: need_need_elements_need_members.induct)
  case (1 vs)
  then obtain m where m: "n = Suc m" "need_elements vs \<le> m" by (cases n) auto
  show ?case
  proof (cases vs)
    case Nil
    then show ?thesis using m by (simp add: quote_def starts_with_def)
  next
    case (Cons w ws)
    have head: "\<not> starts_with (skip_space (print_elements vs @ t)) '']''"
      using Cons "1.prems" by (auto simp: starts_with_def elim!: print_json_head [of w])
    then show ?thesis using 1 m Cons by (simp add: quote_def)
  qed
next
  case (2 ps)
  then obtain m where m: "n = Suc m" "need_members ps \<le> m" by (cases n) auto
  show ?case
  proof (cases ps)
    case Nil
    then show ?thesis using m by (simp add: quote_def starts_with_def)
  next
    case (Cons p qs)
    have head: "\<not> starts_with (skip_space (print_members ps @ t)) ''}''"
      using Cons by (cases p) (simp add: starts_with_def print_string_def, simp add: quote_def)
    then show ?thesis
      using 2 m Cons spread_Nil_distinct [of ps] by (simp add: quote_def members_of_def)
  qed
next
  case (5 k)
  then obtain m where m: "n = Suc m" by (cases n) auto
  obtain c r where c: "show_int k = c # r" "is_digit c \<or> c = CHR ''-''"
    using show_int_head by blast
  then have "\<not> is_json_space c" "c \<noteq> quote" "c \<noteq> CHR ''[''" "c \<noteq> CHR ''{''"
    by (auto simp: is_json_space_def is_digit_def code_def quote_def)
  then show ?case
    using parse_literal_int [of k t] 5 m c(1) by simp
next
  case (7 s)
  then obtain m where m: "n = Suc m" by (cases n) auto
  obtain c r where c: "s = c # r" "is_digit c \<or> c = CHR ''-''"
    using json_number_head [of s] 7 by auto
  then have "\<not> is_json_space c" "c \<noteq> quote" "c \<noteq> CHR ''[''" "c \<noteq> CHR ''{''"
    by (auto simp: is_json_space_def is_digit_def code_def quote_def)
  then show ?case
    using parse_literal_number [of s t] 7 m c(1) by simp
next
  case (6 s)
  then obtain m where m: "n = Suc m" by (cases n) auto
  then show ?case by (simp add: print_string_def parse_chars_print)
next
  case (12 v vs)
  then obtain m where m: "n = Suc m" "need v \<le> m" "need_elements vs \<le> m" by (cases n) auto
  let ?rest = "(if vs = [] then [] else '','') @ print_elements vs @ t"
  have "stops ?rest" by (cases vs) (auto simp: stops_def)
  with 12 m have "parse_value m (print_json v @ ?rest) = Some (v, ?rest)" by simp
  then show ?case using 12 m by (cases vs) auto
next
  case (14 k v ps)
  then obtain m where m: "n = Suc m" "need v \<le> m" "need_members ps \<le> m" by (cases n) auto
  let ?rest = "(if ps = [] then [] else '','') @ print_members ps @ t"
  have "stops ?rest" by (cases ps) (auto simp: stops_def)
  with 14 m have "parse_value m (print_json v @ ?rest) = Some (v, ?rest)" by simp
  then show ?case
    using 14 m parse_chars_print [of k "'':'' @ print_json v @ ?rest"]
    by (cases ps) (auto simp: print_string_def starts_with_def)
next
  case 3
  then show ?case
    by (cases n) (auto simp: parse_literal_def is_json_space_def code_def quote_def)
next
  case (4 b)
  then show ?case
    by (cases n) (auto simp: parse_literal_def is_json_space_def code_def quote_def)
qed auto

theorem parse_stringify: "plain v \<Longrightarrow> \<exists>s. stringify v = Some s \<and> parse_json s = Some v"
  using plain_clean(1) [of v] parse_printed(1) [of v "[]" "2 * length (print_json v) + 2"]
    need_le_length(1) [of v]
  by (simp add: stringify_def parse_json_def stops_def skip_space_def)

lemma stringify_inj: "plain v \<Longrightarrow> plain w \<Longrightarrow> stringify v = stringify w \<Longrightarrow> v = w"
  by (metis option.inject parse_stringify)

end
