(* ===== verification/Functional.thy ===== *)
theory Functional
  imports Prelude
begin

section \<open>util-ts: Option, Either and ServiceResult\<close>

text \<open>
  Models \<open>packages/util-ts/src/lib/functional\<close>: the three containers, their combinators, the
  conversions between them, the exhaustive matcher and \<open>pipe\<close>; and the array helpers. What the
  containers promise a caller that chains operations is the locale \<open>chainable\<close>; every container
  is an interpretation of it. A function that may throw returns a sum.
\<close>

subsection \<open>option.ts\<close>

datatype 'a opt = OptNone | OptSome (opt_value: 'a)

definition is_none :: "'a opt \<Rightarrow> bool" where
  "is_none x = (case x of OptNone \<Rightarrow> True | OptSome _ \<Rightarrow> False)"

definition is_some :: "'a opt \<Rightarrow> bool" where
  "is_some x = (case x of OptNone \<Rightarrow> False | OptSome _ \<Rightarrow> True)"

definition opt_map :: "('a \<Rightarrow> 'b) \<Rightarrow> 'a opt \<Rightarrow> 'b opt" where
  "opt_map f x = (if is_some x then OptSome (f (opt_value x)) else OptNone)"

definition opt_flat_map :: "('a \<Rightarrow> 'b opt) \<Rightarrow> 'a opt \<Rightarrow> 'b opt" where
  "opt_flat_map f x = (if is_some x then f (opt_value x) else OptNone)"

definition opt_get_or_else :: "'a \<Rightarrow> 'a opt \<Rightarrow> 'a" where
  "opt_get_or_else d x = (if is_some x then opt_value x else d)"

definition opt_match :: "'c \<Rightarrow> ('a \<Rightarrow> 'c) \<Rightarrow> 'a opt \<Rightarrow> 'c" where
  "opt_match on_none on_some x = (if is_some x then on_some (opt_value x) else on_none)"

text \<open>A value that may be \<open>null\<close> or \<open>undefined\<close>.\<close>

datatype 'a nullable = Nil | Undef | Value 'a

definition is_nil :: "'a nullable \<Rightarrow> bool" where
  "is_nil x = (case x of Value _ \<Rightarrow> False | _ \<Rightarrow> True)"

definition is_defined :: "'a nullable \<Rightarrow> bool" where
  "is_defined x \<longleftrightarrow> \<not> is_nil x"

definition null_to_undefined :: "'a nullable \<Rightarrow> 'a nullable" where
  "null_to_undefined x = (if is_nil x then Undef else x)"

definition from_nullable :: "'a nullable \<Rightarrow> 'a opt" where
  "from_nullable x = (case x of Value v \<Rightarrow> OptSome v | _ \<Rightarrow> OptNone)"

subsection \<open>either.ts\<close>

datatype ('e, 'a) either = Left (left_value: 'e) | Right (right_value: 'a)

definition is_left :: "('e, 'a) either \<Rightarrow> bool" where
  "is_left x = (case x of Left _ \<Rightarrow> True | Right _ \<Rightarrow> False)"

definition is_right :: "('e, 'a) either \<Rightarrow> bool" where
  "is_right x = (case x of Left _ \<Rightarrow> False | Right _ \<Rightarrow> True)"

definition either_map :: "('a \<Rightarrow> 'b) \<Rightarrow> ('e, 'a) either \<Rightarrow> ('e, 'b) either" where
  "either_map f x = (case x of Right a \<Rightarrow> Right (f a) | Left e \<Rightarrow> Left e)"

definition map_left :: "('e \<Rightarrow> 'g) \<Rightarrow> ('e, 'a) either \<Rightarrow> ('g, 'a) either" where
  "map_left f x = (case x of Left e \<Rightarrow> Left (f e) | Right a \<Rightarrow> Right a)"

definition either_flat_map :: "('a \<Rightarrow> ('e, 'b) either) \<Rightarrow> ('e, 'a) either \<Rightarrow> ('e, 'b) either" where
  "either_flat_map f x = (case x of Right a \<Rightarrow> f a | Left e \<Rightarrow> Left e)"

definition either_get_or_else :: "('e \<Rightarrow> 'a) \<Rightarrow> ('e, 'a) either \<Rightarrow> 'a" where
  "either_get_or_else on_left x = (case x of Right a \<Rightarrow> a | Left e \<Rightarrow> on_left e)"

definition either_match :: "('e \<Rightarrow> 'c) \<Rightarrow> ('a \<Rightarrow> 'c) \<Rightarrow> ('e, 'a) either \<Rightarrow> 'c" where
  "either_match on_left on_right x = (case x of Right a \<Rightarrow> on_right a | Left e \<Rightarrow> on_left e)"

subsection \<open>serviceResult.ts\<close>

text \<open>A \<open>ServiceResult\<close> is at the same time an \<open>Either\<close>: the object carries the fields of both,
  filled with the same value. \<open>as_either\<close> is the view through the fields of \<open>Either\<close>.\<close>

datatype ('e, 'a) service_result = Success 'a | Failure 'e

definition success :: "'a \<Rightarrow> ('e, 'a) service_result" where
  "success v = Success v"

definition failure :: "'e \<Rightarrow> ('e, 'a) service_result" where
  "failure e = Failure e"

definition is_success :: "('e, 'a) service_result \<Rightarrow> bool" where
  "is_success r = (case r of Success _ \<Rightarrow> True | Failure _ \<Rightarrow> False)"

definition is_failure :: "('e, 'a) service_result \<Rightarrow> bool" where
  "is_failure r \<longleftrightarrow> \<not> is_success r"

definition as_either :: "('e, 'a) service_result \<Rightarrow> ('e, 'a) either" where
  "as_either r = (case r of Success v \<Rightarrow> Right v | Failure e \<Rightarrow> Left e)"

definition map_failure :: "('e \<Rightarrow> 'g) \<Rightarrow> ('e, 'a) service_result \<Rightarrow> ('g, 'a) either" where
  "map_failure f r = map_left f (as_either r)"

subsection \<open>matchServiceResult.ts\<close>

text \<open>The handlers are the own properties of an object; a missing one is a thrown \<open>TypeError\<close>.\<close>

datatype match_error = MissingHandler string

definition match_service_result ::
  "('e \<Rightarrow> string) \<Rightarrow> ('a \<Rightarrow> 'c) \<Rightarrow> (string, 'e \<Rightarrow> 'c) js_map \<Rightarrow> ('e, 'a) service_result \<Rightarrow> match_error + 'c" where
  "match_service_result tag on_success handlers r =
     (case r of
        Success v \<Rightarrow> Inr (on_success v)
      | Failure e \<Rightarrow>
          (case map_get handlers (tag e) of
             None \<Rightarrow> Inl (MissingHandler (tag e))
           | Some h \<Rightarrow> Inr (h e)))"

subsection \<open>pipe.ts and the array helpers\<close>

definition pipe :: "'a \<Rightarrow> ('a \<Rightarrow> 'a) list \<Rightarrow> 'a" where
  "pipe a fs = foldl (\<lambda>acc f. f acc) a fs"

datatype range_error = InvalidChunkSize

text \<open>\<open>chunk(array, size)\<close>; the size is a number and must be a positive integer.\<close>

definition chunk :: "'a list \<Rightarrow> int option \<Rightarrow> range_error + 'a list list" where
  "chunk xs sz =
     (case sz of
        None \<Rightarrow> Inl InvalidChunkSize
      | Some n \<Rightarrow>
          if n \<le> 0 then Inl InvalidChunkSize
          else if length xs = 0 then Inr []
          else Inr (map (\<lambda>i. take (nat n) (drop (i * nat n) xs))
                      [0..<nat (- ((- int (length xs)) div n))]))"

definition is_non_empty_array :: "'a list \<Rightarrow> bool" where
  "is_non_empty_array xs \<longleftrightarrow> length xs > 0"

datatype 'a one_or_array = SingleOf 'a | ArrayOf "'a list"

definition to_non_empty_array :: "'a one_or_array \<Rightarrow> 'a list" where
  "to_non_empty_array v = (case v of ArrayOf xs \<Rightarrow> xs | SingleOf x \<Rightarrow> [x])"

definition head_of :: "'a nullable one_or_array nullable \<Rightarrow> 'a nullable" where
  "head_of v =
     (case v of
        Value (ArrayOf (x # _)) \<Rightarrow> x
      | Value (ArrayOf []) \<Rightarrow> Undef
      | Value (SingleOf x) \<Rightarrow> (if is_nil x then Undef else x)
      | _ \<Rightarrow> Undef)"

text \<open>\<open>forEachAsyncSequentially\<close>: each task starts after the one before it has settled, and a
  rejection ends the loop.\<close>

definition for_each_sequentially ::
  "('s \<Rightarrow> 'a \<Rightarrow> nat \<Rightarrow> 'e + 's) \<Rightarrow> 's \<Rightarrow> 'a list \<Rightarrow> 'e + 's" where
  "for_each_sequentially task s xs = fold_result (\<lambda>s (i, x). task s x i) s (enumerate 0 xs)"

subsection \<open>Chaining\<close>

text \<open>What chaining promises: a unit, associativity, and one way to fail that stops the chain.\<close>

locale chainable =
  fixes unit :: "'a \<Rightarrow> 'm" and chain :: "('a \<Rightarrow> 'm) \<Rightarrow> 'm \<Rightarrow> 'm" and failed :: "'m \<Rightarrow> bool"
  assumes unit_chain: "chain f (unit a) = f a"
    and chain_unit: "chain unit m = m"
    and chain_assoc: "chain g (chain f m) = chain (\<lambda>a. chain g (f a)) m"
    and failed_chain: "failed m \<Longrightarrow> chain f m = m"
    and unit_not_failed: "\<not> failed (unit a)"
begin

text \<open>A pipeline of steps, as \<open>pipe(value, flatMap(f), flatMap(g), ...)\<close> runs it.\<close>

lemma pipeline_failed: "failed m \<Longrightarrow> foldl (\<lambda>acc f. chain f acc) m fs = m"
  by (induction fs) (simp_all add: failed_chain)

lemma pipeline_chain:
  "foldl (\<lambda>acc f. chain f acc) (chain f m) fs = chain (\<lambda>a. foldl (\<lambda>acc f. chain f acc) (f a) fs) m"
proof (induction fs arbitrary: f)
  case (Cons g fs)
  have "foldl (\<lambda>acc f. chain f acc) (chain g (chain f m)) fs =
      chain (\<lambda>a. foldl (\<lambda>acc f. chain f acc) (chain g (f a)) fs) m"
    unfolding chain_assoc by (rule Cons.IH)
  then show ?case by (simp only: foldl_Cons)
qed simp

text \<open>Splitting a pipeline anywhere, or naming a part of it, changes nothing.\<close>

lemma pipeline_split:
  "foldl (\<lambda>acc f. chain f acc) (unit a) (fs @ gs) =
     chain (\<lambda>b. foldl (\<lambda>acc f. chain f acc) (unit b) gs) (foldl (\<lambda>acc f. chain f acc) (unit a) fs)"
  using pipeline_chain [of unit "foldl (\<lambda>acc f. chain f acc) (unit a) fs" gs]
  unfolding foldl_append chain_unit .

end

interpretation opt: chainable OptSome opt_flat_map is_none
  by unfold_locales
    (auto simp: opt_flat_map_def is_some_def is_none_def split: opt.splits)

interpretation either: chainable Right either_flat_map is_left
  by unfold_locales (auto simp: either_flat_map_def is_left_def split: either.splits)

lemma opt_map_chain: "opt_map f = opt_flat_map (\<lambda>a. OptSome (f a))"
  by (simp add: fun_eq_iff opt_map_def opt_flat_map_def)

lemma either_map_chain: "either_map f = either_flat_map (\<lambda>a. Right (f a))"
  by (simp add: fun_eq_iff either_map_def either_flat_map_def)

subsection \<open>Chunks\<close>

lemma concat_chunks:
  "concat (map (\<lambda>i. take n (drop (i * n) xs)) [0..<k]) = take (k * n) xs"
proof (induction k)
  case (Suc k)
  then show ?case by (simp add: add.commute [of n] flip: take_add)
qed simp

lemma chunk_count:
  assumes "0 < n" and "0 < m"
  defines "k \<equiv> nat (- ((- int m) div int n))"
  shows "m \<le> k * n" "(k - 1) * n < m" "0 < k"
proof -
  define q where "q = (- int m) div int n"
  define r where "r = (- int m) mod int n"
  have "- int m = int n * q + r" by (simp add: q_def r_def)
  moreover have "0 \<le> r" "r < int n" using assms(1) by (simp_all add: r_def)
  ultimately have "q * int n \<le> - int m" "- int m < (q + 1) * int n"
    by (simp_all add: algebra_simps)
  moreover have q: "q < 0" unfolding q_def using assms(1,2) by (simp add: div_neg_pos_less0)
  moreover have k: "int k = - q" using q by (simp add: k_def q_def)
  ultimately have b: "int m \<le> int k * int n" "(int k - 1) * int n < int m"
    by (simp_all add: algebra_simps)
  show "0 < k" using k q by simp
  show "m \<le> k * n" using b(1) by (metis of_nat_le_iff of_nat_mult)
  have "int ((k - 1) * n) < int m"
    using b(2) \<open>0 < k\<close> by (simp add: of_nat_diff)
  then show "(k - 1) * n < m" by linarith
qed

text \<open>Chunking cuts an array into pieces of the given size, only the last of which is shorter,
  and never empty; joined they are the array.\<close>

lemma chunk_spec:
  assumes "chunk xs (Some n) = Inr cs"
  shows "0 < n \<and> concat cs = xs \<and> list_all (\<lambda>c. c \<noteq> [] \<and> int (length c) \<le> n) cs \<and>
    list_all (\<lambda>c. int (length c) = n) (butlast cs)"
proof (cases "xs = []")
  case True
  with assms show ?thesis by (auto simp: chunk_def split: if_splits)
next
  case False
  define m where "m = nat n"
  define k where "k = nat (- ((- int (length xs)) div int m))"
  from assms have n: "0 < n" by (auto simp: chunk_def split: if_splits)
  then have m: "0 < m" "int m = n" by (auto simp: m_def)
  have cs: "cs = map (\<lambda>i. take m (drop (i * m) xs)) [0..<k]"
    using assms False n m by (auto simp: chunk_def k_def m_def split: if_splits)
  have len: "0 < length xs" using False by simp
  note count = chunk_count [OF m(1) len, folded k_def]
  have "concat cs = xs" unfolding cs concat_chunks using count(1) by simp
  moreover have "take m (drop (i * m) xs) \<noteq> []" if "i < k" for i
  proof -
    have "i * m \<le> (k - 1) * m" using that by (intro mult_right_mono) auto
    with count(2) have "i * m < length xs" by linarith
    with m(1) show ?thesis by simp
  qed
  moreover have "length (take m (drop (i * m) xs)) = m" if "i < k - 1" for i
  proof -
    have "Suc i * m \<le> (k - 1) * m" using that by (intro mult_right_mono) auto
    then have "m + i * m < length xs" using count(2) by (simp only: mult_Suc)
    then show ?thesis by simp
  qed
  moreover have "butlast cs = map (\<lambda>i. take m (drop (i * m) xs)) [0..<k - 1]"
    unfolding cs using count(3) by (cases k) simp_all
  ultimately show ?thesis using n m(2) by (auto simp: cs list_all_iff)
qed

end
