(* ===== verification/ServiceErrors.thy ===== *)
theory ServiceErrors
  imports JsNumber Functional
begin

section \<open>util-ts: service errors\<close>

text \<open>
  Models \<open>packages/util-ts/src/lib/errors\<close>: the construction of a \<open>ServiceError\<close> from issues,
  its status, its message, merging, the conversion to JSON:API and back, and the functions of
  \<open>serviceResult.ts\<close> that turn a thrown value into a \<open>ServiceError\<close>. The identifier of a new
  error comes from \<open>crypto.randomUUID\<close> and is the parameter \<open>fresh\<close>. A thrown value is a
  service error, another error, an object with a message, or anything else with the text
  \<open>toError\<close> gives it.
\<close>

subsection \<open>Statuses\<close>

text \<open>A status is an integer; \<open>Math.max\<close> of nothing is minus infinity, and \<open>NaN\<close> wins over
  every number. This is a linear order with \<open>NaN\<close> on top.\<close>

datatype status = NegInfinity | Status int | NotANumber

instantiation status :: linorder
begin

fun less_eq_status :: "status \<Rightarrow> status \<Rightarrow> bool" where
  "NegInfinity \<le> (y::status) = True"
| "Status a \<le> y = (case y of NegInfinity \<Rightarrow> False | Status b \<Rightarrow> a \<le> b | NotANumber \<Rightarrow> True)"
| "NotANumber \<le> y = (y = NotANumber)"

definition less_status :: "status \<Rightarrow> status \<Rightarrow> bool" where
  "x < (y::status) \<longleftrightarrow> x \<le> y \<and> \<not> y \<le> x"

instance
proof
  fix x y z :: status
  show "x \<le> x" by (cases x) auto
  show "x \<le> y \<Longrightarrow> y \<le> z \<Longrightarrow> x \<le> z" by (cases x; cases y; cases z) auto
  show "x \<le> y \<Longrightarrow> y \<le> x \<Longrightarrow> x = y" by (cases x; cases y) auto
  show "x \<le> y \<or> y \<le> x" by (cases x; cases y) auto
qed (rule less_status_def)

end

definition math_max :: "status list \<Rightarrow> status" where
  "math_max xs = foldr max xs NegInfinity"

lemma status_bounds [simp]: "NegInfinity \<le> s" "max NegInfinity s = s" "max s NegInfinity = s"
  by (cases s; simp add: max_def)+

lemma math_max_append: "math_max (xs @ ys) = max (math_max xs) (math_max ys)"
  by (induction xs) (simp_all add: math_max_def max.assoc)

lemma math_max_concat: "math_max (concat xss) = math_max (map math_max xss)"
  by (induction xss) (simp_all add: math_max_append math_max_def [of "map _ _"] math_max_def [of "_ # _"]
    math_max_def [of "[]"])

lemma math_max_ge: "s \<in> set xs \<Longrightarrow> s \<le> math_max xs"
  by (induction xs) (auto simp: math_max_def le_max_iff_disj)

subsection \<open>Error codes\<close>

definition error_metadata :: "(string \<times> int \<times> string) list" where
  "error_metadata =
     [(''badRequest'', 400, ''Invalid or malformed request''),
      (''unauthorized'', 401, ''Invalid or missing credentials''),
      (''forbidden'', 403, ''Access to resource denied''),
      (''notFound'', 404, ''Resource not found''),
      (''conflict'', 409, ''Conflict with server state''),
      (''unprocessableEntity'', 422, ''Request failed validation''),
      (''tooManyRequests'', 429, ''Request limit exceeded''),
      (''internal'', 500, ''Internal server error'')]"

text \<open>\<open>field in object\<close> also finds what every object inherits.\<close>

definition object_prototype_keys :: "string list" where
  "object_prototype_keys =
     [''constructor'', ''hasOwnProperty'', ''isPrototypeOf'', ''propertyIsEnumerable'',
      ''toLocaleString'', ''toString'', ''valueOf'', ''__proto__'', ''__defineGetter__'',
      ''__defineSetter__'', ''__lookupGetter__'', ''__lookupSetter__'']"

definition is_key_of :: "string \<Rightarrow> bool" where
  "is_key_of c \<longleftrightarrow> map_has error_metadata c \<or> c \<in> set object_prototype_keys"

subsection \<open>Issues\<close>

datatype path_item = Key string | Index int

record service_issue =
  raw_code :: "string option"
  raw_message :: "string option"
  raw_path :: "path_item list option"
  raw_title :: "string option"
  raw_status :: "status option"

record issue =
  iss_code :: string
  iss_message :: "string option"
  iss_path :: "path_item list option"
  iss_title :: "string option"
  iss_status :: "status option"

definition to_issue :: "service_issue \<Rightarrow> issue" where
  "to_issue i =
     (let c = (case raw_code i of None \<Rightarrow> ''internal'' | Some c \<Rightarrow> c);
          title = (case raw_title i of
                     Some t \<Rightarrow> Some t
                   | None \<Rightarrow> if is_key_of c then map_option snd (map_get error_metadata c) else None)
      in \<lparr>iss_code = c, iss_message = raw_message i, iss_path = raw_path i, iss_title = title,
          iss_status = raw_status i\<rparr>)"

text \<open>\<open>None\<close>: the property read is undefined, which \<open>Math.max\<close> turns into \<open>NaN\<close>.\<close>

definition get_status :: "issue \<Rightarrow> status option" where
  "get_status i =
     (case iss_status i of
        Some s \<Rightarrow> Some s
      | None \<Rightarrow>
          if is_key_of (iss_code i)
          then map_option (\<lambda>(n, t). Status n) (map_get error_metadata (iss_code i))
          else Some (Status 500))"

definition status_number :: "status option \<Rightarrow> status" where
  "status_number s = (case s of None \<Rightarrow> NotANumber | Some v \<Rightarrow> v)"

definition status_of_issues :: "issue list \<Rightarrow> status" where
  "status_of_issues is = math_max (map (\<lambda>i. status_number (get_status i)) is)"

definition path_text :: "path_item \<Rightarrow> string" where
  "path_text p = (case p of Key s \<Rightarrow> s | Index n \<Rightarrow> show_int n)"

definition issue_text :: "issue \<Rightarrow> string" where
  "issue_text i =
     ''['' @ iss_code i @ '']'' @
     (case iss_message i of Some m \<Rightarrow> if m \<noteq> [] then '': '' @ m else [] | None \<Rightarrow> []) @
     (case iss_path i of
        Some p \<Rightarrow>
          if length p > 0
          then '' at '' @ [CHR 0x22] @ join ''.'' (map path_text p) @ [CHR 0x22] else []
      | None \<Rightarrow> [])"

definition create_service_error_message :: "issue list \<Rightarrow> string" where
  "create_service_error_message is =
     (if length is = 0 then ''[unknown]'' else join ''; '' (map issue_text is))"

subsection \<open>ServiceError\<close>

datatype error_source = Header | Parameter | Pointer

datatype service_error = ServiceError
    (se_id: string) (se_issues: "issue list") (se_status: status) (se_source: error_source)
    (se_message: string) (se_cause: "error_cause option")
and error_cause = CauseServiceError service_error | CauseError string

record service_error_params =
  par_cause :: "error_cause option"
  par_id :: "string option"
  par_issues :: "service_issue list"
  par_source :: "error_source option"

definition message_issue :: "string \<Rightarrow> service_issue" where
  "message_issue m =
     \<lparr>raw_code = None, raw_message = Some m, raw_path = None, raw_title = None, raw_status = None\<rparr>"

definition new_service_error :: "string \<Rightarrow> string + service_error_params \<Rightarrow> service_error" where
  "new_service_error fresh parameters =
     (let params = (case parameters of
                      Inl m \<Rightarrow> \<lparr>par_cause = None, par_id = None, par_issues = [message_issue m],
                               par_source = None\<rparr>
                    | Inr p \<Rightarrow> p);
          issues = map to_issue (par_issues params)
      in ServiceError
           (case par_id params of None \<Rightarrow> fresh | Some i \<Rightarrow> i)
           issues
           (status_of_issues issues)
           (case par_source params of None \<Rightarrow> Pointer | Some s \<Rightarrow> s)
           (create_service_error_message issues)
           (par_cause params))"

definition service_error_string :: "service_error \<Rightarrow> string" where
  "service_error_string e = ''ServiceError['' @ se_id e @ '']: '' @ se_message e"

text \<open>The issues of a built error, given to the constructor again.\<close>

definition as_raw :: "issue \<Rightarrow> service_issue" where
  "as_raw i = \<lparr>raw_code = Some (iss_code i), raw_message = iss_message i, raw_path = iss_path i,
     raw_title = iss_title i, raw_status = iss_status i\<rparr>"

subsection \<open>fromUnknown, merge, fromZodError\<close>

datatype thrown =
    ThrownServiceError service_error
  | ThrownError string
  | ThrownObject string
  | ThrownString string
  | ThrownOther string

definition to_error_message :: "thrown \<Rightarrow> string" where
  "to_error_message v =
     (case v of
        ThrownServiceError e \<Rightarrow> se_message e
      | ThrownError m \<Rightarrow> m
      | ThrownObject m \<Rightarrow> m
      | ThrownString s \<Rightarrow> s
      | ThrownOther text \<Rightarrow> text)"

definition from_unknown :: "string \<Rightarrow> thrown \<Rightarrow> service_error" where
  "from_unknown fresh v =
     (case v of
        ThrownServiceError e \<Rightarrow> e
      | _ \<Rightarrow> new_service_error fresh (Inr
          \<lparr>par_cause = Some (CauseError (to_error_message v)), par_id = None,
           par_issues = [\<lparr>raw_code = Some ''internal'', raw_message = Some (to_error_message v),
             raw_path = None, raw_title = None, raw_status = None\<rparr>],
           par_source = None\<rparr>))"

definition merge_errors :: "string \<Rightarrow> thrown \<Rightarrow> thrown list \<Rightarrow> service_error" where
  "merge_errors fresh error errors =
     (let first = from_unknown fresh error in
      if length errors = 0 then first
      else
        let additional = map (from_unknown fresh) errors in
        new_service_error fresh (Inr
          \<lparr>par_cause = Some (case se_cause first of Some c \<Rightarrow> c | None \<Rightarrow> CauseServiceError first),
           par_id = None,
           par_issues = map as_raw (se_issues first @ concat (map se_issues additional)),
           par_source = None\<rparr>))"

record zod_issue =
  zod_message :: string
  zod_path :: "path_item list"

definition from_zod_issue :: "zod_issue \<Rightarrow> service_issue" where
  "from_zod_issue z =
     \<lparr>raw_code = Some ''badRequest'', raw_message = Some (zod_message z), raw_path = Some (zod_path z),
      raw_title = None, raw_status = None\<rparr>"

definition from_zod_error ::
  "string \<Rightarrow> string \<Rightarrow> zod_issue list \<Rightarrow> error_source option \<Rightarrow> service_error" where
  "from_zod_error fresh message issues source =
     new_service_error fresh (Inr
       \<lparr>par_cause = Some (CauseError message), par_id = None,
        par_issues = map from_zod_issue issues, par_source = source\<rparr>)"

subsection \<open>JSON:API\<close>

record json_api_error =
  je_id :: "string option"
  je_status :: "string option"
  je_code :: "string option"
  je_title :: "string option"
  je_detail :: "string option"
  je_source :: "(string, string) js_map option"

definition status_text :: "status option \<Rightarrow> string" where
  "status_text s =
     (case s of
        None \<Rightarrow> ''undefined''
      | Some (Status n) \<Rightarrow> show_int n
      | Some NotANumber \<Rightarrow> ''NaN''
      | Some NegInfinity \<Rightarrow> ''-Infinity'')"

fun source_name :: "error_source \<Rightarrow> string" where
  "source_name Header = ''header''"
| "source_name Parameter = ''parameter''"
| "source_name Pointer = ''pointer''"

definition to_json_api :: "service_error \<Rightarrow> json_api_error list" where
  "to_json_api e =
     map (\<lambda>i. \<lparr>je_id = Some (se_id e),
       je_status = Some (status_text (get_status i)),
       je_code = Some (iss_code i),
       je_title = iss_title i,
       je_detail = (case iss_message i of Some m \<Rightarrow> if m \<noteq> [] then Some m else None | None \<Rightarrow> None),
       je_source = map_option (\<lambda>p. [(source_name (se_source e), CHR ''/'' # join ''/'' (map path_text p))])
         (iss_path i)\<rparr>) (se_issues e)"

definition truthy :: "string option \<Rightarrow> string option" where
  "truthy s = (case s of Some t \<Rightarrow> if t \<noteq> [] then Some t else None | None \<Rightarrow> None)"

definition source_path :: "(string, string) js_map option \<Rightarrow> path_item list option" where
  "source_path source =
     (case source of
        Some ((k, v) # _) \<Rightarrow>
          (let path = map Key (filter (\<lambda>s. s \<noteq> []) (split_char CHR ''/'' v))
           in if length path > 0 then Some path else None)
      | _ \<Rightarrow> None)"

definition read_status :: "string \<Rightarrow> status" where
  "read_status s = (case integer_value (to_number s) of Some n \<Rightarrow> Status n | None \<Rightarrow> NotANumber)"

definition from_json_api :: "string \<Rightarrow> json_api_error list \<Rightarrow> service_error" where
  "from_json_api fresh errors =
     (let issues = map (\<lambda>e. to_issue
            \<lparr>raw_code = Some (case je_code e of None \<Rightarrow> ''internal'' | Some c \<Rightarrow> c),
             raw_message = je_detail e,
             raw_path = source_path (je_source e),
             raw_title = truthy (je_title e),
             raw_status = map_option read_status (truthy (je_status e))\<rparr>) errors
      in new_service_error fresh (Inr
           \<lparr>par_cause = None,
            par_id = Some (case errors of e # _ \<Rightarrow> (case je_id e of Some i \<Rightarrow> i | None \<Rightarrow> []) | [] \<Rightarrow> []),
            par_issues = map as_raw issues, par_source = None\<rparr>))"

subsection \<open>tryCatch\<close>

definition handle_error ::
  "string \<Rightarrow> thrown \<Rightarrow> (thrown \<Rightarrow> thrown + service_error) \<Rightarrow> (service_error, 'a) service_result" where
  "handle_error fresh error on_error =
     (case on_error error of
        Inr e \<Rightarrow> failure e
      | Inl mapping_error \<Rightarrow> failure (merge_errors fresh error [mapping_error]))"

definition try_catch ::
  "string \<Rightarrow> (unit \<Rightarrow> thrown + 'a) \<Rightarrow> (thrown \<Rightarrow> thrown + service_error) \<Rightarrow>
   (service_error, 'a) service_result" where
  "try_catch fresh f on_error =
     (case f () of Inr v \<Rightarrow> success v | Inl error \<Rightarrow> handle_error fresh error on_error)"

definition from_safe_parse ::
  "string \<Rightarrow> (string \<times> zod_issue list) + 'a \<Rightarrow> (service_error, 'a) service_result" where
  "from_safe_parse fresh r =
     (case r of Inr v \<Rightarrow> success v | Inl (m, is) \<Rightarrow> failure (from_zod_error fresh m is None))"

subsection \<open>Errors survive JSON:API\<close>

text \<open>An issue as the constructor leaves it: building it again changes nothing.\<close>

definition well_built :: "issue \<Rightarrow> bool" where
  "well_built i \<longleftrightarrow> to_issue (as_raw i) = i"

lemma to_issue_well_built [simp]: "well_built (to_issue r)"
  by (simp add: well_built_def as_raw_def to_issue_def Let_def split: option.splits)

lemma map_as_raw: "list_all well_built is \<Longrightarrow> map (\<lambda>i. to_issue (as_raw i)) is = is"
  by (induction "is") (simp_all add: well_built_def)

text \<open>What JSON:API carries of the rest of an issue: texts that are not empty and a status that
  is a whole number.\<close>

definition carried :: "issue \<Rightarrow> bool" where
  "carried i \<longleftrightarrow>
     well_built i \<and> iss_message i \<noteq> Some [] \<and> iss_title i \<noteq> Some [] \<and>
     (case get_status i of Some (Status n) \<Rightarrow> 0 \<le> n \<and> n < 2 ^ 53 | _ \<Rightarrow> False)"

text \<open>What becomes of a path: numbers come back as texts, an item is cut at its slashes, empty
  pieces vanish, and a path with nothing left is no path.\<close>

definition json_path :: "path_item list option \<Rightarrow> path_item list option" where
  "json_path path =
     (case path of
        None \<Rightarrow> None
      | Some p \<Rightarrow>
          let pieces = filter (\<lambda>s. s \<noteq> []) (concat (map (\<lambda>x. split_char CHR ''/'' (path_text x)) p))
          in if pieces = [] then None else Some (map Key pieces))"

definition plain_path :: "path_item list \<Rightarrow> bool" where
  "plain_path p \<longleftrightarrow>
     p \<noteq> [] \<and> list_all (\<lambda>x. case x of Key s \<Rightarrow> s \<noteq> [] \<and> CHR ''/'' \<notin> set s | Index _ \<Rightarrow> False) p"

definition explicit :: "issue \<Rightarrow> issue" where
  "explicit i = i\<lparr>iss_status := get_status i\<rparr>"

definition returned :: "issue \<Rightarrow> issue" where
  "returned i = (explicit i)\<lparr>iss_path := json_path (iss_path i)\<rparr>"

definition path_kept :: "issue \<Rightarrow> bool" where
  "path_kept i \<longleftrightarrow> (case iss_path i of None \<Rightarrow> True | Some p \<Rightarrow> plain_path p)"

lemma json_path_plain: "plain_path p \<Longrightarrow> json_path (Some p) = Some p"
proof -
  assume p: "plain_path p"
  then have "list_all (\<lambda>x. split_char CHR ''/'' (path_text x) = [path_text x] \<and> path_text x \<noteq> [] \<and>
      Key (path_text x) = x) p"
    by (auto simp: plain_path_def list_all_iff path_text_def split_char_none split: path_item.splits)
  then have "filter (\<lambda>s. s \<noteq> []) (concat (map (\<lambda>x. split_char CHR ''/'' (path_text x)) p)) = map path_text p \<and>
      map Key (map path_text p) = p"
    by (induction p) simp_all
  with p show ?thesis by (auto simp: json_path_def plain_path_def)
qed

lemma returned_plain: "path_kept i \<Longrightarrow> returned i = explicit i"
  by (cases "iss_path i") (simp_all add: returned_def explicit_def json_path_plain path_kept_def, simp add: json_path_def)

lemma source_path_back:
  "source_path (map_option (\<lambda>p. [(k, CHR ''/'' # join ''/'' (map path_text p))]) path) = json_path path"
proof (cases path)
  case (Some p)
  have "filter (\<lambda>s. s \<noteq> []) (split_char CHR ''/'' (CHR ''/'' # join ''/'' (map path_text p))) =
      filter (\<lambda>s. s \<noteq> []) (concat (map (\<lambda>x. split_char CHR ''/'' (path_text x)) p))"
    by (cases "p = []") (simp_all add: split_char_join_any comp_def)
  then show ?thesis by (simp add: source_path_def json_path_def Some)
qed (simp add: source_path_def json_path_def)

lemma read_status_show: "0 \<le> n \<Longrightarrow> n < 2 ^ 53 \<Longrightarrow> read_status (show_int n) = Status n"
  using to_number_show_nat [of n] by (simp add: read_status_def show_int_def)

lemma issue_round_trip:
  assumes "carried i"
  shows "to_issue
      \<lparr>raw_code = Some (iss_code i),
       raw_message = (case iss_message i of Some m \<Rightarrow> if m \<noteq> [] then Some m else None | None \<Rightarrow> None),
       raw_path = source_path (map_option (\<lambda>p. [(k, CHR ''/'' # join ''/'' (map path_text p))]) (iss_path i)),
       raw_title = truthy (iss_title i),
       raw_status = map_option read_status (truthy (Some (status_text (get_status i))))\<rparr> = returned i"
proof -
  obtain n where n: "get_status i = Some (Status n)" "0 \<le> n" "n < 2 ^ 53"
    using assms by (auto simp: carried_def split: option.splits status.splits)
  have "truthy (Some (show_int n)) = Some (show_int n)"
    using show_nat_ne n(2) by (simp add: truthy_def show_int_def)
  then have st: "map_option read_status (truthy (Some (status_text (get_status i)))) = get_status i"
    using n read_status_show by (simp add: status_text_def)
  have msg: "(case iss_message i of Some m \<Rightarrow> if m \<noteq> [] then Some m else None | None \<Rightarrow> None) = iss_message i"
    using assms by (auto simp: carried_def split: option.splits)
  have title: "truthy (iss_title i) = iss_title i"
    using assms by (auto simp: carried_def truthy_def split: option.splits)
  have "to_issue (as_raw i) = i" using assms by (simp add: carried_def well_built_def)
  then show ?thesis
    unfolding st source_path_back msg title returned_def explicit_def
    by (cases i) (simp add: to_issue_def as_raw_def Let_def split: option.splits)
qed

lemma returned_well_built: "carried i \<Longrightarrow> well_built (returned i)"
  by (subst issue_round_trip [symmetric, of i "[]"]) simp_all

lemma get_status_returned: "get_status i \<noteq> None \<Longrightarrow> get_status (returned i) = get_status i"
proof -
  assume "get_status i \<noteq> None"
  then obtain s where s: "get_status i = Some s" by blast
  then have "returned i = i\<lparr>iss_status := Some s, iss_path := json_path (iss_path i)\<rparr>"
    by (simp add: returned_def explicit_def)
  with s show ?thesis by (simp add: get_status_def)
qed

lemma explicit_text: "issue_text (explicit i) = issue_text i"
  by (simp add: explicit_def issue_text_def)

text \<open>An error whose status and message are those of its issues, as the constructor makes it.\<close>

definition coherent :: "service_error \<Rightarrow> bool" where
  "coherent e \<longleftrightarrow> se_status e = status_of_issues (se_issues e) \<and>
     se_message e = create_service_error_message (se_issues e) \<and> list_all well_built (se_issues e)"

lemma new_service_error_coherent: "coherent (new_service_error fresh p)"
  by (auto simp: coherent_def new_service_error_def Let_def list_all_iff)

text \<open>C15: What becomes of a service error sent as JSON:API and read back, when its messages and
  titles are not empty texts and its statuses are whole numbers: it has the same identifier, the
  same status and the same issues with the same codes, messages and titles, their statuses written
  out; it points to no header or parameter and has no cause. Of a path the pieces between slashes
  come back as texts, so an issue is the same when its path, if it has one, consists of non-empty
  texts without slash; when all are, so is the message of the error.\<close>

theorem json_api_round_trip:
  assumes "coherent e" and "se_issues e \<noteq> []" and "list_all carried (se_issues e)"
  shows "from_json_api fresh (to_json_api e) =
      ServiceError (se_id e) (map returned (se_issues e)) (se_status e) Pointer
        (create_service_error_message (map returned (se_issues e))) None \<and>
    (list_all path_kept (se_issues e) \<longrightarrow>
      from_json_api fresh (to_json_api e) =
        ServiceError (se_id e) (map explicit (se_issues e)) (se_status e) Pointer (se_message e) None)"
proof -
  let ?issues = "se_issues e"
  have sent: "map (\<lambda>j. to_issue
      \<lparr>raw_code = Some (case je_code j of None \<Rightarrow> ''internal'' | Some c \<Rightarrow> c), raw_message = je_detail j,
       raw_path = source_path (je_source j), raw_title = truthy (je_title j),
       raw_status = map_option read_status (truthy (je_status j))\<rparr>) (to_json_api e) = map returned ?issues"
    using assms(3) issue_round_trip by (auto simp: to_json_api_def list_all_iff)
  have "get_status (returned i) = get_status i" if "i \<in> set ?issues" for i
  proof (rule get_status_returned)
    show "get_status i \<noteq> None" using assms(3) that by (auto simp: list_all_iff carried_def split: option.splits)
  qed
  then have same: "map (\<lambda>i. status_number (get_status (returned i))) ?issues =
      map (\<lambda>i. status_number (get_status i)) ?issues" by simp
  have status: "status_of_issues (map returned ?issues) = se_status e"
    using assms(1) unfolding coherent_def status_of_issues_def map_map comp_def same by simp
  obtain i rest where "?issues = i # rest" using assms(2) by (cases ?issues) auto
  then obtain j js where j: "to_json_api e = j # js" "je_id j = Some (se_id e)"
    by (auto simp: to_json_api_def)
  have wb: "list_all well_built (map returned ?issues)"
    using assms(3) returned_well_built by (auto simp: list_all_iff)
  have rebuilt: "map to_issue (map as_raw (map returned ?issues)) = map returned ?issues"
    using map_as_raw [OF wb] unfolding map_map comp_def .
  have read: "from_json_api fresh (to_json_api e) =
      ServiceError (se_id e) (map returned ?issues) (se_status e) Pointer
        (create_service_error_message (map returned ?issues)) None"
    unfolding from_json_api_def sent Let_def new_service_error_def sum.case
      service_error_params.simps rebuilt status using j by simp
  show ?thesis
  proof (intro conjI impI read)
    assume "list_all path_kept ?issues"
    then have kept: "map returned ?issues = map explicit ?issues"
      using returned_plain by (simp add: list_all_iff)
    have message: "create_service_error_message (map explicit ?issues) = se_message e"
      using assms(1) by (simp add: coherent_def create_service_error_message_def explicit_text comp_def)
    show "from_json_api fresh (to_json_api e) =
        ServiceError (se_id e) (map explicit ?issues) (se_status e) Pointer (se_message e) None"
      unfolding read kept message by (rule refl)
  qed
qed

definition example_error :: service_error where
  "example_error = new_service_error ''id-1'' (Inr
     \<lparr>par_cause = None, par_id = None,
      par_issues =
        [\<lparr>raw_code = Some ''badRequest'', raw_message = Some ''Invalid email'',
          raw_path = Some [Key ''data'', Key ''email''], raw_title = None, raw_status = None\<rparr>,
         \<lparr>raw_code = Some ''promo'', raw_message = None, raw_path = None, raw_title = None,
          raw_status = Some (Status 422)\<rparr>],
      par_source = Some Parameter\<rparr>)"

lemma json_api_round_trip_witness:
  "from_json_api ''x'' (to_json_api example_error) =
    ServiceError ''id-1'' (map explicit (se_issues example_error)) (Status 422) Pointer
      (se_message example_error) None"
proof -
  have "coherent example_error" unfolding example_error_def by (rule new_service_error_coherent)
  moreover have "se_issues example_error \<noteq> []" by code_simp
  moreover have "list_all carried (se_issues example_error)" by code_simp
  moreover have "list_all path_kept (se_issues example_error)" by code_simp
  ultimately have "from_json_api ''x'' (to_json_api example_error) =
      ServiceError (se_id example_error) (map explicit (se_issues example_error))
        (se_status example_error) Pointer (se_message example_error) None"
    using json_api_round_trip by blast
  moreover have "se_status example_error = Status 422" "se_id example_error = ''id-1''" by code_simp+
  ultimately show ?thesis by simp
qed

text \<open>A path with a position in a list comes back as another path, and an item with a slash as
  two.\<close>

theorem path_not_returned:
  "json_path (Some [Key ''items'', Index 0]) = Some [Key ''items'', Key ''0''] \<and>
   json_path (Some [Key ''a/b'']) = Some [Key ''a'', Key ''b'']"
  by code_simp

subsection \<open>Merging\<close>

lemma from_unknown_coherent:
  assumes "\<And>e. v = ThrownServiceError e \<Longrightarrow> coherent e"
  shows "coherent (from_unknown fresh v)"
  using assms by (cases v) (simp_all add: from_unknown_def new_service_error_coherent)

text \<open>The service errors among the thrown values were built by the constructor.\<close>

definition thrown_ok :: "thrown \<Rightarrow> bool" where
  "thrown_ok v = (case v of ThrownServiceError e \<Rightarrow> coherent e | _ \<Rightarrow> True)"

lemma from_unknown_ok: "thrown_ok v \<Longrightarrow> coherent (from_unknown fresh v)"
  by (rule from_unknown_coherent) (simp add: thrown_ok_def)

lemma status_of_issues_concat:
  "status_of_issues (concat iss) = math_max (map status_of_issues iss)"
  by (simp add: status_of_issues_def [abs_def] map_concat math_max_concat comp_def)

lemma merge_errors_spec:
  assumes "list_all thrown_ok (v # vs)"
  shows "se_issues (merge_errors fresh v vs) = concat (map (\<lambda>x. se_issues (from_unknown fresh x)) (v # vs)) \<and>
    se_status (merge_errors fresh v vs) = math_max (map (\<lambda>x. se_status (from_unknown fresh x)) (v # vs)) \<and>
    coherent (merge_errors fresh v vs)"
proof (cases vs)
  case Nil
  with assms show ?thesis
    by (simp add: merge_errors_def math_max_def from_unknown_ok)
next
  case (Cons w ws)
  let ?es = "map (from_unknown fresh) (v # vs)"
  let ?issues = "concat (map se_issues ?es)"
  have ok: "list_all coherent ?es"
    using assms from_unknown_ok by (auto simp: list_all_iff)
  then have "list_all well_built ?issues"
    by (auto simp: list_all_iff coherent_def)
  then have built: "map (\<lambda>i. to_issue (as_raw i)) ?issues = ?issues" by (rule map_as_raw)
  have issues: "se_issues (merge_errors fresh v vs) = ?issues"
    using built Cons by (simp add: merge_errors_def new_service_error_def Let_def comp_def)
  have coherent: "coherent (merge_errors fresh v vs)"
    using Cons by (simp add: merge_errors_def new_service_error_coherent Let_def)
  have "se_status (merge_errors fresh v vs) = status_of_issues ?issues"
    using coherent issues by (simp add: coherent_def)
  also have "\<dots> = math_max (map status_of_issues (map se_issues ?es))"
    by (rule status_of_issues_concat)
  also have "map status_of_issues (map se_issues ?es) = map se_status ?es"
    using ok by (auto simp: list_all_iff coherent_def)
  finally show ?thesis using issues coherent by (simp add: comp_def)
qed

text \<open>C28: Merging errors keeps every issue of every one of them, in order, and the status of
  the merged error is the highest of theirs.\<close>

theorem merge_keeps_every_issue:
  assumes "list_all thrown_ok (v # vs)"
  shows "se_issues (merge_errors fresh v vs) = concat (map (\<lambda>x. se_issues (from_unknown fresh x)) (v # vs)) \<and>
    se_status (merge_errors fresh v vs) = math_max (map (\<lambda>x. se_status (from_unknown fresh x)) (v # vs)) \<and>
    coherent (merge_errors fresh v vs)"
  using assms by (rule merge_errors_spec)

lemma merge_keeps_every_issue_witness:
  "se_status (merge_errors ''f'' (ThrownServiceError example_error) [ThrownString ''boom'']) = Status 500"
proof -
  have "list_all thrown_ok [ThrownServiceError example_error, ThrownString ''boom'']"
    by (simp add: thrown_ok_def example_error_def new_service_error_coherent)
  note merged = merge_keeps_every_issue [OF this, of "''f''"]
  have "math_max (map (\<lambda>x. se_status (from_unknown ''f'' x))
      [ThrownServiceError example_error, ThrownString ''boom'']) = Status 500" by code_simp
  with merged show ?thesis by simp
qed

text \<open>An error code that names something every object inherits is taken for a known code:
  the error then has no status number and no title, where any other unknown code is a 500.\<close>

theorem inherited_code_has_no_status:
  "se_status (new_service_error fresh (Inr \<lparr>par_cause = None, par_id = None,
      par_issues = [\<lparr>raw_code = Some ''constructor'', raw_message = None, raw_path = None,
        raw_title = None, raw_status = None\<rparr>], par_source = None\<rparr>)) = NotANumber \<and>
   se_status (new_service_error fresh (Inr \<lparr>par_cause = None, par_id = None,
      par_issues = [\<lparr>raw_code = Some ''promo'', raw_message = None, raw_path = None,
        raw_title = None, raw_status = None\<rparr>], par_source = None\<rparr>)) = Status 500"
  by code_simp

text \<open>A failing error mapper does not escape: both failures end up in the result.\<close>

lemma try_catch_double_fault:
  assumes "f () = Inl error" and "on_error error = Inl mapping_error"
    and "thrown_ok error" and "thrown_ok mapping_error"
  shows "\<exists>e. try_catch fresh f on_error = failure e \<and>
    se_issues e = se_issues (from_unknown fresh error) @ se_issues (from_unknown fresh mapping_error)"
proof (intro exI conjI)
  show "try_catch fresh f on_error = failure (merge_errors fresh error [mapping_error])"
    using assms(1,2) by (simp add: try_catch_def handle_error_def)
  show "se_issues (merge_errors fresh error [mapping_error]) =
      se_issues (from_unknown fresh error) @ se_issues (from_unknown fresh mapping_error)"
    using assms(3,4) merge_errors_spec [of error "[mapping_error]" fresh] by simp
qed

end
