(* ===== verification/NotificationRequest.thy ===== *)
theory NotificationRequest
  imports Json ServiceErrors
begin

section \<open>notifications: requests, keys and errors\<close>

text \<open>
  Models the pure parts of the notifications package: the request types and their serializable
  forms, \<open>toTriggerChunkedRequest\<close>, the conversions to the provider's bodies, the chunks of
  recipients, idempotency keys and their hashes, redaction, and the classification of errors.
  Formatting a phone number and SHA-256 are parameters. A date's type is a parameter of the
  request records: a text in a serialized request, a time (or an invalid date) otherwise.
\<close>

subsection \<open>Requests\<close>

type_synonym date = "int option"

record 'd inline_user =
  iu_user_id :: string
  iu_channel_data :: "js_object option"
  iu_created_at :: "'d option"
  iu_email :: "string option"
  iu_name :: "string option"
  iu_phone_number :: "string option"
  iu_time_zone :: "string option"
  iu_custom_properties :: "js_object option"
  iu_trigger_data :: "js_object option"

datatype 'd recipient = UserId string | InlineUser "'d inline_user"

record attachment =
  att_name :: string
  att_content_type :: string
  att_content :: string

record 'd trigger_body =
  tb_recipients :: "'d recipient list"
  tb_actor :: "'d recipient option"
  tb_attachments :: "attachment list option"
  tb_cancellation_key :: "string option"
  tb_data :: "js_object option"
  tb_workplace_id :: "string option"

record trigger_request =
  tr_attempt :: int
  tr_body :: "date trigger_body"
  tr_dry_run :: "bool option"
  tr_expires_at :: date
  tr_idempotency_key :: string
  tr_keys_to_redact :: "string list option"
  tr_workflow_key :: string

record serial_request =
  sr_body :: "string trigger_body"
  sr_dry_run :: "bool option"
  sr_expires_at :: string
  sr_keys_to_redact :: "string list option"
  sr_workflow_key :: string

text \<open>\<open>toTriggerChunkedRequest\<close>: the job supplies the attempt and the base of the keys. A chunked
  request has the shape of a plain one; only its key is a base instead of a whole key.\<close>

definition to_recipient_request :: "(string \<Rightarrow> date) \<Rightarrow> string recipient \<Rightarrow> date recipient" where
  "to_recipient_request new_date r =
     (case r of
        UserId u \<Rightarrow> UserId u
      | InlineUser i \<Rightarrow> InlineUser
          \<lparr>iu_user_id = iu_user_id i, iu_channel_data = iu_channel_data i,
           iu_created_at = map_option new_date (truthy (iu_created_at i)),
           iu_email = iu_email i, iu_name = iu_name i, iu_phone_number = iu_phone_number i,
           iu_time_zone = iu_time_zone i, iu_custom_properties = iu_custom_properties i,
           iu_trigger_data = iu_trigger_data i\<rparr>)"

definition to_trigger_chunked_request ::
  "(string \<Rightarrow> date) \<Rightarrow> serial_request \<Rightarrow> int \<Rightarrow> string \<Rightarrow> trigger_request" where
  "to_trigger_chunked_request new_date req attempt key =
     (let b = sr_body req in
      \<lparr>tr_attempt = attempt,
       tr_body =
         \<lparr>tb_recipients = map (to_recipient_request new_date) (tb_recipients b),
          tb_actor = map_option (to_recipient_request new_date) (tb_actor b),
          tb_attachments = tb_attachments b, tb_cancellation_key = tb_cancellation_key b,
          tb_data = tb_data b, tb_workplace_id = tb_workplace_id b\<rparr>,
       tr_dry_run = sr_dry_run req,
       tr_expires_at = new_date (sr_expires_at req),
       tr_idempotency_key = key,
       tr_keys_to_redact = sr_keys_to_redact req,
       tr_workflow_key = sr_workflow_key req\<rparr>)"

subsection \<open>Caught errors\<close>

text \<open>What \<open>toError\<close> makes of a caught value: a message, and its \<open>status\<close> when that is a number.\<close>

record caught =
  caught_message :: string
  caught_status :: "int option"

definition invalid_time :: caught where
  "invalid_time = \<lparr>caught_message = ''Invalid time value'', caught_status = None\<rparr>"

datatype error_code =
    ClientErrorCode | Expired | InvalidExpiresAt | InvalidIdempotencyKey | MissingSigningKey
  | RateLimited | RecipientCountAboveMaximum | RecipientCountBelowMinimum | Unknown

fun error_code_text :: "error_code \<Rightarrow> string" where
  "error_code_text ClientErrorCode = ''clientError''"
| "error_code_text Expired = ''expired''"
| "error_code_text InvalidExpiresAt = ''invalidExpiresAt''"
| "error_code_text InvalidIdempotencyKey = ''invalidIdempotencyKey''"
| "error_code_text MissingSigningKey = ''missingSigningKey''"
| "error_code_text RateLimited = ''rateLimited''"
| "error_code_text RecipientCountAboveMaximum = ''recipientCountAboveMaximum''"
| "error_code_text RecipientCountBelowMinimum = ''recipientCountBelowMinimum''"
| "error_code_text Unknown = ''unknown''"

definition to_notification_error :: "caught \<Rightarrow> error_code \<times> string" where
  "to_notification_error e =
     (case caught_status e of
        Some st \<Rightarrow>
          if st = 429 then (RateLimited, caught_message e)
          else if 400 \<le> st \<and> st \<le> 499 then (ClientErrorCode, caught_message e)
          else (Unknown, caught_message e)
      | None \<Rightarrow> (Unknown, caught_message e))"

definition client_error_codes :: "string list" where
  "client_error_codes = map error_code_text
     [ClientErrorCode, InvalidExpiresAt, InvalidIdempotencyKey, MissingSigningKey,
      RecipientCountAboveMaximum, RecipientCountBelowMinimum]"

definition is_client_error :: "string option \<Rightarrow> bool" where
  "is_client_error c = (case c of None \<Rightarrow> False | Some t \<Rightarrow> t \<in> set client_error_codes)"

definition errors_in_result :: "(service_error, 'a) service_result \<Rightarrow> string list \<Rightarrow> bool" where
  "errors_in_result r codes =
     (case r of
        Success v \<Rightarrow> False
      | Failure e \<Rightarrow> length codes = 0 \<or> list_ex (\<lambda>i. iss_code i \<in> set codes) (se_issues e))"

lemma error_code_text_inj: "error_code_text c = error_code_text d \<longleftrightarrow> c = d"
  by (cases c; cases d) simp_all

lemma is_client_error_code:
  "is_client_error (Some (error_code_text c)) \<longleftrightarrow> c \<notin> {Expired, RateLimited, Unknown}"
  by (cases c) (simp_all add: is_client_error_def client_error_codes_def)

subsection \<open>Bodies for the provider\<close>

definition optional :: "string \<Rightarrow> js option \<Rightarrow> js_object" where
  "optional k v = (case v of None \<Rightarrow> [] | Some x \<Rightarrow> [(k, x)])"

definition format_phone_number :: "(string \<Rightarrow> (string, string) either) \<Rightarrow> string \<Rightarrow> string" where
  "format_phone_number formatter n = either_get_or_else (\<lambda>_. n) (formatter n)"

definition to_inline_user_without_id ::
  "(string \<Rightarrow> (string, string) either) \<Rightarrow> date inline_user \<Rightarrow> caught + js_object" where
  "to_inline_user_without_id formatter i =
     bind_result (case iu_created_at i of
         None \<Rightarrow> Inr None
       | Some None \<Rightarrow> Inl invalid_time
       | Some (Some t) \<Rightarrow> Inr (Some (iso_string t))) (\<lambda>created.
     Inr (spread (case iu_custom_properties i of None \<Rightarrow> [] | Some ps \<Rightarrow> spread [] ps)
       (optional ''channel_data'' (map_option JObj (iu_channel_data i)) @
        optional ''created_at'' (map_option JStr created) @
        optional ''email'' (map_option JStr (truthy (iu_email i))) @
        optional ''name'' (map_option JStr (truthy (iu_name i))) @
        optional ''phone_number''
          (map_option (\<lambda>n. JStr (format_phone_number formatter n)) (truthy (iu_phone_number i))) @
        optional ''timezone'' (map_option JStr (truthy (iu_time_zone i))) @
        optional ''$trigger_data'' (map_option JObj (iu_trigger_data i)))))"

definition to_inline_user ::
  "(string \<Rightarrow> (string, string) either) \<Rightarrow> date inline_user \<Rightarrow> caught + js_object" where
  "to_inline_user formatter i =
     bind_result (to_inline_user_without_id formatter i) (\<lambda>ps.
       Inr (map_set ''id'' (JStr (iu_user_id i)) ps))"

definition to_recipient :: "(string \<Rightarrow> (string, string) either) \<Rightarrow> date recipient \<Rightarrow> caught + js" where
  "to_recipient formatter r =
     (case r of
        UserId u \<Rightarrow> Inr (JStr u)
      | InlineUser i \<Rightarrow> bind_result (to_inline_user formatter i) (\<lambda>ps. Inr (JObj ps)))"

definition to_knock_attachment :: "attachment \<Rightarrow> js" where
  "to_knock_attachment a =
     JObj [(''name'', JStr (att_name a)), (''content_type'', JStr (att_content_type a)),
       (''content'', JStr (att_content a))]"

definition knock_data :: "date trigger_body \<Rightarrow> js option" where
  "knock_data b =
     (case (tb_data b, tb_attachments b) of
        (None, None) \<Rightarrow> None
      | _ \<Rightarrow> Some (JObj (spread (case tb_data b of None \<Rightarrow> [] | Some d \<Rightarrow> spread [] d)
          (optional ''attachments''
            (map_option (\<lambda>as. JArr (map to_knock_attachment as)) (tb_attachments b))))))"

definition to_trigger_body ::
  "(string \<Rightarrow> (string, string) either) \<Rightarrow> date trigger_body \<Rightarrow> caught + js_object" where
  "to_trigger_body formatter b =
     bind_result (case tb_actor b of
         None \<Rightarrow> Inr None | Some a \<Rightarrow> bind_result (to_recipient formatter a) (\<lambda>v. Inr (Some v))) (\<lambda>actor.
     bind_result (traverse (to_recipient formatter) (tb_recipients b)) (\<lambda>recipients.
       Inr (optional ''actor'' actor @
         optional ''cancellation_key'' (map_option JStr (truthy (tb_cancellation_key b))) @
         optional ''tenant'' (map_option JStr (truthy (tb_workplace_id b))) @
         [(''recipients'', JArr recipients)] @
         optional ''data'' (knock_data b))))"

record workplace_request =
  wr_workplace_id :: string
  wr_created_at :: "date option"
  wr_email :: "string option"
  wr_name :: "string option"
  wr_phone_number :: "string option"
  wr_time_zone :: "string option"

definition to_tenant_set_request ::
  "(string \<Rightarrow> (string, string) either) \<Rightarrow> workplace_request \<Rightarrow> caught + js_object" where
  "to_tenant_set_request formatter w =
     to_inline_user_without_id formatter
       \<lparr>iu_user_id = [], iu_channel_data = None, iu_created_at = wr_created_at w, iu_email = wr_email w,
        iu_name = wr_name w, iu_phone_number = wr_phone_number w, iu_time_zone = wr_time_zone w,
        iu_custom_properties = None, iu_trigger_data = None\<rparr>"

subsection \<open>User preferences\<close>

record channel_types =
  ct_chat :: "bool option"
  ct_email :: "bool option"
  ct_http :: "bool option"
  ct_in_app_feed :: "bool option"
  ct_push :: "bool option"
  ct_sms :: "bool option"

record preference_overrides =
  po_channel_types :: "channel_types nullable"
  po_channels :: "(string, bool) js_map nullable"

datatype preference_setting = Flag bool | Overrides preference_overrides

record preferences_request =
  pr_user_id :: string
  pr_channel_types :: "channel_types nullable"
  pr_channels :: "(string, bool) js_map nullable"
  pr_categories :: "(string, preference_setting) js_map nullable"
  pr_workflows :: "(string, preference_setting) js_map nullable"
  pr_commercial_subscribed :: "bool nullable"

text \<open>A property that is \<open>undefined\<close> is left out and keeps its setting; \<open>null\<close> clears it.\<close>

definition if_defined :: "string \<Rightarrow> ('a \<Rightarrow> js) \<Rightarrow> 'a nullable \<Rightarrow> js_object" where
  "if_defined k f v = (case v of Undef \<Rightarrow> [] | Nil \<Rightarrow> [(k, JNull)] | Value x \<Rightarrow> [(k, f x)])"

definition to_knock_channel_types :: "channel_types \<Rightarrow> js" where
  "to_knock_channel_types c =
     JObj (concat (map (\<lambda>(k, v). optional k (map_option JBool v))
       [(''chat'', ct_chat c), (''email'', ct_email c), (''http'', ct_http c),
        (''in_app_feed'', ct_in_app_feed c), (''push'', ct_push c), (''sms'', ct_sms c)]))"

definition flags_json :: "(string, bool) js_map \<Rightarrow> js" where
  "flags_json m = JObj (map (\<lambda>(k, b). (k, JBool b)) m)"

definition to_knock_overrides :: "preference_setting \<Rightarrow> js" where
  "to_knock_overrides p =
     (case p of
        Flag b \<Rightarrow> JBool b
      | Overrides q \<Rightarrow> JObj
          (if_defined ''channel_types'' to_knock_channel_types (po_channel_types q) @
           if_defined ''channels'' flags_json (po_channels q)))"

definition to_knock_overrides_map :: "(string, preference_setting) js_map \<Rightarrow> js" where
  "to_knock_overrides_map m = JObj (map (\<lambda>(k, p). (k, to_knock_overrides p)) m)"

definition to_knock_user_preferences :: "preferences_request \<Rightarrow> js_object" where
  "to_knock_user_preferences p =
     if_defined ''commercial_subscribed'' JBool (pr_commercial_subscribed p) @
     if_defined ''channel_types'' to_knock_channel_types (pr_channel_types p) @
     if_defined ''channels'' flags_json (pr_channels p) @
     if_defined ''categories'' to_knock_overrides_map (pr_categories p) @
     if_defined ''workflows'' to_knock_overrides_map (pr_workflows p)"

subsection \<open>Chunks\<close>

definition maximum_recipients_count :: nat where "maximum_recipients_count = 1000"

definition chunk_recipients :: "'a list \<Rightarrow> (nat \<times> 'a list) list" where
  "chunk_recipients recipients =
     (if length recipients = 0 then [(1, [])]
      else (case chunk recipients (Some (int maximum_recipients_count)) of
              Inl _ \<Rightarrow> []
            | Inr cs \<Rightarrow> map (\<lambda>(i, c). (i + 1, c)) (enumerate 0 cs)))"

subsection \<open>Idempotency keys\<close>

definition is_trigger_key_params :: "js \<Rightarrow> bool" where
  "is_trigger_key_params v =
     (case v of
        JObj ps \<Rightarrow>
          map_has ps ''chunk'' \<and> map_has ps ''workflowKey'' \<and>
          (case map_get ps ''recipients'' of
             Some (JArr rs) \<Rightarrow> list_all (\<lambda>r. case r of JStr _ \<Rightarrow> True | _ \<Rightarrow> False) rs
           | _ \<Rightarrow> False)
      | _ \<Rightarrow> False)"

definition parse_trigger_key :: "string \<Rightarrow> js_object option" where
  "parse_trigger_key key =
     (case parse_json key of
        Some (JObj ps) \<Rightarrow> if is_trigger_key_params (JObj ps) then Some ps else None
      | _ \<Rightarrow> None)"

definition make_trigger_key :: "js_object \<Rightarrow> string" where
  "make_trigger_key ps = (case stringify (JObj ps) of None \<Rightarrow> [] | Some s \<Rightarrow> s)"

definition property :: "js_object \<Rightarrow> string \<Rightarrow> js" where
  "property ps k = (case map_get ps k of None \<Rightarrow> JUndefined | Some v \<Rightarrow> v)"

definition member :: "js \<Rightarrow> string \<Rightarrow> js" where
  "member v k = (case v of JObj ps \<Rightarrow> property ps k | _ \<Rightarrow> JUndefined)"

definition string_value :: "js \<Rightarrow> string" where
  "string_value v = (case v of JStr s \<Rightarrow> s | _ \<Rightarrow> [])"

definition sorted_recipients :: "js \<Rightarrow> js" where
  "sorted_recipients v =
     (case v of JArr rs \<Rightarrow> JArr (map JStr (sort (map string_value rs))) | _ \<Rightarrow> JUndefined)"

definition key_params_sorted :: "js_object \<Rightarrow> string option \<Rightarrow> js" where
  "key_params_sorted ps workplace =
     JObj [(''chunk'', property ps ''chunk''),
       (''eventOccurredAt'', property ps ''eventOccurredAt''),
       (''recipients'', sorted_recipients (property ps ''recipients'')),
       (''resource'', JObj [(''id'', member (property ps ''resource'') ''id''),
          (''type'', member (property ps ''resource'') ''type'')]),
       (''workflowKey'', property ps ''workflowKey''),
       (''workplaceId'', case workplace of None \<Rightarrow> JUndefined | Some w \<Rightarrow> JStr w)]"

text \<open>\<open>createDeterministicHash\<close>; \<open>None\<close>: there is no text to hash, and it throws.\<close>

definition create_deterministic_hash :: "(string \<Rightarrow> string) \<Rightarrow> js \<Rightarrow> string option" where
  "create_deterministic_hash sha v =
     (case v of JStr s \<Rightarrow> Some (sha s) | _ \<Rightarrow> map_option sha (stringify v))"

definition key_params_to_hash :: "(string \<Rightarrow> string) \<Rightarrow> js_object \<Rightarrow> string option \<Rightarrow> string" where
  "key_params_to_hash sha ps workplace =
     (case create_deterministic_hash sha (key_params_sorted ps workplace) of None \<Rightarrow> [] | Some h \<Rightarrow> h)"

subsection \<open>Redaction\<close>

definition redacted :: js where "redacted = JStr ''[REDACTED]''"

fun redact_value :: "string list \<Rightarrow> js \<Rightarrow> js"
and redact_elements :: "string list \<Rightarrow> js list \<Rightarrow> js list"
and redact_members :: "string list \<Rightarrow> (string \<times> js) list \<Rightarrow> (string \<times> js) list" where
  "redact_value keys (JArr vs) = JArr (redact_elements keys vs)"
| "redact_value keys (JObj ps) = JObj (redact_members keys ps)"
| "redact_value keys JNull = JNull"
| "redact_value keys JUndefined = JUndefined"
| "redact_value keys (JBool b) = JBool b"
| "redact_value keys (JInt n) = JInt n"
| "redact_value keys (JReal s) = JReal s"
| "redact_value keys (JStr s) = JStr s"
| "redact_value keys (JDate d) = JDate d"
| "redact_value keys (JError m ps) = JError m ps"
| "redact_elements keys [] = []"
| "redact_elements keys (v # vs) = redact_value keys v # redact_elements keys vs"
| "redact_members keys [] = []"
| "redact_members keys ((k, v) # ps) =
     (k, if k \<noteq> [] \<and> k \<in> set keys then redacted else redact_value keys v) # redact_members keys ps"

definition redact :: "string list \<Rightarrow> js_object option \<Rightarrow> js" where
  "redact keys data = (case data of None \<Rightarrow> JUndefined | Some d \<Rightarrow> JObj (redact_members keys d))"

end
