(* ===== verification/NotificationClient.thy ===== *)
theory NotificationClient
  imports NotificationRequest
begin

section \<open>notifications: the client\<close>

text \<open>
  Models \<open>notificationClient.ts\<close>. The provider is a parameter: a state of any type and one
  function per call, which may fail with a caught error. Everything observable is an event of the
  world, in order: traces and their tags, log lines with their payload, and the calls made to the
  provider. The clock is an argument; the fresh identifier of an error and the optional span are
  part of the configuration.
\<close>

subsection \<open>The world\<close>

record trigger_response =
  run_id :: string
  run_json :: js

record tenant_response =
  tenant_id :: string
  tenant_name :: "string option"

datatype provider_call =
    TriggerCall string js_object string
  | CancelCall string js_object
  | GetChannelCall string string
  | SetChannelCall string string "string list"
  | SetTenantCall string js_object
  | SetPreferencesCall string js_object

record 'p knock =
  knock_trigger :: "'p \<Rightarrow> string \<Rightarrow> js_object \<Rightarrow> string \<Rightarrow> 'p \<times> (caught + trigger_response)"
  knock_cancel :: "'p \<Rightarrow> string \<Rightarrow> js_object \<Rightarrow> 'p \<times> (caught + unit)"
  knock_get_channel :: "'p \<Rightarrow> string \<Rightarrow> string \<Rightarrow> 'p \<times> (caught + string list option)"
  knock_set_channel :: "'p \<Rightarrow> string \<Rightarrow> string \<Rightarrow> string list \<Rightarrow> 'p \<times> (caught + string list option)"
  knock_set_tenant :: "'p \<Rightarrow> string \<Rightarrow> js_object \<Rightarrow> 'p \<times> (caught + tenant_response)"
  knock_set_preferences :: "'p \<Rightarrow> string \<Rightarrow> js_object \<Rightarrow> 'p \<times> (caught + js)"
  knock_sign :: "string \<Rightarrow> string \<Rightarrow> int \<Rightarrow> caught + string"

record client =
  cl_signing_key :: "string option"
  cl_has_span :: bool
  cl_fresh :: string
  cl_formatter :: "string \<Rightarrow> (string, string) either"
  cl_sha :: "string \<Rightarrow> string"

datatype level = Info | Warn | Err

datatype event =
    Traced string js_object
  | Tagged js_object
  | Logged level string js_object
  | Called provider_call

record 'p world =
  w_provider :: 'p
  w_events :: "event list"

definition emit :: "event \<Rightarrow> 'p world \<Rightarrow> 'p world" where
  "emit e w = w\<lparr>w_events := w_events w @ [e]\<rparr>"

definition tag :: "client \<Rightarrow> js_object \<Rightarrow> 'p world \<Rightarrow> 'p world" where
  "tag cl tags w = (if cl_has_span cl then emit (Tagged tags) w else w)"

definition ask :: "provider_call \<Rightarrow> ('p \<Rightarrow> 'p \<times> 'r) \<Rightarrow> 'p world \<Rightarrow> 'p world \<times> 'r" where
  "ask c f w =
     (case f (w_provider w) of (p, r) \<Rightarrow> ((emit (Called c) w)\<lparr>w_provider := p\<rparr>, r))"

subsection \<open>Log parameters and errors\<close>

record log_context =
  ctx_trace :: string
  ctx_params :: js_object

definition nat_js :: "nat \<Rightarrow> js" where "nat_js n = JInt (int n)"

definition log_entry :: "level \<Rightarrow> log_context \<Rightarrow> string \<Rightarrow> js_object \<Rightarrow> 'p world \<Rightarrow> 'p world" where
  "log_entry l ctx text extra w =
     emit (Logged l (ctx_trace ctx @ text) (spread (ctx_params ctx) extra)) w"

definition dry_run_of :: "bool option \<Rightarrow> bool" where
  "dry_run_of d = (case d of None \<Rightarrow> False | Some b \<Rightarrow> b)"

definition trigger_log_params :: "string \<Rightarrow> string \<Rightarrow> trigger_request \<Rightarrow> log_context" where
  "trigger_log_params name destination req =
     \<lparr>ctx_trace = name,
      ctx_params =
        [(''attempt'', JInt (tr_attempt req)), (''destination'', JStr destination),
         (''dryRun'', JBool (dry_run_of (tr_dry_run req))),
         (''idempotencyKey'', JStr (tr_idempotency_key req)),
         (''workflowKey'', JStr (tr_workflow_key req)), (''traceName'', JStr name)]\<rparr>"

definition bool_text :: "bool \<Rightarrow> string" where
  "bool_text b = (if b then ''true'' else ''false'')"

definition trigger_trace_options :: "string \<Rightarrow> trigger_request \<Rightarrow> js_object" where
  "trigger_trace_options destination req =
     [(''resource'', JStr (''notification.'' @ tr_workflow_key req)),
      (''tags'', JObj
        [(''span.kind'', JStr ''producer''), (''component'', JStr ''customer-notifications''),
         (''messaging.system'', JStr ''knock.app''), (''messaging.operation'', JStr ''publish''),
         (''messaging.destination'', JStr destination),
         (''notification.attempt'', JStr (show_int (tr_attempt req))),
         (''notification.dryRun'', JStr (bool_text (dry_run_of (tr_dry_run req))))])]"

definition notification_error :: "client \<Rightarrow> error_code \<Rightarrow> string \<Rightarrow> service_error" where
  "notification_error cl c message =
     new_service_error (cl_fresh cl) (Inr
       \<lparr>par_cause = None, par_id = None,
        par_issues = [\<lparr>raw_code = Some (error_code_text c), raw_message = Some message,
          raw_path = None, raw_title = None, raw_status = None\<rparr>],
        par_source = None\<rparr>)"

definition create_and_log_error ::
  "client \<Rightarrow> bool \<Rightarrow> level \<Rightarrow> log_context \<Rightarrow> error_code \<times> string \<Rightarrow> js_object \<Rightarrow> 'p world \<Rightarrow>
   'p world \<times> (service_error, 'a) service_result" where
  "create_and_log_error cl spanned l ctx err metadata w =
     (case err of (c, message) \<Rightarrow>
        let w1 = (if spanned
                  then tag cl [(''error'', JBool True), (''error.type'', JStr (error_code_text c)),
                         (''error.message'', JStr message)] w
                  else w)
        in (log_entry l ctx ('' ['' @ error_code_text c @ ''] '' @ message) metadata w1,
            failure (notification_error cl c message)))"

definition caught_json :: "caught \<Rightarrow> js" where
  "caught_json e = JError (caught_message e)
     (case caught_status e of None \<Rightarrow> [] | Some st \<Rightarrow> [(''status'', JInt st)])"

subsection \<open>Validation\<close>

definition too_few :: "nat \<Rightarrow> error_code \<times> string" where
  "too_few n = (RecipientCountBelowMinimum, ''Got '' @ show_int (int n) @ '' recipients; must be > 0.'')"

definition too_many :: "nat \<Rightarrow> error_code \<times> string" where
  "too_many n = (RecipientCountAboveMaximum,
     ''Got '' @ show_int (int n) @ '' recipients; must be <= '' @
     show_int (int maximum_recipients_count) @ ''.'')"

definition expired_error :: "int \<Rightarrow> int \<Rightarrow> error_code \<times> string" where
  "expired_error now t =
     (Expired, ''Got '' @ iso_string now @ ''; notification expires at '' @ iso_string t @ ''.'')"

definition expiry_metadata :: "int \<Rightarrow> int \<Rightarrow> js_object" where
  "expiry_metadata now t =
     [(''currentTime'', JStr (iso_string now)), (''expiresAt'', JStr (iso_string t))]"

text \<open>What is wrong with a request, if anything, and what the log line adds. A comparison with an
  invalid date is false, so an invalid expiry never expires here.\<close>

definition check_trigger ::
  "int \<Rightarrow> trigger_request \<Rightarrow> (error_code \<times> string) \<times> js_object + js_object" where
  "check_trigger now req =
     (let n = length (tb_recipients (tr_body req)) in
      if n \<le> 0 then Inl (too_few n, [])
      else if n > maximum_recipients_count then Inl (too_many n, [(''recipientsCount'', nat_js n)])
      else (case parse_trigger_key (tr_idempotency_key req) of
              None \<Rightarrow> Inl ((InvalidIdempotencyKey, ''Invalid idempotency key: '' @ tr_idempotency_key req), [])
            | Some ps \<Rightarrow>
                (case tr_expires_at req of
                   Some t \<Rightarrow>
                     if now > t then Inl (expired_error now t, expiry_metadata now t) else Inr ps
                 | None \<Rightarrow> Inr ps)))"

definition check_chunked ::
  "int \<Rightarrow> trigger_request \<Rightarrow> (error_code \<times> string) \<times> js_object + int" where
  "check_chunked now req =
     (let n = length (tb_recipients (tr_body req)) in
      if n \<le> 0 then Inl (too_few n, [])
      else (case tr_expires_at req of
              None \<Rightarrow> Inl ((InvalidExpiresAt, ''Invalid expiresAt: Invalid Date''), [])
            | Some t \<Rightarrow>
                if now > t then Inl (expired_error now t, expiry_metadata now t) else Inr t))"

subsection \<open>What is logged of a request\<close>

definition inline_user_json :: "date inline_user \<Rightarrow> js" where
  "inline_user_json i = JObj
     ([(''userId'', JStr (iu_user_id i))] @
      optional ''channelData'' (map_option JObj (iu_channel_data i)) @
      optional ''createdAt'' (map_option JDate (iu_created_at i)) @
      optional ''email'' (map_option JStr (iu_email i)) @
      optional ''name'' (map_option JStr (iu_name i)) @
      optional ''phoneNumber'' (map_option JStr (iu_phone_number i)) @
      optional ''timeZone'' (map_option JStr (iu_time_zone i)) @
      optional ''customProperties'' (map_option JObj (iu_custom_properties i)) @
      optional ''triggerData'' (map_option JObj (iu_trigger_data i)))"

definition recipient_json :: "date recipient \<Rightarrow> js" where
  "recipient_json r = (case r of UserId u \<Rightarrow> JStr u | InlineUser i \<Rightarrow> inline_user_json i)"

definition redacted_attachment :: "attachment \<Rightarrow> js" where
  "redacted_attachment a =
     JObj [(''name'', JStr (att_name a)), (''contentType'', JStr (att_content_type a)),
       (''content'', redacted)]"

definition redacted_body :: "string list \<Rightarrow> date trigger_body \<Rightarrow> js" where
  "redacted_body keys b = JObj
     ([(''recipients'', nat_js (length (tb_recipients b)))] @
      optional ''actor'' (map_option recipient_json (tb_actor b)) @
      optional ''attachments'' (map_option (\<lambda>as. JArr (map redacted_attachment as)) (tb_attachments b)) @
      optional ''cancellationKey'' (map_option JStr (tb_cancellation_key b)) @
      optional ''workplaceId'' (map_option JStr (tb_workplace_id b)) @
      [(''data'', redact keys (tb_data b))])"

definition keys_to_redact :: "trigger_request \<Rightarrow> string list" where
  "keys_to_redact req = (case tr_keys_to_redact req of None \<Rightarrow> [] | Some ks \<Rightarrow> ks)"

definition log_trigger_request :: "log_context \<Rightarrow> trigger_request \<Rightarrow> 'p world \<Rightarrow> 'p world" where
  "log_trigger_request ctx req w =
     log_entry Info ctx '' request''
       [(''redactedBody'', redacted_body (keys_to_redact req) (tr_body req))] w"

definition log_trigger_response ::
  "client \<Rightarrow> log_context \<Rightarrow> js \<Rightarrow> string \<Rightarrow> 'p world \<Rightarrow> 'p world" where
  "log_trigger_response cl ctx response rid w =
     log_entry Info ctx '' response'' [(''id'', JStr rid), (''response'', response)]
       (tag cl [(''response.id'', JStr rid), (''success'', JBool True)] w)"

subsection \<open>trigger\<close>

definition knock_destination :: string where "knock_destination = ''knock.workflows.trigger''"

definition dry_run_json :: js where "dry_run_json = JObj [(''dryRun'', JBool True)]"

definition call_trigger ::
  "'p knock \<Rightarrow> string \<Rightarrow> js_object \<Rightarrow> string \<Rightarrow> 'p world \<Rightarrow> 'p world \<times> (caught + trigger_response)" where
  "call_trigger kn workflow body key w =
     ask (TriggerCall workflow body key) (\<lambda>p. knock_trigger kn p workflow body key) w"

definition trigger ::
  "client \<Rightarrow> 'p knock \<Rightarrow> int \<Rightarrow> trigger_request \<Rightarrow> 'p world \<Rightarrow>
   'p world \<times> (service_error, string) service_result" where
  "trigger cl kn now req w =
     (let ctx = trigger_log_params ''notifications.trigger'' knock_destination req;
          w0 = emit (Traced (ctx_trace ctx) (trigger_trace_options knock_destination req)) w;
          failed = (\<lambda>e. create_and_log_error cl True Err ctx (to_notification_error e)
                       [(''error'', caught_json e)])
      in case check_trigger now req of
           Inl (err, metadata) \<Rightarrow> create_and_log_error cl True Warn ctx err metadata w0
         | Inr ps \<Rightarrow>
             (case to_trigger_body (cl_formatter cl) (tr_body req) of
                Inl e \<Rightarrow> failed e w0
              | Inr body \<Rightarrow>
                  let w1 = log_trigger_request ctx req w0 in
                  if dry_run_of (tr_dry_run req)
                  then (log_trigger_response cl ctx dry_run_json ''dry-run'' w1, success ''dry-run'')
                  else (case call_trigger kn (tr_workflow_key req) body
                               (key_params_to_hash (cl_sha cl) ps (tb_workplace_id (tr_body req))) w1 of
                          (w2, Inl e) \<Rightarrow> failed e w2
                        | (w2, Inr r) \<Rightarrow>
                            (log_trigger_response cl ctx (run_json r) (run_id r) w2, success (run_id r)))))"

subsection \<open>triggerChunked\<close>

definition chunk_key :: "trigger_request \<Rightarrow> nat \<Rightarrow> string" where
  "chunk_key req n = tr_idempotency_key req @ ''-'' @ show_int (int n)"

definition chunk_body :: "trigger_request \<Rightarrow> date recipient list \<Rightarrow> date trigger_body" where
  "chunk_body req rs = (tr_body req)\<lparr>tb_recipients := rs\<rparr>"

definition chunk_failed ::
  "client \<Rightarrow> log_context \<Rightarrow> trigger_request \<Rightarrow> int \<Rightarrow> nat \<Rightarrow> nat \<Rightarrow> nat \<Rightarrow> caught \<Rightarrow> 'p world \<Rightarrow>
   'p world \<times> (service_error, (nat \<times> string) list) service_result" where
  "chunk_failed cl ctx req expires count number completed e w =
     (case to_notification_error e of (c, message) \<Rightarrow>
        create_and_log_error cl True Err ctx
          (c, ''Chunk '' @ show_int (int number) @ ''/'' @ show_int (int count) @ '' failed: '' @ message)
          ([(''error'', caught_json e), (''chunkNumber'', nat_js number), (''totalChunks'', nat_js count),
            (''completedChunks'', nat_js completed), (''expiresAt'', JStr (iso_string expires)),
            (''workplaceId'', case tb_workplace_id (tr_body req) of None \<Rightarrow> JUndefined | Some p \<Rightarrow> JStr p)])
          w)"

fun send_chunks ::
  "client \<Rightarrow> 'p knock \<Rightarrow> log_context \<Rightarrow> trigger_request \<Rightarrow> int \<Rightarrow> nat \<Rightarrow> (nat \<times> string) list \<Rightarrow>
   (nat \<times> date recipient list) list \<Rightarrow> 'p world \<Rightarrow>
   'p world \<times> (service_error, (nat \<times> string) list) service_result" where
  "send_chunks cl kn ctx req expires count responses [] w = (w, success responses)"
| "send_chunks cl kn ctx req expires count responses ((number, rs) # rest) w =
     (case to_trigger_body (cl_formatter cl) (chunk_body req rs) of
        Inl e \<Rightarrow> chunk_failed cl ctx req expires count number (length responses) e w
      | Inr body \<Rightarrow>
          (case call_trigger kn (tr_workflow_key req) body (chunk_key req number) w of
             (w1, Inl e) \<Rightarrow> chunk_failed cl ctx req expires count number (length responses) e w1
           | (w1, Inr r) \<Rightarrow>
               send_chunks cl kn ctx req expires count (responses @ [(number, run_id r)]) rest
                 (log_entry Info ctx '' chunk response''
                    [(''chunkNumber'', nat_js number), (''totalChunks'', nat_js count),
                     (''id'', JStr (run_id r))] w1)))"

definition responses_json :: "(nat \<times> string) list \<Rightarrow> js" where
  "responses_json rs =
     JArr (map (\<lambda>(n, i). JObj [(''chunkNumber'', nat_js n), (''id'', JStr i)]) rs)"

definition trigger_chunked ::
  "client \<Rightarrow> 'p knock \<Rightarrow> int \<Rightarrow> trigger_request \<Rightarrow> 'p world \<Rightarrow>
   'p world \<times> (service_error, (nat \<times> string) list) service_result" where
  "trigger_chunked cl kn now req w =
     (let ctx = trigger_log_params ''notifications.triggerChunked'' knock_destination req;
          w0 = emit (Traced (ctx_trace ctx) (trigger_trace_options knock_destination req)) w
      in case check_chunked now req of
           Inl (err, metadata) \<Rightarrow> create_and_log_error cl True Warn ctx err metadata w0
         | Inr expires \<Rightarrow>
             let w1 = log_trigger_request ctx req w0 in
             if dry_run_of (tr_dry_run req)
             then (log_trigger_response cl ctx dry_run_json ''dry-run'' w1, success [(1, ''dry-run'')])
             else
               let chunks = chunk_recipients (tb_recipients (tr_body req)) in
               (case send_chunks cl kn ctx req expires (length chunks) [] chunks w1 of
                  (w2, Failure e) \<Rightarrow> (w2, Failure e)
                | (w2, Success responses) \<Rightarrow>
                    (log_entry Info ctx '' response'' [(''responses'', responses_json responses)]
                       (tag cl [(''response.chunks'', nat_js (length responses)), (''success'', JBool True)] w2),
                     success responses)))"

subsection \<open>cancel\<close>

record cancel_request =
  cn_workflow_key :: string
  cn_cancellation_key :: string
  cn_recipients :: "string list option"
  cn_dry_run :: "bool option"

definition cancel ::
  "client \<Rightarrow> 'p knock \<Rightarrow> cancel_request \<Rightarrow> 'p world \<Rightarrow> 'p world \<times> (service_error + unit)" where
  "cancel cl kn req w =
     (let dry = dry_run_of (cn_dry_run req);
          name = ''notifications.cancel''; destination = ''knock.workflows.cancel'';
          ctx = \<lparr>ctx_trace = name, ctx_params =
                  [(''traceName'', JStr name), (''destination'', JStr destination),
                   (''workflowKey'', JStr (cn_workflow_key req)), (''dryRun'', JBool dry)]\<rparr>;
          options =
            [(''resource'', JStr (''notification.'' @ cn_workflow_key req)),
             (''tags'', JObj
               [(''span.kind'', JStr ''producer''), (''component'', JStr ''customer-notifications''),
                (''messaging.system'', JStr ''knock.app''), (''messaging.operation'', JStr ''publish''),
                (''messaging.destination'', JStr destination), (''notification.dryRun'', JStr (bool_text dry))])];
          w1 = log_entry Info ctx '' request''
                 [(''recipientCount'', case cn_recipients req of None \<Rightarrow> JUndefined
                     | Some rs \<Rightarrow> nat_js (length rs))] (emit (Traced name options) w);
          body = [(''cancellation_key'', JStr (cn_cancellation_key req))] @
                 optional ''recipients'' (map_option (\<lambda>rs. JArr (map JStr rs)) (cn_recipients req))
      in if dry then (log_entry Info ctx '' response'' [(''dryRun'', JBool True)] w1, Inr ())
         else (case ask (CancelCall (cn_workflow_key req) body)
                      (\<lambda>p. knock_cancel kn p (cn_workflow_key req) body) w1 of
                 (w2, Inr _) \<Rightarrow> (log_entry Info ctx '' response'' [] w2, Inr ())
               | (w2, Inl e) \<Rightarrow>
                   (case create_and_log_error cl True Err ctx (to_notification_error e)
                           [(''error'', caught_json e)] w2 :: 'p world \<times> (service_error, unit) service_result of
                      (w3, Failure err) \<Rightarrow> (w3, Inl err)
                    | (w3, Success _) \<Rightarrow> (w3, Inr ()))))"

subsection \<open>appendPushToken\<close>

text \<open>Split at its two calls: \<open>append_read\<close> gets the tokens there are, \<open>append_write\<close> sets them
  with the new one. Other calls may run between the two.\<close>

record push_request =
  pt_channel_id :: string
  pt_user_id :: string
  pt_token :: string

definition push_context :: "push_request \<Rightarrow> log_context" where
  "push_context req =
     (let name = ''notifications.appendPushToken'' in
      \<lparr>ctx_trace = name, ctx_params =
        [(''traceName'', JStr name), (''destination'', JStr ''knock.users.setChannelData''),
         (''userId'', JStr (pt_user_id req)), (''channelId'', JStr (pt_channel_id req))]\<rparr>)"

definition tokens_or_none :: "string list option \<Rightarrow> string list" where
  "tokens_or_none ts = (case ts of None \<Rightarrow> [] | Some xs \<Rightarrow> xs)"

definition existing_tokens ::
  "'p knock \<Rightarrow> push_request \<Rightarrow> 'p world \<Rightarrow> 'p world \<times> (caught + string list)" where
  "existing_tokens kn req w =
     (case ask (GetChannelCall (pt_user_id req) (pt_channel_id req))
             (\<lambda>p. knock_get_channel kn p (pt_user_id req) (pt_channel_id req)) w of
        (w1, Inr ts) \<Rightarrow> (w1, Inr (tokens_or_none ts))
      | (w1, Inl e) \<Rightarrow>
          if caught_status e = Some 404
          then (log_entry Info (push_context req) '' no existing channel data'' [] w1, Inr [])
          else (w1, Inl e))"

definition push_failed ::
  "client \<Rightarrow> push_request \<Rightarrow> caught \<Rightarrow> 'p world \<Rightarrow> 'p world \<times> (service_error, bool) service_result" where
  "push_failed cl req e w =
     create_and_log_error cl False Err (push_context req) (to_notification_error e)
       [(''error'', caught_json e)] w"

definition append_read ::
  "'p knock \<Rightarrow> push_request \<Rightarrow> 'p world \<Rightarrow> 'p world \<times> (caught + string list)" where
  "append_read kn req w =
     (case existing_tokens kn req (log_entry Info (push_context req) '' request'' [] w) of
        (w1, Inl e) \<Rightarrow> (w1, Inl e)
      | (w1, Inr ts) \<Rightarrow>
          (log_entry Info (push_context req) '' existing tokens''
             [(''existingTokenCount'', nat_js (length ts))] w1, Inr ts))"

definition append_write ::
  "client \<Rightarrow> 'p knock \<Rightarrow> push_request \<Rightarrow> string list \<Rightarrow> 'p world \<Rightarrow>
   'p world \<times> (service_error, bool) service_result" where
  "append_write cl kn req existing w =
     (let tokens = set_of_list (existing @ [pt_token req]) in
      case ask (SetChannelCall (pt_user_id req) (pt_channel_id req) tokens)
             (\<lambda>p. knock_set_channel kn p (pt_user_id req) (pt_channel_id req) tokens) w of
        (w1, Inl e) \<Rightarrow> push_failed cl req e w1
      | (w1, Inr ts) \<Rightarrow>
          (log_entry Info (push_context req) '' response''
             [(''response'', JObj [(''tokenCount'', nat_js (length (tokens_or_none ts)))])] w1,
           success True))"

definition append_push_token ::
  "client \<Rightarrow> 'p knock \<Rightarrow> push_request \<Rightarrow> 'p world \<Rightarrow> 'p world \<times> (service_error, bool) service_result" where
  "append_push_token cl kn req w =
     (case append_read kn req w of
        (w1, Inl e) \<Rightarrow> push_failed cl req e w1
      | (w1, Inr ts) \<Rightarrow> append_write cl kn req ts w1)"

subsection \<open>signUserToken, upsertWorkplace, upsertUserPreferences\<close>

definition context_of :: "string \<Rightarrow> string \<Rightarrow> js_object \<Rightarrow> log_context" where
  "context_of name destination params =
     \<lparr>ctx_trace = name,
      ctx_params = spread [(''traceName'', JStr name), (''destination'', JStr destination)] params\<rparr>"

definition sign_user_token ::
  "client \<Rightarrow> 'p knock \<Rightarrow> string \<Rightarrow> int option \<Rightarrow> 'p world \<Rightarrow>
   'p world \<times> (service_error, string) service_result" where
  "sign_user_token cl kn user expires w =
     (let seconds = (case expires of None \<Rightarrow> 3600 | Some n \<Rightarrow> n);
          ctx = context_of ''notifications.signUserToken'' ''knock.signUserToken''
                  [(''userId'', JStr user), (''expiresInSeconds'', JInt seconds)]
      in case truthy (cl_signing_key cl) of
           None \<Rightarrow> create_and_log_error cl False Warn ctx (MissingSigningKey, ''Missing signing key.'') [] w
         | Some key \<Rightarrow>
             let w1 = log_entry Info ctx '' request'' [] w in
             (case knock_sign kn user key seconds of
                Inl e \<Rightarrow> create_and_log_error cl False Err ctx (to_notification_error e)
                           [(''error'', caught_json e)] w1
              | Inr token \<Rightarrow> (log_entry Info ctx '' response'' [] w1, success token)))"

definition workplace_json :: "workplace_request \<Rightarrow> js_object" where
  "workplace_json r =
     [(''workplaceId'', JStr (wr_workplace_id r))] @
     optional ''createdAt'' (map_option JDate (wr_created_at r)) @
     optional ''email'' (map_option JStr (wr_email r)) @
     optional ''name'' (map_option JStr (wr_name r)) @
     optional ''phoneNumber'' (map_option JStr (wr_phone_number r)) @
     optional ''timeZone'' (map_option JStr (wr_time_zone r))"

definition upsert_workplace ::
  "client \<Rightarrow> 'p knock \<Rightarrow> workplace_request \<Rightarrow> 'p world \<Rightarrow>
   'p world \<times> (service_error, string) service_result" where
  "upsert_workplace cl kn req w =
     (let ctx = context_of ''notifications.upsertWorkplace'' ''knock.tenants.set'' (workplace_json req);
          w1 = log_entry Info ctx '' request'' [] w;
          failed = (\<lambda>e. create_and_log_error cl False Err ctx (to_notification_error e)
                       [(''error'', caught_json e)])
      in case to_tenant_set_request (cl_formatter cl) req of
           Inl e \<Rightarrow> failed e w1
         | Inr body \<Rightarrow>
             (case ask (SetTenantCall (wr_workplace_id req) body)
                     (\<lambda>p. knock_set_tenant kn p (wr_workplace_id req) body) w1 of
                (w2, Inl e) \<Rightarrow> failed e w2
              | (w2, Inr r) \<Rightarrow>
                  (log_entry Info ctx '' response''
                     [(''response'', JObj [(''workplaceId'', JStr (tenant_id r)),
                        (''name'', case tenant_name r of None \<Rightarrow> JUndefined | Some n \<Rightarrow> JStr n)])] w2,
                   success (tenant_id r))))"

text \<open>The preferences as they are logged: the request itself, with its own names.\<close>

definition channel_types_json :: "channel_types \<Rightarrow> js" where
  "channel_types_json c =
     JObj (concat (map (\<lambda>(k, v). optional k (map_option JBool v))
       [(''chat'', ct_chat c), (''email'', ct_email c), (''http'', ct_http c),
        (''inAppFeed'', ct_in_app_feed c), (''push'', ct_push c), (''sms'', ct_sms c)]))"

definition settings_json :: "(string, preference_setting) js_map \<Rightarrow> js" where
  "settings_json m = JObj (map (\<lambda>(k, s). (k, case s of
       Flag b \<Rightarrow> JBool b
     | Overrides q \<Rightarrow> JObj
         (if_defined ''channelTypes'' channel_types_json (po_channel_types q) @
          if_defined ''channels'' flags_json (po_channels q)))) m)"

definition preferences_json :: "preferences_request \<Rightarrow> js" where
  "preferences_json p = JObj
     ([(''userId'', JStr (pr_user_id p))] @
      if_defined ''channelTypes'' channel_types_json (pr_channel_types p) @
      if_defined ''channels'' flags_json (pr_channels p) @
      if_defined ''categories'' settings_json (pr_categories p) @
      if_defined ''workflows'' settings_json (pr_workflows p) @
      if_defined ''commercialSubscribed'' JBool (pr_commercial_subscribed p))"

definition upsert_user_preferences ::
  "client \<Rightarrow> 'p knock \<Rightarrow> preferences_request \<Rightarrow> 'p world \<Rightarrow>
   'p world \<times> (service_error, string) service_result" where
  "upsert_user_preferences cl kn req w =
     (let ctx = context_of ''notifications.upsertUserPreferences'' ''knock.users.setPreferences''
                  [(''userId'', JStr (pr_user_id req)), (''preferences'', preferences_json req)];
          w1 = log_entry Info ctx '' request'' [] w;
          body = to_knock_user_preferences req
      in case ask (SetPreferencesCall (pr_user_id req) body)
                (\<lambda>p. knock_set_preferences kn p (pr_user_id req) body) w1 of
           (w2, Inl e) \<Rightarrow> create_and_log_error cl False Err ctx (to_notification_error e)
                            [(''error'', caught_json e)] w2
         | (w2, Inr r) \<Rightarrow>
             (log_entry Info ctx '' response''
                [(''response'', JObj [(''userId'', JStr (pr_user_id req)), (''preferenceSet'', r)])] w2,
              success (pr_user_id req)))"

end
