(* ===== verification/NotificationQueue.thy ===== *)
theory NotificationQueue
  imports NotificationRequest
begin

section \<open>notifications: the job enqueuer\<close>

text \<open>
  Models \<open>notificationJobEnqueuer.ts\<close>. One job is enqueued per chunk of recipients; what is
  modelled is the list of calls to the job queue, in the order of the chunks: the handler, the
  data and the options. The queue itself is outside.
\<close>

datatype implementation = Mongo | Postgres

fun key_field :: "implementation \<Rightarrow> string" where
  "key_field Mongo = ''unique''"
| "key_field Postgres = ''idempotencyKey''"

record enqueue_data =
  ed_rest :: js_object
  ed_key_parts :: js_object
  ed_expires_at :: string
  ed_recipients :: "string list"
  ed_workflow_key :: string

definition enqueue_data_json :: "enqueue_data \<Rightarrow> js_object" where
  "enqueue_data_json d =
     spread (ed_rest d)
       [(''idempotencyKeyParts'', JObj (ed_key_parts d)), (''expiresAt'', JStr (ed_expires_at d)),
        (''recipients'', JArr (map JStr (ed_recipients d))), (''workflowKey'', JStr (ed_workflow_key d))]"

definition trigger_key_params :: "enqueue_data \<Rightarrow> nat \<Rightarrow> string list \<Rightarrow> js_object" where
  "trigger_key_params d number recipients =
     spread (ed_key_parts d)
       [(''chunk'', JInt (int number)), (''recipients'', JArr (map JStr recipients)),
        (''workflowKey'', JStr (ed_workflow_key d))]"

definition enqueue_chunk ::
  "implementation \<Rightarrow> (string \<Rightarrow> string) \<Rightarrow> 'h \<Rightarrow> enqueue_data \<Rightarrow> js_object option \<Rightarrow> nat \<times> string list \<Rightarrow>
   'h \<times> js_object \<times> js_object" where
  "enqueue_chunk impl sha handler d options c =
     (case c of (number, recipients) \<Rightarrow>
        let params = trigger_key_params d number recipients in
        (handler,
         spread (enqueue_data_json d)
           [(''recipients'', JArr (map JStr recipients)), (''idempotencyKey'', JStr (make_trigger_key params))],
         spread (case options of None \<Rightarrow> [] | Some os \<Rightarrow> os)
           [(key_field impl, JStr (key_params_to_hash sha params None))]))"

definition enqueue_one_or_more ::
  "implementation \<Rightarrow> (string \<Rightarrow> string) \<Rightarrow> 'h \<Rightarrow> enqueue_data \<Rightarrow> js_object option \<Rightarrow>
   ('h \<times> js_object \<times> js_object) list" where
  "enqueue_one_or_more impl sha handler d options =
     map (enqueue_chunk impl sha handler d options) (chunk_recipients (ed_recipients d))"

subsection \<open>Chunks\<close>

lemma length_le_concat: "list_all (\<lambda>c. c \<noteq> []) cs \<Longrightarrow> length cs \<le> length (concat cs)"
proof (induction cs)
  case (Cons c cs)
  then show ?case by (cases c) auto
qed simp

lemma chunk_recipients_enumerate:
  assumes "xs \<noteq> []"
  shows "\<exists>cs. chunk_recipients xs = enumerate 1 cs \<and> concat cs = xs \<and>
    list_all (\<lambda>c. c \<noteq> [] \<and> length c \<le> maximum_recipients_count) cs"
proof -
  have count: "map (\<lambda>(i, c). (i + 1, c)) (enumerate n cs) = enumerate (Suc n) cs" for n and cs :: "'a list list"
    by (induction cs arbitrary: n) auto
  obtain cs where cs: "chunk xs (Some 1000) = Inr cs"
    using assms by (simp add: chunk_def)
  with assms count [of 0 cs] have "chunk_recipients xs = enumerate 1 cs"
    by (simp add: chunk_recipients_def maximum_recipients_count_def)
  with chunk_spec [OF cs] show ?thesis
    by (auto simp: list_all_iff maximum_recipients_count_def)
qed

lemma chunk_recipients_all:
  "map fst (chunk_recipients xs) = [1..<Suc (length (chunk_recipients xs))] \<and>
   concat (map snd (chunk_recipients xs)) = xs \<and>
   list_all (\<lambda>c. length (snd c) \<le> maximum_recipients_count) (chunk_recipients xs) \<and>
   length (chunk_recipients xs) \<le> Suc (length xs)"
proof (cases "xs = []")
  case False
  obtain cs where cs: "chunk_recipients xs = enumerate 1 cs" "concat cs = xs"
    "list_all (\<lambda>c. c \<noteq> [] \<and> length c \<le> maximum_recipients_count) cs"
    using chunk_recipients_enumerate [OF False] by blast
  moreover have "length cs \<le> length xs"
    using length_le_concat [of cs] cs(2,3) by (auto simp: list_all_iff)
  moreover have "list_all (\<lambda>c. length (snd c) \<le> maximum_recipients_count) (enumerate 1 cs)"
    using cs(3) by (auto simp: list_all_iff in_set_enumerate_eq)
  ultimately show ?thesis by simp
qed (simp add: chunk_recipients_def)

lemmas chunk_recipients_spec =
  chunk_recipients_all [THEN conjunct1]
  chunk_recipients_all [THEN conjunct2, THEN conjunct1]
  chunk_recipients_all [THEN conjunct2, THEN conjunct2, THEN conjunct1]
  chunk_recipients_all [THEN conjunct2, THEN conjunct2, THEN conjunct2]

lemma chunk_number_le:
  assumes "(n, rs) \<in> set (chunk_recipients xs)"
  shows "n \<le> Suc (length xs)"
proof -
  have "n \<in> set (map fst (chunk_recipients xs))" using assms by force
  then have "n < Suc (length (chunk_recipients xs))"
    unfolding chunk_recipients_spec(1) by (simp del: upt_Suc)
  with chunk_recipients_spec(4) [of xs] show ?thesis by linarith
qed

subsection \<open>The keys\<close>

lemma keys_spread: "distinct (map fst a) \<Longrightarrow> distinct (map fst (spread a b))"
  by (induction b arbitrary: a) (auto simp: distinct_update)

lemma plain_members_update: "plain v \<Longrightarrow> plain_members a \<Longrightarrow> plain_members (map_set k v a)"
  by (induction a) auto

lemma plain_spread: "plain_members a \<Longrightarrow> plain_members b \<Longrightarrow> plain_members (spread a b)"
  by (induction b arbitrary: a) (auto simp: plain_members_update)

lemma plain_strings: "plain_elements (map JStr xs)"
  by (induction xs) auto

lemma make_trigger_key_parse:
  assumes "plain (JObj ps)" and "is_trigger_key_params (JObj ps)"
  shows "parse_trigger_key (make_trigger_key ps) = Some ps"
  using parse_stringify [OF assms(1)] assms(2) by (auto simp: make_trigger_key_def parse_trigger_key_def)

lemma trigger_key_params_plain:
  assumes "plain (JObj (ed_key_parts d))" and "n < 2 ^ 53"
  shows "plain (JObj (trigger_key_params d n rs))"
proof -
  have "(int n :: int) < 2 ^ 53" using assms(2) by (metis of_nat_less_iff of_nat_numeral of_nat_power)
  with assms(1) show ?thesis
    by (simp add: trigger_key_params_def keys_spread plain_spread plain_members_update plain_strings
        distinct_update del: spread_simps)
qed

lemma trigger_key_params_valid: "is_trigger_key_params (JObj (trigger_key_params d n rs))"
  by (simp add: is_trigger_key_params_def trigger_key_params_def map_has_def map_of_spread list_all_iff
      del: spread_simps)

lemma job_key:
  assumes "plain (JObj (ed_key_parts d))" and "n < 2 ^ 53"
  shows "parse_trigger_key (string_value (property (fst (snd
    (enqueue_chunk impl sha handler d options (n, rs)))) ''idempotencyKey'')) = Some (trigger_key_params d n rs)"
  using make_trigger_key_parse [OF trigger_key_params_plain [OF assms] trigger_key_params_valid]
  by (simp add: enqueue_chunk_def Let_def property_def map_of_spread string_value_def del: spread_simps)

text \<open>The hashed text is the cleaned parameters; with no collision of the hash it tells them apart.\<close>

definition tidy :: "js \<Rightarrow> bool" where
  "tidy v \<longleftrightarrow> (case clean v of None \<Rightarrow> True | Some w \<Rightarrow> plain w)"

lemma tidy_simps [simp]: "tidy JUndefined" "plain v \<Longrightarrow> tidy v" "tidy (JStr s)"
  by (auto simp: tidy_def plain_clean)

lemma clean_keys: "fst ` set (clean_members ps) \<subseteq> fst ` set ps"
proof (induction ps)
  case (Cons p ps)
  then show ?case by (cases p) (force split: option.splits)
qed simp

lemma tidy_object: "list_all (\<lambda>(k, v). tidy v) ps \<Longrightarrow> distinct (map fst ps) \<Longrightarrow> tidy (JObj ps)"
proof -
  assume "list_all (\<lambda>(k, v). tidy v) ps" "distinct (map fst ps)"
  then have "plain_members (clean_members ps) \<and> distinct (map fst (clean_members ps))"
  proof (induction ps)
    case (Cons p ps)
    then show ?case
      using clean_keys [of ps] by (cases p) (auto simp: tidy_def split: option.splits)
  qed simp
  then show ?thesis by (simp add: tidy_def)
qed

lemma property_tidy: "plain_members ps \<Longrightarrow> tidy (property ps k)"
  by (induction ps) (auto simp: property_def)

lemma member_property_tidy: "plain_members ps \<Longrightarrow> tidy (member (property ps k) l)"
proof -
  assume ps: "plain_members ps"
  have "plain_members qs" if "property ps k = JObj qs" for qs
    using ps that by (induction ps) (auto simp: property_def split: if_splits option.splits)
  then show ?thesis
    by (cases "property ps k") (auto simp: member_def property_tidy)
qed

lemma key_params_tidy:
  assumes "plain_members ps"
  shows "tidy (key_params_sorted ps workplace)"
proof -
  have "tidy (sorted_recipients v)" for v
    by (cases v) (auto simp: sorted_recipients_def plain_strings)
  then show ?thesis
    using property_tidy [OF assms] member_property_tidy [OF assms]
    unfolding key_params_sorted_def
    by (intro tidy_object) (auto intro!: tidy_object split: option.splits)
qed

lemma key_hash_eq:
  assumes "inj sha" and "plain_members ps" and "plain_members qs"
  shows "key_params_to_hash sha ps v = key_params_to_hash sha qs w \<longleftrightarrow>
    clean (key_params_sorted ps v) = clean (key_params_sorted qs w)"
proof -
  have hashed: "\<exists>x. clean (key_params_sorted rs u) = Some x \<and> plain x \<and>
      key_params_to_hash sha rs u = sha (print_json x)" if rs: "plain_members rs" for rs u
    using key_params_tidy [OF rs, of u]
    by (auto simp: tidy_def key_params_to_hash_def create_deterministic_hash_def stringify_def
        key_params_sorted_def split: option.splits)
  obtain x y where x: "clean (key_params_sorted ps v) = Some x" "plain x"
      "key_params_to_hash sha ps v = sha (print_json x)"
    and y: "clean (key_params_sorted qs w) = Some y" "plain y"
      "key_params_to_hash sha qs w = sha (print_json y)"
    using hashed [OF assms(2), of v] hashed [OF assms(3), of w] by blast
  have "print_json x = print_json y \<longleftrightarrow> x = y"
    using stringify_inj [OF x(2) y(2)] x(2) y(2) by (auto simp: stringify_def plain_clean)
  with x y assms(1) show ?thesis by (auto simp: inj_eq)
qed

definition job_recipients :: "js_object \<Rightarrow> string list" where
  "job_recipients job = (case property job ''recipients'' of JArr vs \<Rightarrow> map string_value vs | _ \<Rightarrow> [])"

definition unique_key :: "implementation \<Rightarrow> 'h \<times> js_object \<times> js_object \<Rightarrow> js" where
  "unique_key impl call = property (snd (snd call)) (key_field impl)"

lemma job_recipients_chunk:
  "job_recipients (fst (snd (enqueue_chunk impl sha handler d options (n, rs)))) = rs"
proof -
  have "map (string_value \<circ> JStr) rs = rs"
    by (induction rs) (auto simp: string_value_def)
  then show ?thesis
    by (simp add: enqueue_chunk_def Let_def job_recipients_def property_def map_of_spread del: spread_simps)
qed

lemma unique_key_chunk:
  "unique_key impl (enqueue_chunk impl sha handler d options (n, rs)) =
     JStr (key_params_to_hash sha (trigger_key_params d n rs) None)"
  by (simp add: enqueue_chunk_def Let_def unique_key_def property_def map_of_spread del: spread_simps)

lemma property_chunk: "property (trigger_key_params d n rs) ''chunk'' = JInt (int n)"
  by (simp add: trigger_key_params_def property_def map_of_spread del: spread_simps)

lemma key_hash_chunk:
  assumes "inj sha" and "plain (JObj (ed_key_parts d))" and "m < 2 ^ 53" and "n < 2 ^ 53"
    and "key_params_to_hash sha (trigger_key_params d m rs) v = key_params_to_hash sha (trigger_key_params d n ss) w"
  shows "m = n"
proof -
  have "plain_members (trigger_key_params d m rs)" "plain_members (trigger_key_params d n ss)"
    using trigger_key_params_plain [OF assms(2,3)] trigger_key_params_plain [OF assms(2,4)] by simp_all
  then have "clean (key_params_sorted (trigger_key_params d m rs) v) =
      clean (key_params_sorted (trigger_key_params d n ss) w)"
    using key_hash_eq assms(1,5) by blast
  then show "m = n"
    by (simp add: key_params_sorted_def property_chunk)
qed

definition example_job :: enqueue_data where
  "example_job =
     \<lparr>ed_rest = [], ed_key_parts = [(''resource'', JObj [(''type'', JStr ''shift''), (''id'', JStr ''s-1'')])],
      ed_expires_at = ''2030-01-01T00:00:00.000Z'', ed_recipients = [''u2'', ''u1''],
      ed_workflow_key = ''shift-starting''\<rparr>"

text \<open>C31: The jobs carry the recipients, each once and in order, in chunks the provider accepts,
  and the key in every job is read back by the client as the parameters it was made from.\<close>

theorem enqueued_jobs_read_back:
  assumes "plain (JObj (ed_key_parts d))" and "length (ed_recipients d) < 2 ^ 52"
  shows "concat (map (\<lambda>(h, job, opts). job_recipients job) (enqueue_one_or_more impl sha handler d options)) =
      ed_recipients d \<and>
    list_all (\<lambda>(h, job, opts). length (job_recipients job) \<le> 1000)
      (enqueue_one_or_more impl sha handler d options) \<and>
    map (\<lambda>(h, job, opts). parse_trigger_key (string_value (property job ''idempotencyKey'')))
      (enqueue_one_or_more impl sha handler d options) =
    map (\<lambda>(n, rs). Some (trigger_key_params d n rs)) (chunk_recipients (ed_recipients d))"
proof -
  let ?f = "enqueue_chunk impl sha handler d options"
  have small: "n < 2 ^ 53" if "(n, rs) \<in> set (chunk_recipients (ed_recipients d))" for n rs
    using chunk_number_le [OF that] assms by simp
  have "concat (map (job_recipients \<circ> fst \<circ> snd \<circ> ?f) (chunk_recipients (ed_recipients d))) =
      concat (map snd (chunk_recipients (ed_recipients d)))"
    by (intro arg_cong [of _ _ concat] map_cong) (auto simp: job_recipients_chunk)
  moreover have "list_all (\<lambda>c. length (job_recipients (fst (snd (?f c)))) \<le> 1000)
      (chunk_recipients (ed_recipients d))"
    using chunk_recipients_spec(3) [of "ed_recipients d"]
    by (auto simp: list_all_iff job_recipients_chunk maximum_recipients_count_def)
  moreover have "map (\<lambda>c. parse_trigger_key (string_value (property (fst (snd (?f c))) ''idempotencyKey'')))
      (chunk_recipients (ed_recipients d)) =
      map (\<lambda>(n, rs). Some (trigger_key_params d n rs)) (chunk_recipients (ed_recipients d))"
    by (intro map_cong refl) (auto intro!: job_key [OF assms(1)] small)
  ultimately show ?thesis
    by (simp add: enqueue_one_or_more_def chunk_recipients_spec(2) list.pred_map comp_def case_prod_unfold)
qed

lemma enqueued_jobs_read_back_witness:
  "map (\<lambda>(h, job, opts). parse_trigger_key (string_value (property job ''idempotencyKey'')))
      (enqueue_one_or_more Mongo (\<lambda>s. s) () example_job None) =
    map (\<lambda>(n, rs). Some (trigger_key_params example_job n rs)) (chunk_recipients (ed_recipients example_job))"
  by (rule enqueued_jobs_read_back [THEN conjunct2, THEN conjunct2]) (simp_all add: example_job_def)

text \<open>No job of a request is taken for a duplicate of another of its jobs: with a hash
  without collisions, the unique keys of the chunks are distinct.\<close>

theorem job_keys_distinct:
  assumes "inj sha" and "plain (JObj (ed_key_parts d))" and "length (ed_recipients d) < 2 ^ 52"
  shows "distinct (map (unique_key impl) (enqueue_one_or_more impl sha handler d options))"
proof -
  let ?cs = "chunk_recipients (ed_recipients d)"
  have distinct: "distinct (map fst ?cs)" by (simp add: chunk_recipients_spec(1))
  have small: "n < 2 ^ 53" if "(n, rs) \<in> set ?cs" for n rs
    using chunk_number_le [OF that] assms by simp
  have "inj_on (\<lambda>c. unique_key impl (enqueue_chunk impl sha handler d options c)) (set ?cs)"
  proof (rule inj_onI)
    fix a b
    assume ab: "a \<in> set ?cs" "b \<in> set ?cs"
      and same: "unique_key impl (enqueue_chunk impl sha handler d options a) =
        unique_key impl (enqueue_chunk impl sha handler d options b)"
    obtain m rs n ss where eq: "a = (m, rs)" "b = (n, ss)" by (cases a; cases b)
    then have "m = n"
      using key_hash_chunk [OF assms(1,2)] small ab same by (simp add: unique_key_chunk)
    with distinct ab eq show "a = b" by (metis eq_key_imp_eq_value)
  qed
  then show ?thesis
    using distinct by (simp add: enqueue_one_or_more_def comp_def distinct_map)
qed

lemma job_keys_distinct_witness:
  "distinct (map (unique_key Mongo) (enqueue_one_or_more Mongo (\<lambda>s. s) () example_job None))"
  by (rule job_keys_distinct) (simp_all add: example_job_def)

text \<open>The key of a job does not tell workplaces apart, although the key of its delivery does:
  the same event announced for two workplaces is enqueued under one unique key.\<close>

theorem workplaces_share_job_key:
  "map (unique_key Mongo) (enqueue_one_or_more Mongo (\<lambda>s. s) ()
      (example_job\<lparr>ed_rest := [(''workplaceId'', JStr ''w1'')]\<rparr>) None) =
    map (unique_key Mongo) (enqueue_one_or_more Mongo (\<lambda>s. s) ()
      (example_job\<lparr>ed_rest := [(''workplaceId'', JStr ''w2'')]\<rparr>) None) \<and>
   key_params_to_hash (\<lambda>s. s) (trigger_key_params example_job 1 [''u2'', ''u1'']) (Some ''w1'') \<noteq>
    key_params_to_hash (\<lambda>s. s) (trigger_key_params example_job 1 [''u2'', ''u1'']) (Some ''w2'')"
  by code_simp

end
