(* ===== verification/NotificationSafety.thy ===== *)
theory NotificationSafety
  imports NotificationClient NotificationQueue
begin

section \<open>notifications: what the client guarantees\<close>

text \<open>
  The calls a chunked trigger makes, its progress and its failures; delivery over retries by a
  provider that honours idempotency keys; what the logs reveal; the custom properties of a
  recipient; which failures are worth a retry; and the push tokens kept by one and by two calls.
\<close>

subsection \<open>Calls\<close>

fun trigger_call :: "event \<Rightarrow> (string \<times> string \<times> js_object) list" where
  "trigger_call (Called (TriggerCall workflow body key)) = [(workflow, key, body)]"
| "trigger_call _ = []"

definition sent :: "'p world \<Rightarrow> (string \<times> string \<times> js_object) list" where
  "sent w = concat (map trigger_call (w_events w))"

text \<open>The calls for all chunks, when every recipient can be converted.\<close>

definition plan ::
  "client \<Rightarrow> trigger_request \<Rightarrow> (nat \<times> date recipient list) list \<Rightarrow>
   caught + (string \<times> string \<times> js_object) list" where
  "plan cl req chunks =
     traverse (\<lambda>(n, rs). bind_result (to_trigger_body (cl_formatter cl) (chunk_body req rs))
       (\<lambda>b. Inr (tr_workflow_key req, chunk_key req n, b))) chunks"

abbreviation planned :: "client \<Rightarrow> trigger_request \<Rightarrow> caught + (string \<times> string \<times> js_object) list" where
  "planned cl req \<equiv> plan cl req (chunk_recipients (tb_recipients (tr_body req)))"

lemma sent_emit [simp]: "sent (emit e w) = sent w @ trigger_call e"
  by (simp add: sent_def emit_def)

lemma sent_log [simp]: "sent (log_entry l ctx s extra w) = sent w"
  by (simp add: log_entry_def)

lemma sent_tag [simp]: "sent (tag cl tags w) = sent w"
  by (simp add: tag_def)

lemma provider_kept [simp]:
  "w_provider (emit e w) = w_provider w" "w_provider (log_entry l ctx s extra w) = w_provider w"
  "w_provider (tag cl tags w) = w_provider w"
  by (simp_all add: emit_def log_entry_def tag_def)

lemma sent_create_and_log_error:
  "create_and_log_error cl spanned l ctx err metadata w = (w', r) \<Longrightarrow>
   sent w' = sent w \<and> w_provider w' = w_provider w \<and>
   r = Failure (notification_error cl (fst err) (snd err))"
  by (auto simp: create_and_log_error_def Let_def failure_def split: prod.splits if_splits)

lemma call_trigger_sent:
  "call_trigger kn workflow body key w = (w', r) \<Longrightarrow>
   sent w' = sent w @ [(workflow, key, body)] \<and>
   (w_provider w', r) = knock_trigger kn (w_provider w) workflow body key"
  by (auto simp: call_trigger_def ask_def emit_def sent_def split: prod.splits)

lemma chunk_failed_spec:
  "chunk_failed cl ctx req expires count number completed e w = (w', r) \<Longrightarrow>
   sent w' = sent w \<and> w_provider w' = w_provider w \<and>
   (\<exists>c m. to_notification_error e = (c, m) \<and> r = Failure (notification_error cl c
      (''Chunk '' @ show_int (int number) @ ''/'' @ show_int (int count) @ '' failed: '' @ m)))"
  by (cases "to_notification_error e")
    (auto simp: chunk_failed_def dest: sent_create_and_log_error)

text \<open>The loop sends a prefix of the plan; all of it exactly when it succeeds, and when it fails
  the last chunk it sent is the one it names.\<close>

definition progress ::
  "client \<Rightarrow> (string \<times> string \<times> js_object) list \<Rightarrow> nat list \<Rightarrow> nat \<Rightarrow> nat list \<Rightarrow>
   (string \<times> string \<times> js_object) list \<Rightarrow> (service_error, (nat \<times> string) list) service_result \<Rightarrow> bool" where
  "progress cl calls numbers count done_before made r \<longleftrightarrow>
     (case r of
        Success rs \<Rightarrow> made = calls \<and> map fst rs = done_before @ numbers
      | Failure e \<Rightarrow> (\<exists>k c m. k < length calls \<and> made = take (Suc k) calls \<and>
          e = notification_error cl c (''Chunk '' @ show_int (int (numbers ! k)) @ ''/'' @
            show_int (int count) @ '' failed: '' @ m)))"

lemma send_chunks_progress:
  assumes "plan cl req chunks = Inr calls"
    and "send_chunks cl kn ctx req expires count responses chunks w = (w', r)"
  shows "\<exists>made. sent w' = sent w @ made \<and> progress cl calls (map fst chunks) count (map fst responses) made r"
  using assms
proof (induction chunks arbitrary: calls responses w)
  case Nil
  then show ?case by (auto simp: plan_def progress_def success_def)
next
  case (Cons ch chunks)
  obtain n rs where ch: "ch = (n, rs)" by (cases ch)
  with Cons.prems(1) obtain body rest where body: "to_trigger_body (cl_formatter cl) (chunk_body req rs) = Inr body"
    and rest: "plan cl req chunks = Inr rest"
    and calls: "calls = (tr_workflow_key req, chunk_key req n, body) # rest"
    by (auto simp: plan_def bind_result_def split: sum.splits)
  obtain w1 a where call: "call_trigger kn (tr_workflow_key req) body (chunk_key req n) w = (w1, a)"
    by (cases "call_trigger kn (tr_workflow_key req) body (chunk_key req n) w")
  have w1: "sent w1 = sent w @ [(tr_workflow_key req, chunk_key req n, body)]"
    using call_trigger_sent [OF call] by simp
  show ?case
  proof (cases a)
    case (Inl e)
    with Cons.prems(2) ch body call
    have "chunk_failed cl ctx req expires count n (length responses) e w1 = (w', r)" by simp
    from chunk_failed_spec [OF this] w1 calls ch show ?thesis
      by (fastforce simp: progress_def)
  next
    case (Inr resp)
    let ?w2 = "log_entry Info ctx '' chunk response''
       [(''chunkNumber'', nat_js n), (''totalChunks'', nat_js count), (''id'', JStr (run_id resp))] w1"
    from Cons.prems(2) ch body call Inr
    have "send_chunks cl kn ctx req expires count (responses @ [(n, run_id resp)]) chunks ?w2 = (w', r)"
      by simp
    from Cons.IH [OF rest this] obtain made where made: "sent w' = sent ?w2 @ made"
      "progress cl rest (map fst chunks) count (map fst responses @ [n]) made r"
      by auto
    have "progress cl calls (map fst (ch # chunks)) count (map fst responses)
        ((tr_workflow_key req, chunk_key req n, body) # made) r"
    proof (cases r)
      case (Success rs)
      with made(2) calls ch show ?thesis by (auto simp: progress_def)
    next
      case (Failure e)
      with made(2) obtain k c m where "k < length rest" "made = take (Suc k) rest"
        "e = notification_error cl c (''Chunk '' @ show_int (int (map fst chunks ! k)) @ ''/'' @
            show_int (int count) @ '' failed: '' @ m)"
        by (auto simp: progress_def)
      with calls ch Failure show ?thesis
        by (auto simp: progress_def intro!: exI [of _ "Suc k"] exI [of _ c] exI [of _ m])
    qed
    with made(1) w1 show ?thesis by auto
  qed
qed

definition valid_chunked :: "int \<Rightarrow> trigger_request \<Rightarrow> bool" where
  "valid_chunked now req \<longleftrightarrow>
     tb_recipients (tr_body req) \<noteq> [] \<and>
     (case tr_expires_at req of None \<Rightarrow> False | Some t \<Rightarrow> now \<le> t)"

lemma check_chunked_valid: "valid_chunked now req \<longleftrightarrow> (\<exists>t. check_chunked now req = Inr t)"
  by (auto simp: valid_chunked_def check_chunked_def Let_def split: option.splits)

text \<open>C13: A chunked trigger sends nothing when the request is invalid or a dry run. Otherwise it
  sends the chunks of the plan in order, under their own keys, and stops at the first that fails:
  on success it sent all of them and reports one response per chunk, numbered from 1; on failure
  the chunk it names is the last it sent.\<close>

theorem chunked_trigger_follows_plan:
  assumes "planned cl req = Inr calls" and "trigger_chunked cl kn now req w = (w', r)"
  shows "\<exists>made. sent w' = sent w @ made \<and>
    (if \<not> valid_chunked now req then made = [] \<and> is_failure r
     else if dry_run_of (tr_dry_run req) then made = [] \<and> r = success [(1, ''dry-run'')]
     else progress cl calls [1..<Suc (length calls)] (length calls) [] made r)"
proof (cases "check_chunked now req")
  case (Inl bad)
  then have "\<not> valid_chunked now req" by (simp add: check_chunked_valid)
  then show ?thesis
    using assms(2) Inl
    by (auto simp: trigger_chunked_def Let_def is_failure_def is_success_def dest: sent_create_and_log_error
        split: prod.splits)
next
  case (Inr t)
  then have valid: "valid_chunked now req" by (auto simp: check_chunked_valid)
  show ?thesis
  proof (cases "dry_run_of (tr_dry_run req)")
    case True
    then show ?thesis
      using assms(2) Inr valid
      by (auto simp: trigger_chunked_def Let_def log_trigger_request_def log_trigger_response_def)
  next
    case False
    let ?chunks = "chunk_recipients (tb_recipients (tr_body req))"
    let ?ctx = "trigger_log_params ''notifications.triggerChunked'' knock_destination req"
    let ?w1 = "log_trigger_request ?ctx req
       (emit (Traced (ctx_trace ?ctx) (trigger_trace_options knock_destination req)) w)"
    obtain w2 r2 where send: "send_chunks cl kn ?ctx req t (length ?chunks) [] ?chunks ?w1 = (w2, r2)"
      by (cases "send_chunks cl kn ?ctx req t (length ?chunks) [] ?chunks ?w1")
    have len: "length calls = length ?chunks"
      using assms(1) by (auto simp: plan_def traverse_Inr_iff dest: list_all2_lengthD)
    have "sent ?w1 = sent w" by (simp add: log_trigger_request_def)
    with send_chunks_progress [OF assms(1) send] len obtain made where made: "sent w2 = sent w @ made"
      "progress cl calls [1..<Suc (length calls)] (length calls) [] made r2"
      by (auto simp: chunk_recipients_spec(1) simp del: upt_Suc)
    have "sent w' = sent w2 \<and> r = r2"
      using assms(2) Inr False send
      by (cases r2) (auto simp: trigger_chunked_def Let_def success_def)
    with made valid False show ?thesis by (auto simp del: upt_Suc)
  qed
qed

subsection \<open>Keys\<close>

lemma last_separator:
  assumes "a @ c # s = b @ c # t" and "c \<notin> set s" and "c \<notin> set t"
  shows "a = b \<and> s = t"
proof -
  have cut: "takeWhile (\<lambda>x. x \<noteq> c) (rev (u @ c # v)) = rev v" if "c \<notin> set v" for u v
    using that by (simp, subst takeWhile_append2) auto
  have "rev s = rev t"
    using cut [OF assms(2), of a] cut [OF assms(3), of b] assms(1) by simp
  with assms(1) show ?thesis by simp
qed

lemma show_nat_no_dash: "CHR ''-'' \<notin> set (show_int (int n))"
  using show_nat_digits [of "int n"] by (auto simp: show_int_def list_all_iff is_digit_def code_def)

lemma chunk_key_eq:
  "chunk_key req m = chunk_key req' n \<longleftrightarrow> tr_idempotency_key req = tr_idempotency_key req' \<and> m = n"
  using last_separator [of "tr_idempotency_key req" "CHR ''-''" "show_int (int m)"
      "tr_idempotency_key req'" "show_int (int n)"] show_nat_no_dash
  by (auto simp: chunk_key_def show_nat_inj)

abbreviation key_of :: "string \<times> string \<times> js_object \<Rightarrow> string" where
  "key_of c \<equiv> fst (snd c)"

lemma plan_keys: "plan cl req chunks = Inr calls \<Longrightarrow> map key_of calls = map (chunk_key req \<circ> fst) chunks"
proof (induction chunks arbitrary: calls)
  case (Cons c chunks)
  then show ?case
    by (cases c) (auto simp: plan_def bind_result_def split: sum.splits)
qed (simp add: plan_def)

lemma planned_keys_distinct: "planned cl req = Inr calls \<Longrightarrow> distinct (map key_of calls)"
proof -
  assume "planned cl req = Inr calls"
  then have "map key_of calls = map (chunk_key req) [1..<Suc (length calls)]"
    using plan_keys [of cl req "chunk_recipients (tb_recipients (tr_body req))" calls]
      chunk_recipients_spec(1) [of "tb_recipients (tr_body req)"]
    by (metis length_map map_map)
  moreover have "inj_on (chunk_key req) (set [1..<Suc (length calls)])"
    by (auto intro!: inj_onI simp: chunk_key_eq)
  ultimately show ?thesis by (simp only: distinct_map distinct_upt simp_thms)
qed

lemma plan_attempt [simp]: "plan cl (req\<lparr>tr_attempt := a\<rparr>) chunks = plan cl req chunks"
  by (simp add: plan_def chunk_key_def chunk_body_def)

subsection \<open>Delivery over retries\<close>

text \<open>What is documented of idempotency keys: for 24 hours (in milliseconds) after a delivery under
  a key, a call with that key is not delivered again; afterwards it may be. A call that is answered
  has been delivered; one that fails may have been delivered or not. \<open>delivered\<close> lists the
  deliveries with their times.\<close>

type_synonym call = "string \<times> string \<times> js_object"

definition key_life :: int where "key_life = 24 * 60 * 60 * 1000"

definition honours_keys :: "'p knock \<Rightarrow> ('p \<Rightarrow> (int \<times> call) list) \<Rightarrow> bool" where
  "honours_keys kn delivered \<longleftrightarrow>
     (\<forall>p workflow body key. case knock_trigger kn p workflow body key of (p', r) \<Rightarrow>
        (delivered p' = delivered p \<or>
         (\<exists>t. (\<forall>(s, c) \<in> set (delivered p). key_of c = key \<longrightarrow> s + key_life < t) \<and>
            delivered p' = delivered p @ [(t, workflow, key, body)])) \<and>
        (case r of Inl _ \<Rightarrow> True | Inr _ \<Rightarrow> key \<in> (key_of \<circ> snd) ` set (delivered p')))"

text \<open>Two deliveries of one call lie more than the life of a key apart.\<close>

definition apart :: "int \<times> call \<Rightarrow> int \<times> call \<Rightarrow> bool" where
  "apart x y \<longleftrightarrow> (snd x = snd y \<longrightarrow> fst x + key_life < fst y)"

lemma once_within_life:
  "sorted_wrt apart D \<Longrightarrow> \<forall>x \<in> set D. \<forall>y \<in> set D. fst y \<le> fst x + key_life \<Longrightarrow> distinct (map snd D)"
  by (induction D) (fastforce simp: apart_def)+

definition delivery_inv :: "(int \<times> call) list \<Rightarrow> call list \<Rightarrow> (int \<times> call) list \<Rightarrow> bool" where
  "delivery_inv start calls ds \<longleftrightarrow>
     (\<exists>D. ds = start @ D \<and> sorted_wrt apart D \<and> snd ` set D \<subseteq> set calls)"

lemma delivery_step:
  assumes honours: "honours_keys kn delivered"
    and fresh: "(key_of \<circ> snd) ` set start \<inter> key_of ` set calls = {}"
    and distinct: "distinct (map key_of calls)"
    and c: "(workflow, key, body) \<in> set calls"
    and inv: "delivery_inv start calls (delivered p)"
    and step: "knock_trigger kn p workflow body key = (p', r)"
  shows "delivery_inv start calls (delivered p') \<and> set (delivered p) \<subseteq> set (delivered p') \<and>
    (case r of Inl _ \<Rightarrow> True | Inr _ \<Rightarrow> (workflow, key, body) \<in> snd ` set (delivered p'))"
proof -
  have "case knock_trigger kn p workflow body key of (p', r) \<Rightarrow>
        (delivered p' = delivered p \<or>
         (\<exists>t. (\<forall>(s, c) \<in> set (delivered p). key_of c = key \<longrightarrow> s + key_life < t) \<and>
            delivered p' = delivered p @ [(t, workflow, key, body)])) \<and>
        (case r of Inl _ \<Rightarrow> True | Inr _ \<Rightarrow> key \<in> (key_of \<circ> snd) ` set (delivered p'))"
    by (rule honours [unfolded honours_keys_def, THEN spec, THEN spec, THEN spec, THEN spec])
  then have law: "delivered p' = delivered p \<or>
       (\<exists>t. (\<forall>(s, c) \<in> set (delivered p). key_of c = key \<longrightarrow> s + key_life < t) \<and>
          delivered p' = delivered p @ [(t, workflow, key, body)])"
    and answered: "case r of Inl _ \<Rightarrow> True | Inr _ \<Rightarrow> key \<in> (key_of \<circ> snd) ` set (delivered p')"
    unfolding step prod.case by blast+
  from inv obtain D where D: "delivered p = start @ D" "sorted_wrt apart D" "snd ` set D \<subseteq> set calls"
    by (auto simp: delivery_inv_def)
  have inv': "delivery_inv start calls (delivered p')"
    using law
  proof (elim disjE exE conjE)
    fix t
    assume late: "\<forall>(s, c) \<in> set (delivered p). key_of c = key \<longrightarrow> s + key_life < t"
      and p': "delivered p' = delivered p @ [(t, workflow, key, body)]"
    have "sorted_wrt apart (D @ [(t, workflow, key, body)])"
      using D(1,2) late by (fastforce simp: sorted_wrt_append apart_def)
    with D(1,3) c p' show ?thesis
      by (auto simp: delivery_inv_def intro!: exI [of _ "D @ [(t, workflow, key, body)]"])
  qed (use inv in simp)
  then obtain E where E: "delivered p' = start @ E" "snd ` set E \<subseteq> set calls"
    by (auto simp: delivery_inv_def)
  have "(workflow, key, body) \<in> snd ` set (delivered p')" if key: "key \<in> (key_of \<circ> snd) ` set (delivered p')"
  proof -
    have "key \<in> key_of ` set calls" using c by force
    with fresh key E obtain d where d: "d \<in> set E" "key_of (snd d) = key" by auto
    with E(2) have "snd d \<in> set calls" by auto
    with c d(2) distinct have "snd d = (workflow, key, body)"
      by (metis (no_types, lifting) distinct_map fst_conv inj_on_def snd_conv)
    with d(1) E(1) show ?thesis by (metis UnI2 image_eqI set_append)
  qed
  with inv' law answered show ?thesis by (auto split: sum.splits)
qed

lemma send_chunks_delivers:
  assumes honours: "honours_keys kn delivered"
    and fresh: "(key_of \<circ> snd) ` set start \<inter> key_of ` set calls = {}" and distinct: "distinct (map key_of calls)"
    and "plan cl req chunks = Inr part" and "set part \<subseteq> set calls"
    and "delivery_inv start calls (delivered (w_provider w))"
    and "send_chunks cl kn ctx req expires count responses chunks w = (w', r)"
  shows "delivery_inv start calls (delivered (w_provider w')) \<and>
    set (delivered (w_provider w)) \<subseteq> set (delivered (w_provider w')) \<and>
    (is_success r \<longrightarrow> set part \<subseteq> snd ` set (delivered (w_provider w')))"
  using assms(4-)
proof (induction chunks arbitrary: part responses w)
  case Nil
  then show ?case by (auto simp: plan_def)
next
  case (Cons ch chunks)
  obtain n rs where ch: "ch = (n, rs)" by (cases ch)
  with Cons.prems(1) obtain body rest where body: "to_trigger_body (cl_formatter cl) (chunk_body req rs) = Inr body"
    and rest: "plan cl req chunks = Inr rest"
    and part: "part = (tr_workflow_key req, chunk_key req n, body) # rest"
    by (auto simp: plan_def bind_result_def split: sum.splits)
  obtain w1 a where call: "call_trigger kn (tr_workflow_key req) body (chunk_key req n) w = (w1, a)"
    by (cases "call_trigger kn (tr_workflow_key req) body (chunk_key req n) w")
  have "knock_trigger kn (w_provider w) (tr_workflow_key req) body (chunk_key req n) = (w_provider w1, a)"
    using call_trigger_sent [OF call] by simp
  then have step: "delivery_inv start calls (delivered (w_provider w1)) \<and>
      set (delivered (w_provider w)) \<subseteq> set (delivered (w_provider w1)) \<and>
      (case a of Inl _ \<Rightarrow> True | Inr _ \<Rightarrow>
         (tr_workflow_key req, chunk_key req n, body) \<in> snd ` set (delivered (w_provider w1)))"
    using Cons.prems(2) part by (intro delivery_step [OF honours fresh distinct _ Cons.prems(3)]) auto
  show ?case
  proof (cases a)
    case (Inl e)
    with Cons.prems(4) ch body call
    have "chunk_failed cl ctx req expires count n (length responses) e w1 = (w', r)" by simp
    from chunk_failed_spec [OF this] step show ?thesis
      by (auto simp: is_success_def)
  next
    case (Inr resp)
    let ?w2 = "log_entry Info ctx '' chunk response''
       [(''chunkNumber'', nat_js n), (''totalChunks'', nat_js count), (''id'', JStr (run_id resp))] w1"
    from Cons.prems(4) ch body call Inr
    have run: "send_chunks cl kn ctx req expires count (responses @ [(n, run_id resp)]) chunks ?w2 = (w', r)"
      by simp
    have "delivery_inv start calls (delivered (w_provider w')) \<and>
        set (delivered (w_provider ?w2)) \<subseteq> set (delivered (w_provider w')) \<and>
        (is_success r \<longrightarrow> set rest \<subseteq> snd ` set (delivered (w_provider w')))"
      using Cons.prems(2) part step by (intro Cons.IH [OF rest _ _ run]) auto
    with step Inr part show ?thesis by auto
  qed
qed

lemma trigger_chunked_delivers:
  assumes honours: "honours_keys kn delivered"
    and fresh: "(key_of \<circ> snd) ` set start \<inter> key_of ` set calls = {}"
    and plan: "planned cl req = Inr calls"
    and inv: "delivery_inv start calls (delivered (w_provider w))"
    and run: "trigger_chunked cl kn now req w = (w', r)"
  shows "delivery_inv start calls (delivered (w_provider w')) \<and>
    (is_success r \<and> \<not> dry_run_of (tr_dry_run req) \<longrightarrow> set calls \<subseteq> snd ` set (delivered (w_provider w')))"
proof (cases "check_chunked now req")
  case (Inl bad)
  with run inv show ?thesis
    by (auto simp: trigger_chunked_def Let_def is_success_def dest: sent_create_and_log_error
        split: prod.splits)
next
  case (Inr t)
  show ?thesis
  proof (cases "dry_run_of (tr_dry_run req)")
    case True
    with run inv Inr show ?thesis
      by (auto simp: trigger_chunked_def Let_def log_trigger_request_def log_trigger_response_def)
  next
    case False
    let ?chunks = "chunk_recipients (tb_recipients (tr_body req))"
    let ?ctx = "trigger_log_params ''notifications.triggerChunked'' knock_destination req"
    let ?w1 = "log_trigger_request ?ctx req
       (emit (Traced (ctx_trace ?ctx) (trigger_trace_options knock_destination req)) w)"
    obtain w2 r2 where send: "send_chunks cl kn ?ctx req t (length ?chunks) [] ?chunks ?w1 = (w2, r2)"
      by (cases "send_chunks cl kn ?ctx req t (length ?chunks) [] ?chunks ?w1")
    have "w_provider w' = w_provider w2 \<and> r = r2"
      using run Inr False send by (cases r2) (auto simp: trigger_chunked_def Let_def success_def)
    with send_chunks_delivers [OF honours fresh planned_keys_distinct [OF plan] plan order_refl _ send] inv
    show ?thesis by (auto simp: log_trigger_request_def)
  qed
qed

text \<open>The attempts of a job: the same request each time, with the number of the attempt.\<close>

fun attempts_of :: "client \<Rightarrow> 'p knock \<Rightarrow> trigger_request \<Rightarrow> (int \<times> int) list \<Rightarrow> 'p world \<Rightarrow> 'p world" where
  "attempts_of cl kn req [] w = w"
| "attempts_of cl kn req ((now, a) # rest) w =
     attempts_of cl kn req rest (fst (trigger_chunked cl kn now (req\<lparr>tr_attempt := a\<rparr>) w))"

lemma attempts_deliver:
  assumes "honours_keys kn delivered" and "(key_of \<circ> snd) ` set start \<inter> key_of ` set calls = {}"
    and "planned cl req = Inr calls" and "delivery_inv start calls (delivered (w_provider w))"
  shows "delivery_inv start calls (delivered (w_provider (attempts_of cl kn req tries w)))"
  using assms(4)
proof (induction tries arbitrary: w)
  case (Cons t tries)
  obtain now a where t: "t = (now, a)" by (cases t)
  obtain w1 r where run: "trigger_chunked cl kn now (req\<lparr>tr_attempt := a\<rparr>) w = (w1, r)"
    by (cases "trigger_chunked cl kn now (req\<lparr>tr_attempt := a\<rparr>) w")
  have "delivery_inv start calls (delivered (w_provider w1))"
    using trigger_chunked_delivers [OF assms(1,2) _ Cons.prems run] assms(3) by simp
  with Cons.IH run t show ?case by simp
qed simp

subsection \<open>What the logs show\<close>

text \<open>Values that differ only under the keys to redact.\<close>

inductive similar :: "string list \<Rightarrow> js \<Rightarrow> js \<Rightarrow> bool" for keys :: "string list" where
  same: "similar keys v v"
| elements: "list_all2 (similar keys) vs ws \<Longrightarrow> similar keys (JArr vs) (JArr ws)"
| members: "length ps = length qs \<Longrightarrow>
    (\<forall>i < length ps. fst (ps ! i) = fst (qs ! i) \<and>
       (fst (ps ! i) \<noteq> [] \<and> fst (ps ! i) \<in> set keys \<or> similar keys (snd (ps ! i)) (snd (qs ! i)))) \<Longrightarrow>
    similar keys (JObj ps) (JObj qs)"

inductive_cases similar_objectE: "similar keys (JObj ps) (JObj qs)"

lemma redact_elements_map: "redact_elements keys vs = map (redact_value keys) vs"
  by (induction vs) auto

definition redact_member :: "string list \<Rightarrow> string \<times> js \<Rightarrow> string \<times> js" where
  "redact_member keys p =
     (fst p, if fst p \<noteq> [] \<and> fst p \<in> set keys then redacted else redact_value keys (snd p))"

lemma redact_members_map: "redact_members keys ps = map (redact_member keys) ps"
  by (induction ps) (auto simp: redact_member_def)

lemma map_eq_rel: "list_all2 (\<lambda>x y. f x = g y) xs ys \<Longrightarrow> map f xs = map g ys"
  by (induction rule: list_all2_induct) auto

lemma similar_redact: "similar keys v w \<Longrightarrow> redact_value keys v = redact_value keys w"
proof (induction rule: similar.induct)
  case (elements vs ws)
  then have "list_all2 (\<lambda>v w. redact_value keys v = redact_value keys w) vs ws"
    by (rule list_all2_mono) blast
  then show ?case by (simp add: redact_elements_map map_eq_rel)
next
  case (members ps qs)
  then have "map (redact_member keys) ps = map (redact_member keys) qs"
    by (intro nth_equalityI) (auto simp: redact_member_def)
  then show ?case by (simp add: redact_members_map)
qed simp

fun hides :: "string list \<Rightarrow> js \<Rightarrow> bool"
and hides_elements :: "string list \<Rightarrow> js list \<Rightarrow> bool"
and hides_members :: "string list \<Rightarrow> (string \<times> js) list \<Rightarrow> bool" where
  "hides keys (JArr vs) = hides_elements keys vs"
| "hides keys (JObj ps) = hides_members keys ps"
| "hides keys JNull = True"
| "hides keys JUndefined = True"
| "hides keys (JBool b) = True"
| "hides keys (JInt n) = True"
| "hides keys (JReal s) = True"
| "hides keys (JStr s) = True"
| "hides keys (JDate d) = True"
| "hides keys (JError m ps) = True"
| "hides_elements keys [] = True"
| "hides_elements keys (v # vs) = (hides keys v \<and> hides_elements keys vs)"
| "hides_members keys [] = True"
| "hides_members keys ((k, v) # ps) =
     ((if k \<noteq> [] \<and> k \<in> set keys then v = redacted else hides keys v) \<and> hides_members keys ps)"

lemma redact_hides:
  "hides keys (redact_value keys v)"
  "hides_elements keys (redact_elements keys vs)"
  "hides_members keys (redact_members keys ps)"
  by (induction keys v and keys vs and keys ps
      rule: redact_value_redact_elements_redact_members.induct) auto

lemma hidden_unchanged:
  "hides keys v \<Longrightarrow> redact_value keys v = v"
  "hides_elements keys vs \<Longrightarrow> redact_elements keys vs = vs"
  "hides_members keys ps \<Longrightarrow> redact_members keys ps = ps"
  by (induction keys v and keys vs and keys ps
      rule: redact_value_redact_elements_redact_members.induct) (auto split: if_splits)

text \<open>Requests that agree on what is logged: everything but the recipients, of which only the
  number counts, the content of the attachments, and the values in the data under the keys to
  redact. The actor and the idempotency key are logged as they are.\<close>

definition same_visible :: "trigger_request \<Rightarrow> trigger_request \<Rightarrow> bool" where
  "same_visible r s \<longleftrightarrow>
     tr_attempt r = tr_attempt s \<and> dry_run_of (tr_dry_run r) = dry_run_of (tr_dry_run s) \<and>
     tr_idempotency_key r = tr_idempotency_key s \<and> tr_workflow_key r = tr_workflow_key s \<and>
     keys_to_redact r = keys_to_redact s \<and>
     length (tb_recipients (tr_body r)) = length (tb_recipients (tr_body s)) \<and>
     tb_actor (tr_body r) = tb_actor (tr_body s) \<and>
     rel_option (list_all2 (\<lambda>a b. att_name a = att_name b \<and> att_content_type a = att_content_type b))
       (tb_attachments (tr_body r)) (tb_attachments (tr_body s)) \<and>
     tb_cancellation_key (tr_body r) = tb_cancellation_key (tr_body s) \<and>
     tb_workplace_id (tr_body r) = tb_workplace_id (tr_body s) \<and>
     rel_option (\<lambda>d e. similar (keys_to_redact r) (JObj d) (JObj e)) (tb_data (tr_body r)) (tb_data (tr_body s))"

lemma same_visible_body:
  assumes "same_visible r s"
  shows "redacted_body (keys_to_redact r) (tr_body r) = redacted_body (keys_to_redact s) (tr_body s)"
proof -
  have "map redacted_attachment as = map redacted_attachment bs"
    if "list_all2 (\<lambda>a b. att_name a = att_name b \<and> att_content_type a = att_content_type b) as bs" for as bs
    using that by (intro map_eq_rel list_all2_mono [OF that]) (simp add: redacted_attachment_def)
  then have "map_option (\<lambda>as. JArr (map redacted_attachment as)) (tb_attachments (tr_body r)) =
      map_option (\<lambda>as. JArr (map redacted_attachment as)) (tb_attachments (tr_body s))"
    using assms
    by (cases "tb_attachments (tr_body r)"; cases "tb_attachments (tr_body s)")
      (auto simp: same_visible_def)
  moreover have "redact (keys_to_redact r) (tb_data (tr_body r)) = redact (keys_to_redact s) (tb_data (tr_body s))"
    using assms
    by (cases "tb_data (tr_body r)"; cases "tb_data (tr_body s)")
      (auto simp: same_visible_def redact_def dest: similar_redact)
  ultimately show ?thesis
    using assms by (simp add: same_visible_def redacted_body_def)
qed

subsection \<open>Recipients\<close>

text \<open>The properties of the provider's user that the request gives, by name.\<close>

definition given :: "(string \<Rightarrow> (string, string) either) \<Rightarrow> date inline_user \<Rightarrow> (string \<times> js option) list" where
  "given formatter i =
     [(''channel_data'', map_option JObj (iu_channel_data i)),
      (''created_at'', map_option (\<lambda>d. JStr (iso_string (the d))) (iu_created_at i)),
      (''email'', map_option JStr (truthy (iu_email i))),
      (''name'', map_option JStr (truthy (iu_name i))),
      (''phone_number'', map_option (\<lambda>n. JStr (format_phone_number formatter n)) (truthy (iu_phone_number i))),
      (''timezone'', map_option JStr (truthy (iu_time_zone i))),
      (''$trigger_data'', map_option JObj (iu_trigger_data i))]"

definition custom :: "date inline_user \<Rightarrow> js_object" where
  "custom i = (case iu_custom_properties i of None \<Rightarrow> [] | Some ps \<Rightarrow> spread [] ps)"

lemma optional_keys: "p \<in> set (optional k v) \<Longrightarrow> fst p = k"
  by (auto simp: optional_def split: option.splits)

lemma map_of_optionals:
  "distinct (map fst fs) \<Longrightarrow>
   map_of (rev (concat (map (\<lambda>(k, v). optional k v) fs))) k = (case map_of fs k of None \<Rightarrow> None | Some v \<Rightarrow> v)"
proof (induction fs)
  case (Cons f fs)
  obtain l v where f: "f = (l, v)" by (cases f)
  have absent: "map_of fs l = None" using Cons.prems f by (simp add: map_of_eq_None_iff)
  with Cons f show ?case
    by (auto simp: optional_def map_add_def split: option.splits)
qed simp

text \<open>In what the provider is told of a user the identifier is always the one requested, a
  field that is given wins over a custom property of its name, and every other custom property is
  passed on.\<close>

theorem inline_user_properties:
  assumes "to_inline_user formatter i = Inr ps"
  shows "map_get ps k =
    (if k = ''id'' then Some (JStr (iu_user_id i))
     else case map_of (given formatter i) k of Some (Some v) \<Rightarrow> Some v | _ \<Rightarrow> map_get (custom i) k)"
proof -
  from assms have ps: "ps = map_set ''id'' (JStr (iu_user_id i))
      (spread (custom i) (concat (map (\<lambda>(k, v). optional k v) (given formatter i))))"
    by (auto simp: to_inline_user_def to_inline_user_without_id_def bind_result_def custom_def given_def
        simp del: spread_simps split: option.splits sum.splits)
  have "distinct (map fst (given formatter i))" by (simp add: given_def)
  then show ?thesis
    unfolding ps by (auto simp: map_of_spread map_of_optionals simp del: spread_simps split: option.splits)
qed

subsection \<open>Push tokens\<close>

text \<open>A provider that keeps the tokens it is given: \<open>tokens p user channel\<close>.\<close>

definition keeps_channels :: "'p knock \<Rightarrow> ('p \<Rightarrow> string \<times> string \<Rightarrow> string list) \<Rightarrow> bool" where
  "keeps_channels kn tokens \<longleftrightarrow>
     (\<forall>p u c. case knock_get_channel kn p u c of
        (p', Inr ts) \<Rightarrow> tokens p' = tokens p \<and> tokens_or_none ts = tokens p (u, c)
      | (p', Inl e) \<Rightarrow> tokens p' = tokens p \<and> (caught_status e = Some 404 \<longrightarrow> tokens p (u, c) = [])) \<and>
     (\<forall>p u c ts. case knock_set_channel kn p u c ts of
        (p', Inr r) \<Rightarrow> tokens p' = (tokens p)((u, c) := ts)
      | (p', Inl e) \<Rightarrow> True)"

lemma append_read_tokens:
  assumes "keeps_channels kn tokens" and "append_read kn req w = (w', Inr ts)"
  shows "tokens (w_provider w') = tokens (w_provider w) \<and>
    ts = tokens (w_provider w) (pt_user_id req, pt_channel_id req)"
proof -
  let ?w = "log_entry Info (push_context req) '' request'' [] w"
  obtain p r where get: "knock_get_channel kn (w_provider w) (pt_user_id req) (pt_channel_id req) = (p, r)"
    by (cases "knock_get_channel kn (w_provider w) (pt_user_id req) (pt_channel_id req)")
  have "case (p, r) of
        (p', Inr ts) \<Rightarrow> tokens p' = tokens (w_provider w) \<and>
           tokens_or_none ts = tokens (w_provider w) (pt_user_id req, pt_channel_id req)
      | (p', Inl e) \<Rightarrow> tokens p' = tokens (w_provider w) \<and>
          (caught_status e = Some 404 \<longrightarrow> tokens (w_provider w) (pt_user_id req, pt_channel_id req) = [])"
    unfolding get [symmetric]
    by (rule assms(1) [unfolded keeps_channels_def, THEN conjunct1, THEN spec, THEN spec, THEN spec])
  with assms(2) get show ?thesis
    by (auto simp: append_read_def existing_tokens_def ask_def split: sum.splits if_splits prod.splits)
qed

lemma append_write_tokens:
  assumes "keeps_channels kn tokens" and "append_write cl kn req ts w = (w', Success b)"
  shows "tokens (w_provider w') =
    (tokens (w_provider w))((pt_user_id req, pt_channel_id req) := set_of_list (ts @ [pt_token req]))"
proof -
  let ?ts = "set_of_list (ts @ [pt_token req])"
  obtain p r where put: "knock_set_channel kn (w_provider w) (pt_user_id req) (pt_channel_id req) ?ts = (p, r)"
    by (cases "knock_set_channel kn (w_provider w) (pt_user_id req) (pt_channel_id req) ?ts")
  have "case (p, r) of
        (p', Inr r) \<Rightarrow> tokens p' = (tokens (w_provider w))((pt_user_id req, pt_channel_id req) := ?ts)
      | (p', Inl e) \<Rightarrow> True"
    unfolding put [symmetric]
    by (rule assms(1) [unfolded keeps_channels_def, THEN conjunct2, THEN spec, THEN spec, THEN spec, THEN spec])
  with assms(2) put show ?thesis
    by (auto simp: append_write_def ask_def push_failed_def Let_def split: sum.splits
        dest: sent_create_and_log_error)
qed

subsection \<open>One trigger\<close>

text \<open>The call a trigger makes, if it makes one.\<close>

definition malformed :: "trigger_request \<Rightarrow> bool" where
  "malformed req \<longleftrightarrow> tb_recipients (tr_body req) = [] \<or>
     length (tb_recipients (tr_body req)) > maximum_recipients_count \<or>
     parse_trigger_key (tr_idempotency_key req) = None"

definition expired_at :: "int \<Rightarrow> trigger_request \<Rightarrow> bool" where
  "expired_at now req \<longleftrightarrow> (case tr_expires_at req of None \<Rightarrow> False | Some t \<Rightarrow> t < now)"

lemma check_trigger_Inr:
  "check_trigger now req = Inr ps \<Longrightarrow>
   \<not> malformed req \<and> \<not> expired_at now req \<and> parse_trigger_key (tr_idempotency_key req) = Some ps"
  by (auto simp: check_trigger_def malformed_def expired_at_def Let_def split: if_splits option.splits)

lemma check_trigger_Inl:
  "check_trigger now req = Inl ((c, m), metadata) \<Longrightarrow>
   if malformed req then c \<in> {RecipientCountBelowMinimum, RecipientCountAboveMaximum, InvalidIdempotencyKey}
   else c = Expired \<and> expired_at now req"
  by (auto simp: check_trigger_def malformed_def expired_at_def Let_def too_few_def too_many_def
      expired_error_def split: if_splits option.splits)

lemma trigger_cases:
  assumes "trigger cl kn now req w = (w', r)"
  obtains (refused) c m metadata where "check_trigger now req = Inl ((c, m), metadata)"
      "sent w' = sent w" "w_provider w' = w_provider w" "r = Failure (notification_error cl c m)"
  | (unconvertible) ps e c m where "check_trigger now req = Inr ps"
      "to_trigger_body (cl_formatter cl) (tr_body req) = Inl e" "to_notification_error e = (c, m)"
      "sent w' = sent w" "w_provider w' = w_provider w" "r = Failure (notification_error cl c m)"
  | (dry) ps body where "check_trigger now req = Inr ps" "dry_run_of (tr_dry_run req)"
      "to_trigger_body (cl_formatter cl) (tr_body req) = Inr body"
      "sent w' = sent w" "w_provider w' = w_provider w" "r = success ''dry-run''"
  | (failed) ps body key e c m where "check_trigger now req = Inr ps" "\<not> dry_run_of (tr_dry_run req)"
      "to_trigger_body (cl_formatter cl) (tr_body req) = Inr body"
      "key = key_params_to_hash (cl_sha cl) ps (tb_workplace_id (tr_body req))"
      "sent w' = sent w @ [(tr_workflow_key req, key, body)]"
      "knock_trigger kn (w_provider w) (tr_workflow_key req) body key = (w_provider w', Inl e)"
      "to_notification_error e = (c, m)" "r = Failure (notification_error cl c m)"
  | (answered) ps body key a where "check_trigger now req = Inr ps" "\<not> dry_run_of (tr_dry_run req)"
      "to_trigger_body (cl_formatter cl) (tr_body req) = Inr body"
      "key = key_params_to_hash (cl_sha cl) ps (tb_workplace_id (tr_body req))"
      "sent w' = sent w @ [(tr_workflow_key req, key, body)]"
      "knock_trigger kn (w_provider w) (tr_workflow_key req) body key = (w_provider w', Inr a)"
      "r = success (run_id a)"
proof (cases "check_trigger now req")
  case (Inl bad)
  obtain c m metadata where bad: "bad = ((c, m), metadata)" by (metis prod.exhaust)
  with assms Inl show thesis
    by (intro refused [of c m metadata])
      (auto simp: trigger_def Let_def dest: sent_create_and_log_error)
next
  case (Inr ps)
  let ?key = "key_params_to_hash (cl_sha cl) ps (tb_workplace_id (tr_body req))"
  show thesis
  proof (cases "to_trigger_body (cl_formatter cl) (tr_body req)")
    case (Inl e)
    obtain c m where "to_notification_error e = (c, m)" by (cases "to_notification_error e")
    with assms Inl Inr show thesis
      by (intro unconvertible [of ps e c m]) (auto simp: trigger_def Let_def dest: sent_create_and_log_error)
  next
    case body: (Inr body)
    show thesis
    proof (cases "dry_run_of (tr_dry_run req)")
      case True
      with assms Inr body show thesis
        by (intro dry [of ps body])
          (auto simp: trigger_def Let_def log_trigger_request_def log_trigger_response_def)
    next
      case False
      let ?ctx = "trigger_log_params ''notifications.trigger'' knock_destination req"
      let ?w1 = "log_trigger_request ?ctx req
        (emit (Traced (ctx_trace ?ctx) (trigger_trace_options knock_destination req)) w)"
      obtain w2 a where call: "call_trigger kn (tr_workflow_key req) body ?key ?w1 = (w2, a)"
        by (cases "call_trigger kn (tr_workflow_key req) body ?key ?w1")
      have w2: "sent w2 = sent w @ [(tr_workflow_key req, ?key, body)]"
        "knock_trigger kn (w_provider w) (tr_workflow_key req) body ?key = (w_provider w2, a)"
        using call_trigger_sent [OF call] by (simp_all add: log_trigger_request_def)
      show thesis
      proof (cases a)
        case (Inl e)
        obtain c m where "to_notification_error e = (c, m)" by (cases "to_notification_error e")
        with assms Inl Inr body False call w2 show thesis
          by (intro failed [of ps body ?key e c m])
            (auto simp: trigger_def Let_def dest: sent_create_and_log_error)
      next
        case a: (Inr a')
        with assms Inr body False call w2 show thesis
          by (intro answered [of ps body ?key a'])
            (auto simp: trigger_def Let_def log_trigger_response_def)
      qed
    qed
  qed
qed

end
