(* ===== verification/NotificationGuarantees.thy ===== *)
theory NotificationGuarantees
  imports NotificationSafety "HOL-Library.Multiset"
begin

section \<open>notifications: guarantees and their instances\<close>

text \<open>
  The properties of the client over a whole trigger, a whole job with its retries, and two calls
  that interleave, with a concrete provider for their instances: it times out after it has
  delivered a call, answers a call whose key it has delivered within the life of a key, and stores
  push tokens.
\<close>

subsection \<open>A provider\<close>

record shop =
  shop_clock :: "int list"
  shop_delivered :: "(int \<times> call) list"
  shop_tokens :: "((string \<times> string) \<times> string list) list"

text \<open>\<open>shop_clock\<close>: what the provider's clock shows at its next trigger calls.\<close>

definition shop_trigger :: "shop \<Rightarrow> string \<Rightarrow> js_object \<Rightarrow> string \<Rightarrow> shop \<times> (caught + trigger_response)" where
  "shop_trigger p workflow body key =
     (case shop_clock p of
        [] \<Rightarrow> (p, Inl \<lparr>caught_message = ''closed'', caught_status = Some 503\<rparr>)
      | t # ts \<Rightarrow>
          if list_ex (\<lambda>(s, c). key_of c = key \<and> t \<le> s + key_life) (shop_delivered p)
          then (p\<lparr>shop_clock := ts\<rparr>, Inr \<lparr>run_id = ''run'', run_json = JNull\<rparr>)
          else (p\<lparr>shop_clock := ts, shop_delivered := shop_delivered p @ [(t, workflow, key, body)]\<rparr>,
                Inl \<lparr>caught_message = ''timeout'', caught_status = Some 504\<rparr>))"

definition shop_tokens_of :: "shop \<Rightarrow> string \<times> string \<Rightarrow> string list" where
  "shop_tokens_of p k = (case map_of (shop_tokens p) k of None \<Rightarrow> [] | Some ts \<Rightarrow> ts)"

definition example_knock :: "shop knock" where
  "example_knock =
     \<lparr>knock_trigger = shop_trigger,
      knock_cancel = (\<lambda>p workflow body. (p, Inr ())),
      knock_get_channel = (\<lambda>p u c. (p, Inr (map_of (shop_tokens p) (u, c)))),
      knock_set_channel = (\<lambda>p u c ts.
        (p\<lparr>shop_tokens := ((u, c), ts) # shop_tokens p\<rparr>, Inr (Some ts))),
      knock_set_tenant = (\<lambda>p t body. (p, Inr \<lparr>tenant_id = t, tenant_name = None\<rparr>)),
      knock_set_preferences = (\<lambda>p u body. (p, Inr JNull)),
      knock_sign = (\<lambda>u k s. Inr ''token'')\<rparr>"

definition example_client :: client where
  "example_client =
     \<lparr>cl_signing_key = None, cl_has_span = False, cl_fresh = ''id'', cl_formatter = Right, cl_sha = (\<lambda>s. s)\<rparr>"

definition example_user :: "date inline_user" where
  "example_user =
     \<lparr>iu_user_id = ''u1'', iu_channel_data = None, iu_created_at = None, iu_email = Some ''ann@b.c'',
      iu_name = None, iu_phone_number = None, iu_time_zone = None,
      iu_custom_properties = Some [(''email'', JStr ''old''), (''id'', JStr ''x''), (''plan'', JStr ''pro'')],
      iu_trigger_data = None\<rparr>"

definition example_request :: trigger_request where
  "example_request =
     \<lparr>tr_attempt = 1,
      tr_body =
        \<lparr>tb_recipients = [UserId ''u1'', UserId ''u2''], tb_actor = Some (InlineUser example_user),
         tb_attachments = None, tb_cancellation_key = None,
         tb_data = Some [(''email'', JStr ''ann@b.c'')], tb_workplace_id = None\<rparr>,
      tr_dry_run = None, tr_expires_at = Some 9, tr_idempotency_key = ''k'',
      tr_keys_to_redact = Some [''email''], tr_workflow_key = ''welcome''\<rparr>"

definition example_world :: "shop world" where
  "example_world = \<lparr>w_provider = \<lparr>shop_clock = [4, 5], shop_delivered = [], shop_tokens = []\<rparr>, w_events = []\<rparr>"

lemma example_honours_keys: "honours_keys example_knock shop_delivered"
  by (force simp: honours_keys_def example_knock_def shop_trigger_def list_ex_iff split: list.splits)

lemma example_keeps_channels: "keeps_channels example_knock shop_tokens_of"
  by (auto simp: keeps_channels_def example_knock_def shop_tokens_of_def tokens_or_none_def
      fun_eq_iff split: option.splits)

lemma example_planned:
  "planned example_client example_request = Inr [(''welcome'', ''k-1'',
     case to_trigger_body Right (tr_body example_request) of Inr b \<Rightarrow> b | Inl _ \<Rightarrow> [])]"
  by code_simp

lemma chunked_trigger_follows_plan_witness:
  "\<exists>made. sent (fst (trigger_chunked example_client example_knock 5 example_request example_world)) = [] @ made \<and>
     length made = 1"
  using chunked_trigger_follows_plan [OF example_planned prod.collapse [symmetric], of example_knock 5 example_world]
  by (auto simp: progress_def valid_chunked_def example_request_def dry_run_of_def example_world_def
      sent_def example_client_def split: service_result.splits)

lemma inline_user_properties_witness:
  "case to_inline_user Right example_user of
     Inl _ \<Rightarrow> False
   | Inr ps \<Rightarrow> map_get ps ''id'' = Some (JStr ''u1'')"
proof (cases "to_inline_user Right example_user")
  case (Inr ps)
  from inline_user_properties [OF this, of "''id''"] Inr show ?thesis
    by (simp add: example_user_def)
qed (simp add: to_inline_user_def to_inline_user_without_id_def bind_result_def example_user_def)

subsection \<open>Retries\<close>

text \<open>C5: A job may fail and be retried any number of times, at any times, with a provider that
  honours idempotency keys for 24 hours. Only calls of the plan are delivered; two deliveries of one
  call lie more than 24 hours apart; and once an attempt succeeds every call has been delivered,
  exactly once if all deliveries fall within 24 hours. Later retries may deliver again.\<close>

theorem retries_deliver_once:
  assumes "honours_keys kn delivered" and "planned cl req = Inr calls"
    and "(key_of \<circ> snd) ` set (delivered (w_provider w)) \<inter> key_of ` set calls = {}"
    and "attempts_of cl kn req tries w = w1"
    and "trigger_chunked cl kn now (req\<lparr>tr_attempt := a\<rparr>) w1 = (w2, r)"
  shows "\<exists>D. delivered (w_provider w2) = delivered (w_provider w) @ D \<and> snd ` set D \<subseteq> set calls \<and>
    (\<forall>i j. i < j \<longrightarrow> j < length D \<longrightarrow> snd (D ! i) = snd (D ! j) \<longrightarrow>
       fst (D ! i) + 24 * 60 * 60 * 1000 < fst (D ! j)) \<and>
    (is_success r \<and> \<not> dry_run_of (tr_dry_run req) \<longrightarrow>
       set calls \<subseteq> snd ` set D \<and>
       ((\<forall>x \<in> set D. \<forall>y \<in> set D. fst y \<le> fst x + 24 * 60 * 60 * 1000) \<longrightarrow>
          mset (map snd D) = mset calls))"
proof -
  let ?start = "delivered (w_provider w)"
  have "delivery_inv ?start calls (delivered (w_provider w1))"
    using attempts_deliver [OF assms(1,3,2), of w tries] assms(4) by (auto simp: delivery_inv_def)
  from trigger_chunked_delivers [OF assms(1,3) _ this assms(5)] assms(2)
  have inv: "delivery_inv ?start calls (delivered (w_provider w2))"
    and all: "is_success r \<and> \<not> dry_run_of (tr_dry_run req) \<Longrightarrow> set calls \<subseteq> snd ` set (delivered (w_provider w2))"
    by auto
  from inv obtain D where D: "delivered (w_provider w2) = ?start @ D" "sorted_wrt apart D"
      "snd ` set D \<subseteq> set calls"
    by (auto simp: delivery_inv_def)
  have sent: "set calls \<subseteq> snd ` set D" if "is_success r \<and> \<not> dry_run_of (tr_dry_run req)"
  proof -
    have "snd ` set ?start \<inter> set calls = {}"
      using assms(3) unfolding image_comp [symmetric] by blast
    with all [OF that] show ?thesis unfolding D(1) set_append image_Un by blast
  qed
  have gap: "\<forall>i j. i < j \<longrightarrow> j < length D \<longrightarrow> snd (D ! i) = snd (D ! j) \<longrightarrow>
      fst (D ! i) + 24 * 60 * 60 * 1000 < fst (D ! j)"
    using D(2) by (simp add: sorted_wrt_iff_nth_less apart_def key_life_def)
  have once: "mset (map snd D) = mset calls"
    if "set calls \<subseteq> snd ` set D" "\<forall>x \<in> set D. \<forall>y \<in> set D. fst y \<le> fst x + 24 * 60 * 60 * 1000"
  proof -
    have "distinct calls"
      using planned_keys_distinct [OF assms(2)] by (simp add: distinct_map)
    moreover have "distinct (map snd D)"
      using D(2) once_within_life [of D] that(2) by (simp add: key_life_def)
    moreover have "set (map snd D) = set calls"
      using that(1) D(3) by auto
    ultimately show ?thesis
      using set_eq_iff_mset_eq_distinct by blast
  qed
  show ?thesis
    by (intro exI [of _ D] conjI impI D(1,3) gap sent once) auto
qed

lemma retries_deliver_once_witness:
  "\<exists>D. shop_delivered (w_provider (fst (trigger_chunked example_client example_knock 5
      (example_request\<lparr>tr_attempt := 2\<rparr>)
      (attempts_of example_client example_knock example_request [(4, 1)] example_world)))) = D \<and>
    snd ` set D = {(''welcome'', ''k-1'', case to_trigger_body Right (tr_body example_request) of Inr b \<Rightarrow> b | Inl _ \<Rightarrow> [])}"
proof -
  let ?w1 = "attempts_of example_client example_knock example_request [(4, 1)] example_world"
  let ?run = "trigger_chunked example_client example_knock 5 (example_request\<lparr>tr_attempt := 2\<rparr>) ?w1"
  have ok: "is_success (snd ?run)" by code_simp
  have "\<not> dry_run_of (tr_dry_run example_request)" by (simp add: example_request_def dry_run_of_def)
  with retries_deliver_once [OF example_honours_keys example_planned _ refl prod.collapse [symmetric],
      where w = example_world and tries = "[(4, 1)]" and now = 5 and a = 2] ok
  show ?thesis
    by (simp add: example_world_def) blast
qed

text \<open>A retry later than that delivers again: the key is no longer honoured.\<close>

definition late_request :: trigger_request where
  "late_request = example_request\<lparr>tr_expires_at := Some 200000000\<rparr>"

definition late_world :: "shop world" where
  "late_world =
     \<lparr>w_provider = \<lparr>shop_clock = [0, 90000000, 90000001], shop_delivered = [], shop_tokens = []\<rparr>,
      w_events = []\<rparr>"

theorem late_retry_delivers_again:
  "(case trigger_chunked example_client example_knock 90000001 (late_request\<lparr>tr_attempt := 3\<rparr>)
      (attempts_of example_client example_knock late_request [(0, 1), (90000000, 2)] late_world) of
      (w, r) \<Rightarrow> is_success r \<and> map (key_of \<circ> snd) (shop_delivered (w_provider w)) = [''k-1'', ''k-1''])"
  by code_simp

subsection \<open>From the job to the provider\<close>

lemma job_key_params:
  assumes "plain (JObj (ed_key_parts d))" and "n < 2 ^ 53"
    and "enqueue_chunk impl sha handler d options (n, rs) = (h, job, opts)"
    and "tr_idempotency_key req = string_value (property job ''idempotencyKey'')"
    and "check_trigger now req = Inr ps"
  shows "plain_members ps" and "unique_key impl (h, job, opts) = JStr (key_params_to_hash sha ps None)"
proof -
  have "ps = trigger_key_params d n rs"
    using job_key [OF assms(1,2), of impl sha handler options rs] check_trigger_Inr [OF assms(5)] assms(3,4)
    by simp
  with trigger_key_params_plain [OF assms(1,2), of rs] unique_key_chunk [of impl sha handler d options n rs]
  show "plain_members ps" "unique_key impl (h, job, opts) = JStr (key_params_to_hash sha ps None)"
    by (simp_all add: assms(3))
qed

lemma workplace_changes_key:
  assumes "inj sha" and "plain_members ps"
  shows "key_params_to_hash sha ps None \<noteq> key_params_to_hash sha ps (Some p)"
  unfolding key_hash_eq [OF assms(1,2,2)]
  by (auto simp: key_params_sorted_def split: option.splits)

text \<open>C30: The key of a job and the key of its delivery. A trigger requested with the key found in
  a job makes at most one call. Without a workplace in the request, that call carries the unique
  key of the job; with one it carries another, when the hash has no collisions: the enqueuer leaves
  the workplace out of the hash and the client puts it in.\<close>

theorem job_delivered_under_its_key:
  assumes "plain (JObj (ed_key_parts d))" and "n < 2 ^ 53"
    and "enqueue_chunk impl (cl_sha cl) handler d options (n, rs) = (h, job, opts)"
    and "tr_idempotency_key req = string_value (property job ''idempotencyKey'')"
    and "trigger cl kn now req w = (w', r)" and "sent w' \<noteq> sent w"
  shows "\<exists>body key. sent w' = sent w @ [(tr_workflow_key req, key, body)] \<and>
    (tb_workplace_id (tr_body req) = None \<longrightarrow> unique_key impl (h, job, opts) = JStr key) \<and>
    (tb_workplace_id (tr_body req) \<noteq> None \<and> inj (cl_sha cl) \<longrightarrow> unique_key impl (h, job, opts) \<noteq> JStr key)"
  using assms(5)
proof (cases rule: trigger_cases)
  case (failed ps body key e c m)
  with job_key_params [OF assms(1-4) failed(1)] workplace_changes_key show ?thesis by auto
next
  case (answered ps body key a)
  with job_key_params [OF assms(1-4) answered(1)] workplace_changes_key show ?thesis by auto
qed (use assms(6) in simp_all)

definition example_job_request :: trigger_request where
  "example_job_request = example_request
     \<lparr>tr_idempotency_key := string_value (property
        (fst (snd (enqueue_chunk Mongo (\<lambda>s. s) () example_job None (1, [''u1''])))) ''idempotencyKey'')\<rparr>"

lemma job_delivered_under_its_key_witness:
  "\<exists>body key. sent (fst (trigger example_client example_knock 5 example_job_request example_world)) =
      [(''welcome'', key, body)] \<and>
    unique_key Mongo (enqueue_chunk Mongo (\<lambda>s. s) () example_job None (1, [''u1''])) = JStr key"
proof -
  obtain job opts where e: "enqueue_chunk Mongo (\<lambda>s. s) () example_job None (1, [''u1'']) = ((), job, opts)"
    by (metis prod_cases3 unit.exhaust)
  have sent: "\<not> sent (fst (trigger example_client example_knock 5 example_job_request example_world)) =
      sent example_world"
    by code_simp
  have cl: "cl_sha example_client = (\<lambda>s. s)" by (simp add: example_client_def)
  have "\<exists>body key. sent (fst (trigger example_client example_knock 5 example_job_request example_world)) =
      sent example_world @ [(tr_workflow_key example_job_request, key, body)] \<and>
      (tb_workplace_id (tr_body example_job_request) = None \<longrightarrow> unique_key Mongo ((), job, opts) = JStr key) \<and>
      (tb_workplace_id (tr_body example_job_request) \<noteq> None \<and> inj (cl_sha example_client) \<longrightarrow>
        unique_key Mongo ((), job, opts) \<noteq> JStr key)"
  proof (rule job_delivered_under_its_key [where d = example_job and n = 1 and options = None
        and handler = "()" and rs = "[''u1'']" and cl = example_client, OF _ _ _ _ prod.collapse [symmetric] sent])
    show "enqueue_chunk Mongo (cl_sha example_client) () example_job None (1, [''u1'']) = ((), job, opts)"
      unfolding cl by (rule e)
    show "tr_idempotency_key example_job_request = string_value (property job ''idempotencyKey'')"
      unfolding example_job_request_def e by simp
  qed (simp_all add: example_job_def)
  then show ?thesis
    unfolding e by (simp add: example_job_request_def example_request_def example_world_def sent_def)
qed

lemma to_trigger_body_fails: "to_trigger_body formatter b = Inl e \<Longrightarrow> e = invalid_time"
proof -
  have recipient: "e = invalid_time" if "to_recipient formatter r = Inl e" for r e
    using that by (auto simp: to_recipient_def to_inline_user_def to_inline_user_without_id_def
        bind_result_def split: recipient.splits sum.splits option.splits)
  have "e = invalid_time" if "traverse (to_recipient formatter) rs = Inl e" for rs e
    using that by (induction rs) (auto simp: bind_result_def dest: recipient split: sum.splits)
  then show "to_trigger_body formatter b = Inl e \<Longrightarrow> e = invalid_time"
    by (auto simp: to_trigger_body_def bind_result_def dest: recipient split: sum.splits option.splits)
qed

text \<open>C29: A failed trigger carries one issue, and its code tells whether a retry can help: it is a
  client error exactly when the request itself is malformed or the provider answered its call with
  a 4xx status other than 429. An expired request and an invalid date among the recipients are
  refused without a call and not classified as client errors.\<close>

theorem trigger_failure_classified:
  assumes "trigger cl kn now req w = (w', Failure e)"
  shows "\<exists>c m. e = notification_error cl c m \<and>
    (if malformed req then sent w' = sent w \<and> is_client_error (Some (error_code_text c))
     else if sent w' = sent w then c \<in> {Expired, Unknown}
     else \<exists>key body p bad.
       sent w' = sent w @ [(tr_workflow_key req, key, body)] \<and>
       knock_trigger kn (w_provider w) (tr_workflow_key req) body key = (p, Inl bad) \<and>
       m = caught_message bad \<and>
       (is_client_error (Some (error_code_text c)) \<longleftrightarrow>
         (\<exists>st. caught_status bad = Some st \<and> 400 \<le> st \<and> st \<le> 499 \<and> st \<noteq> 429)))"
  using assms
proof (cases rule: trigger_cases)
  case (refused c m metadata)
  with check_trigger_Inl [OF refused(1)] show ?thesis
    by (auto simp: is_client_error_code split: if_splits intro!: exI [of _ c] exI [of _ m])
next
  case (unconvertible ps bad c m)
  have "c = Unknown"
    using to_trigger_body_fails [OF unconvertible(2)] unconvertible(3)
    by (simp add: to_notification_error_def invalid_time_def)
  with unconvertible check_trigger_Inr [OF unconvertible(1)] show ?thesis
    by auto
next
  case (failed ps body key bad c m)
  with check_trigger_Inr [OF failed(1)] show ?thesis
    by (auto simp: is_client_error_code to_notification_error_def intro!: exI [of _ c] exI [of _ m]
        split: option.splits if_splits)
qed (simp_all add: success_def)

lemma trigger_failure_classified_witness:
  "case snd (trigger example_client example_knock 5 example_job_request example_world) of
     Success _ \<Rightarrow> False
   | Failure e \<Rightarrow> \<exists>c m. e = notification_error example_client c m"
proof -
  let ?run = "trigger example_client example_knock 5 example_job_request example_world"
  have "\<not> is_success (snd ?run)" by code_simp
  then obtain e where e: "snd ?run = Failure e" by (cases "snd ?run") (auto simp: is_success_def)
  then have run: "?run = (fst ?run, Failure e)" by (metis prod.collapse)
  show ?thesis unfolding e using trigger_failure_classified [OF run] by auto
qed

subsection \<open>Logs\<close>

text \<open>Redaction is complete and idempotent: in what it returns every key to redact, at any
  depth, has the placeholder as its value, and it leaves a value alone exactly when that already
  holds of it.\<close>

theorem redaction_exact:
  "hides keys (redact_value keys v) \<and> (redact_value keys v = v \<longleftrightarrow> hides keys v)"
  using redact_hides(1) [of keys v] hidden_unchanged(1) [of keys v] by auto

text \<open>C32: The line that logs a request, with the parameters logged beside it, is the same for
  two requests that agree on the attempt, the workflow, the idempotency key, the actor, the
  cancellation key, the workplace, the number of recipients, the names and types of the attachments
  and the data outside the keys to redact. So it says nothing of the content of attachments,
  nothing of the values under the keys to redact in the data, and of the recipients only their
  number and what the idempotency key itself carries.\<close>

theorem request_log_hides:
  assumes "same_visible r s"
  shows "log_trigger_request (trigger_log_params name destination r) r w =
    log_trigger_request (trigger_log_params name destination s) s w"
  using same_visible_body [OF assms] assms
  by (simp add: log_trigger_request_def trigger_log_params_def same_visible_def)

definition example_secret :: trigger_request where
  "example_secret = example_request\<lparr>tr_body := (tr_body example_request)
     \<lparr>tb_recipients := [InlineUser example_user, UserId ''u3''],
      tb_data := Some [(''email'', JStr ''bob@b.c'')]\<rparr>\<rparr>"

lemma request_log_hides_witness:
  "log_trigger_request (trigger_log_params ''notifications.triggerChunked'' knock_destination example_request)
      example_request example_world =
    log_trigger_request (trigger_log_params ''notifications.triggerChunked'' knock_destination example_secret)
      example_secret example_world"
proof (rule request_log_hides)
  have "similar [''email''] (JObj [(''email'', JStr ''ann@b.c'')]) (JObj [(''email'', JStr ''bob@b.c'')])"
    by (rule similar.members) auto
  then show "same_visible example_request example_secret"
    by (simp add: same_visible_def example_request_def example_secret_def keys_to_redact_def)
qed

text \<open>The idempotency key of \<open>trigger\<close> is made from the recipients, and it is logged beside
  the body they are left out of.\<close>

theorem logged_key_names_recipients:
  "map_option (\<lambda>ps. property ps ''recipients'') (parse_trigger_key (string_value (property
      (ctx_params (trigger_log_params ''notifications.trigger'' knock_destination example_job_request))
      ''idempotencyKey''))) = Some (JArr [JStr ''u1''])"
  by code_simp

text \<open>The e-mail address of the actor in each logged line that has one.\<close>

definition logged_actor_emails :: "'p world \<Rightarrow> js list" where
  "logged_actor_emails w = concat (map (\<lambda>e. case e of
       Logged l t ps \<Rightarrow> (case member (member (property ps ''redactedBody'') ''actor'') ''email'' of
           JUndefined \<Rightarrow> [] | v \<Rightarrow> [v])
     | _ \<Rightarrow> []) (w_events w))"

text \<open>The actor of a request is logged as it is: recipients are left out of the logged body as
  potentially sensitive, but an actor given inline appears there with the e-mail address it has,
  even when that key is to be redacted.\<close>

theorem actor_is_logged:
  "logged_actor_emails (fst (trigger_chunked example_client example_knock 5 example_request example_world)) =
     [JStr ''ann@b.c''] \<and> keys_to_redact example_request = [''email'']"
  by code_simp

subsection \<open>Push tokens\<close>

text \<open>C33: Appending a push token keeps every token there was, adds the new one, keeps each once and
  in order, and touches no other user or channel.\<close>

theorem append_adds_token:
  assumes "keeps_channels kn tokens" and "append_push_token cl kn req w = (w', Success b)"
  shows "tokens (w_provider w') = (tokens (w_provider w))((pt_user_id req, pt_channel_id req) :=
      set_of_list (tokens (w_provider w) (pt_user_id req, pt_channel_id req) @ [pt_token req]))"
proof -
  obtain w1 r where read: "append_read kn req w = (w1, r)" by (cases "append_read kn req w")
  with assms(2) obtain ts where r: "r = Inr ts" and put: "append_write cl kn req ts w1 = (w', Success b)"
    by (auto simp: append_push_token_def push_failed_def split: sum.splits dest: sent_create_and_log_error)
  from append_read_tokens [OF assms(1)] append_write_tokens [OF assms(1) put] read r
  show ?thesis by auto
qed

definition example_push :: "string \<Rightarrow> push_request" where
  "example_push token = \<lparr>pt_channel_id = ''apns'', pt_user_id = ''u1'', pt_token = token\<rparr>"

lemma append_adds_token_witness:
  "shop_tokens_of (w_provider (fst (append_push_token example_client example_knock (example_push ''t1'')
      (fst (append_push_token example_client example_knock (example_push ''t2'') example_world))))) (''u1'', ''apns'') =
    [''t2'', ''t1'']"
proof -
  let ?w = "fst (append_push_token example_client example_knock (example_push ''t2'') example_world)"
  let ?run = "append_push_token example_client example_knock (example_push ''t1'') ?w"
  have "?run = (fst ?run, Success True)" by (simp add: prod_eq_iff) code_simp
  then have "shop_tokens_of (w_provider (fst ?run)) (''u1'', ''apns'') =
      set_of_list (shop_tokens_of (w_provider ?w) (''u1'', ''apns'') @ [''t1''])"
    by (simp add: append_adds_token [OF example_keeps_channels] example_push_def)
  moreover have "set_of_list (shop_tokens_of (w_provider ?w) (''u1'', ''apns'') @ [''t1'']) = [''t2'', ''t1'']"
    by code_simp
  ultimately show ?thesis by simp
qed

text \<open>Two appends for one user and channel that interleave lose a token: when both read before
  either writes, both succeed and only the token written last is kept.\<close>

theorem concurrent_appends_lose_token:
  "(case append_read example_knock (example_push ''t1'') example_world of
      (w1, Inr ts1) \<Rightarrow>
        (case append_read example_knock (example_push ''t2'') w1 of
           (w2, Inr ts2) \<Rightarrow>
             (case append_write example_client example_knock (example_push ''t1'') ts1 w2 of
                (w3, r1) \<Rightarrow>
                  (case append_write example_client example_knock (example_push ''t2'') ts2 w3 of
                     (w4, r2) \<Rightarrow> is_success r1 \<and> is_success r2 \<and>
                       shop_tokens_of (w_provider w4) (''u1'', ''apns'') = [''t2'']))
         | _ \<Rightarrow> False)
    | _ \<Rightarrow> False)"
  by code_simp

end
