(* ===== verification/DeepFreeze.thy ===== *)
theory DeepFreeze
  imports Prelude
begin

section \<open>util-ts: freezing a graph of objects\<close>

text \<open>
  Models \<open>packages/util-ts/src/lib/deepFreeze.ts\<close>. The objects are a heap indexed by address,
  since they may be shared and circular: each has the values of its own keys, in order, and is
  frozen or not. A value that is no object (a function is none, either) is \<open>Plain\<close>. The set
  \<open>seen\<close> is passed along. The recursion takes fuel; one more than the number of objects is enough.
\<close>

datatype field = Plain | Ref nat

record heap_object =
  ho_fields :: "field list"
  ho_frozen :: bool

type_synonym heap = "heap_object list"

definition fields_of :: "heap \<Rightarrow> nat \<Rightarrow> field list" where
  "fields_of h a = (if a < length h then ho_fields (h ! a) else [])"

definition is_frozen :: "heap \<Rightarrow> nat \<Rightarrow> bool" where
  "is_frozen h a = (a < length h \<and> ho_frozen (h ! a))"

definition freeze :: "heap \<Rightarrow> nat \<Rightarrow> heap" where
  "freeze h a = (if a < length h then h[a := (h ! a)\<lparr>ho_frozen := True\<rparr>] else h)"

fun deep_freeze :: "nat \<Rightarrow> nat \<Rightarrow> heap \<Rightarrow> nat list \<Rightarrow> (heap \<times> nat list) option"
and freeze_fields :: "nat \<Rightarrow> field list \<Rightarrow> heap \<Rightarrow> nat list \<Rightarrow> (heap \<times> nat list) option" where
  "deep_freeze 0 a h seen = None"
| "deep_freeze (Suc f) a h seen =
     (if a \<in> set seen then Some (h, seen)
      else (case freeze_fields f (fields_of h a) h (seen @ [a]) of
              None \<Rightarrow> None
            | Some (h1, seen1) \<Rightarrow> Some (freeze h1 a, seen1)))"
| "freeze_fields f [] h seen = Some (h, seen)"
| "freeze_fields f (Plain # vs) h seen = freeze_fields f vs h seen"
| "freeze_fields f (Ref b # vs) h seen =
     (if is_frozen h b then freeze_fields f vs h seen
      else (case deep_freeze f b h seen of
              None \<Rightarrow> None
            | Some (h1, seen1) \<Rightarrow> freeze_fields f vs h1 seen1))"

definition deep_freeze_all :: "nat \<Rightarrow> heap \<Rightarrow> heap option" where
  "deep_freeze_all a h = map_option fst (deep_freeze (Suc (length h)) a h [])"

subsection \<open>What is frozen\<close>

text \<open>What is reached from an object without passing through one that was frozen before.\<close>

inductive thawed :: "heap \<Rightarrow> nat \<Rightarrow> nat \<Rightarrow> bool" for h :: heap and a :: nat where
  root: "thawed h a a"
| step: "thawed h a b \<Longrightarrow> Ref c \<in> set (fields_of h b) \<Longrightarrow> \<not> is_frozen h c \<Longrightarrow> thawed h a c"

lemma thawed_front:
  "thawed h b c \<Longrightarrow> Ref b \<in> set (fields_of h a) \<Longrightarrow> \<not> is_frozen h b \<Longrightarrow> thawed h a c"
  by (induction rule: thawed.induct) (auto intro: thawed.intros)

definition closed_heap :: "heap \<Rightarrow> bool" where
  "closed_heap h \<longleftrightarrow> list_all (\<lambda>ob. list_all (\<lambda>v. case v of Plain \<Rightarrow> True | Ref b \<Rightarrow> b < length h) (ho_fields ob)) h"

lemma closed_field: "closed_heap h \<Longrightarrow> Ref b \<in> set (fields_of h a) \<Longrightarrow> b < length h"
  by (fastforce simp: closed_heap_def fields_of_def list_all_iff split: if_splits)

lemma freeze_simps [simp]:
  "length (freeze h a) = length h" "fields_of (freeze h a) = fields_of h"
  "is_frozen (freeze h a) b \<longleftrightarrow> is_frozen h b \<or> b = a \<and> a < length h"
  by (auto simp: freeze_def fields_of_def is_frozen_def nth_list_update fun_eq_iff)

text \<open>The state in the middle of the search, from the heap \<open>h0\<close> at its start.\<close>

definition midway :: "heap \<Rightarrow> heap \<Rightarrow> nat list \<Rightarrow> bool" where
  "midway h0 h seen \<longleftrightarrow>
     length h = length h0 \<and> fields_of h = fields_of h0 \<and> set seen \<subseteq> {..<length h0} \<and>
     (\<forall>b. is_frozen h0 b \<longrightarrow> is_frozen h b) \<and> (\<forall>b. is_frozen h b \<longrightarrow> is_frozen h0 b \<or> b \<in> set seen)"

definition advanced :: "heap \<Rightarrow> heap \<times> nat list \<Rightarrow> heap \<times> nat list \<Rightarrow> bool" where
  "advanced h0 x y \<longleftrightarrow>
     (case (x, y) of ((h, seen), (h1, seen1)) \<Rightarrow>
        midway h0 h1 seen1 \<and> set seen \<subseteq> set seen1 \<and>
        (\<forall>b. is_frozen h1 b \<longleftrightarrow> is_frozen h b \<or> b \<in> set seen1 - set seen) \<and>
        (\<forall>b c. b \<in> set seen1 - set seen \<and> Ref c \<in> set (fields_of h0 b) \<longrightarrow> is_frozen h0 c \<or> c \<in> set seen1))"

lemma advanced_refl: "midway h0 h seen \<Longrightarrow> advanced h0 (h, seen) (h, seen)"
  by (auto simp: advanced_def)

lemma advanced_field:
  "advanced h0 (h, seen) (h1, seen1) \<Longrightarrow> b \<in> set seen1 \<Longrightarrow> b \<notin> set seen \<Longrightarrow>
   Ref c \<in> set (fields_of h0 b) \<Longrightarrow> is_frozen h0 c \<or> c \<in> set seen1"
  unfolding advanced_def by blast

lemma advanced_seen: "advanced h0 (h, seen) (h1, seen1) \<Longrightarrow> set seen \<subseteq> set seen1"
  by (simp add: advanced_def)

lemma advanced_trans: "advanced h0 x y \<Longrightarrow> advanced h0 y z \<Longrightarrow> advanced h0 x z"
proof -
  assume xy: "advanced h0 x y" and yz: "advanced h0 y z"
  obtain h s h1 s1 h2 s2 where eq: "x = (h, s)" "y = (h1, s1)" "z = (h2, s2)"
    by (cases x; cases y; cases z)
  have "is_frozen h0 c \<or> c \<in> set s2"
    if b: "b \<in> set s2 - set s" "Ref c \<in> set (fields_of h0 b)" for b c
  proof (cases "b \<in> set s1")
    case True
    then show ?thesis
      using advanced_field [OF xy [unfolded eq]] advanced_seen [OF yz [unfolded eq]] b by blast
  next
    case False
    then show ?thesis using advanced_field [OF yz [unfolded eq]] b by blast
  qed
  with xy yz show ?thesis by (auto simp: advanced_def eq)
qed

lemma unseen_after:
  assumes "advanced h0 (h, seen) (h1, seen1)"
  shows "card ({..<length h0} - set seen1) \<le> card ({..<length h0} - set seen)"
  using assms by (intro card_mono) (auto simp: advanced_def)

lemma deep_freeze_advances:
  assumes "closed_heap h0"
  shows "midway h0 h seen \<Longrightarrow> a < length h0 \<Longrightarrow> card ({..<length h0} - set seen) < f \<Longrightarrow>
      \<exists>h1 seen1. deep_freeze f a h seen = Some (h1, seen1) \<and> advanced h0 (h, seen) (h1, seen1) \<and>
        a \<in> set seen1 \<and> (\<forall>b \<in> set seen1 - set seen. thawed h0 a b)"
    and "midway h0 h seen \<Longrightarrow> (\<forall>b. Ref b \<in> set vs \<longrightarrow> b < length h0) \<Longrightarrow>
      card ({..<length h0} - set seen) < f \<Longrightarrow>
      \<exists>h1 seen1. freeze_fields f vs h seen = Some (h1, seen1) \<and> advanced h0 (h, seen) (h1, seen1) \<and>
        (\<forall>b. Ref b \<in> set vs \<longrightarrow> is_frozen h0 b \<or> b \<in> set seen1) \<and>
        (\<forall>c \<in> set seen1 - set seen. \<exists>b. Ref b \<in> set vs \<and> \<not> is_frozen h0 b \<and> thawed h0 b c)"
proof (induction f a h seen and f vs h seen rule: deep_freeze_freeze_fields.induct)
  case (2 f a h seen)
  show ?case
  proof (cases "a \<in> set seen")
    case True
    with 2(2) show ?thesis by (simp add: advanced_refl)
  next
    case False
    have mid: "midway h0 h (seen @ [a])" and fields: "fields_of h = fields_of h0"
      using 2(2,3) by (auto simp: midway_def)
    have "{..<length h0} - set (seen @ [a]) \<subset> {..<length h0} - set seen" using False 2(3) by auto
    then have "card ({..<length h0} - set (seen @ [a])) < card ({..<length h0} - set seen)"
      by (intro psubset_card_mono) auto
    with 2(4) have fuel: "card ({..<length h0} - set (seen @ [a])) < f" by simp
    obtain h1 seen1 where run: "freeze_fields f (fields_of h0 a) h (seen @ [a]) = Some (h1, seen1)"
      and adv: "advanced h0 (h, seen @ [a]) (h1, seen1)"
      and kids: "\<forall>b. Ref b \<in> set (fields_of h0 a) \<longrightarrow> is_frozen h0 b \<or> b \<in> set seen1"
      and reach: "\<forall>c \<in> set seen1 - set (seen @ [a]).
        \<exists>b. Ref b \<in> set (fields_of h0 a) \<and> \<not> is_frozen h0 b \<and> thawed h0 b c"
      using 2(1) [OF False mid _ fuel] closed_field [OF assms] fields by auto
    have a1: "a \<in> set seen1" "a < length h1" using adv 2(3) by (auto simp: advanced_def midway_def)
    have "is_frozen h0 c \<or> c \<in> set seen1"
      if "b \<in> set seen1 - set seen" "Ref c \<in> set (fields_of h0 b)" for b c
    proof (cases "b = a")
      case False
      with advanced_field [OF adv] that show ?thesis by auto
    qed (use that kids in blast)
    then have "advanced h0 (h, seen) (freeze h1 a, seen1)"
      using adv a1 False by (auto simp: advanced_def midway_def)
    moreover have "thawed h0 a c" if "c \<in> set seen1 - set seen" for c
      using reach that by (cases "c = a") (auto intro: thawed.root thawed_front)
    ultimately show ?thesis using False run fields a1 by simp
  qed
next
  case (5 f b vs h seen)
  show ?case
  proof (cases "is_frozen h b")
    case True
    then have b: "is_frozen h0 b \<or> b \<in> set seen" using 5(4) by (auto simp: midway_def)
    obtain h1 seen1 where "freeze_fields f vs h seen = Some (h1, seen1)" "advanced h0 (h, seen) (h1, seen1)"
      "\<forall>b. Ref b \<in> set vs \<longrightarrow> is_frozen h0 b \<or> b \<in> set seen1"
      "\<forall>c \<in> set seen1 - set seen. \<exists>b. Ref b \<in> set vs \<and> \<not> is_frozen h0 b \<and> thawed h0 b c"
      using 5(1) [OF True 5(4) _ 5(6)] 5(5) by auto
    moreover from this have "b \<in> set seen \<longrightarrow> b \<in> set seen1" by (blast dest: advanced_seen)
    ultimately show ?thesis using True b by auto
  next
    case False
    then have b0: "\<not> is_frozen h0 b" using 5(4) by (auto simp: midway_def)
    obtain h1 seen1 where one: "deep_freeze f b h seen = Some (h1, seen1)"
      "advanced h0 (h, seen) (h1, seen1)" "b \<in> set seen1" "\<forall>c \<in> set seen1 - set seen. thawed h0 b c"
      using 5(2) [OF False 5(4) _ 5(6)] 5(5) by auto
    have mid: "midway h0 h1 seen1" using one(2) by (simp add: advanced_def)
    have fuel: "card ({..<length h0} - set seen1) < f" using unseen_after [OF one(2)] 5(6) by simp
    obtain h2 seen2 where two: "freeze_fields f vs h1 seen1 = Some (h2, seen2)"
      "advanced h0 (h1, seen1) (h2, seen2)"
      "\<forall>b. Ref b \<in> set vs \<longrightarrow> is_frozen h0 b \<or> b \<in> set seen2"
      "\<forall>c \<in> set seen2 - set seen1. \<exists>b. Ref b \<in> set vs \<and> \<not> is_frozen h0 b \<and> thawed h0 b c"
      using 5(3) [OF False one(1) refl mid _ fuel] 5(5) by auto
    have "set seen1 \<subseteq> set seen2" using two(2) by (auto simp: advanced_def)
    moreover have "\<exists>d. Ref d \<in> set (Ref b # vs) \<and> \<not> is_frozen h0 d \<and> thawed h0 d c"
      if "c \<in> set seen2 - set seen" for c
      using that one(4) two(4) b0 by (cases "c \<in> set seen1") auto
    ultimately show ?thesis
      using advanced_trans [OF one(2) two(2)] False one(1,3) two(1,3) by auto
  qed
qed (auto intro: advanced_refl)

definition example_heap :: heap where
  "example_heap =
     [\<lparr>ho_fields = [Ref 1, Plain, Ref 2], ho_frozen = False\<rparr>,
      \<lparr>ho_fields = [Ref 0, Ref 2], ho_frozen = False\<rparr>,
      \<lparr>ho_fields = [Ref 3], ho_frozen = True\<rparr>,
      \<lparr>ho_fields = [], ho_frozen = False\<rparr>]"

text \<open>C37: Freezing an object returns, also when the objects are circular, changes nothing but the
  frozen marks, and freezes exactly what is reached without passing through an object that was
  frozen before.\<close>

theorem deep_freeze_exact:
  assumes "closed_heap h" and "a < length h"
  shows "\<exists>h1. deep_freeze_all a h = Some h1 \<and> map ho_fields h1 = map ho_fields h \<and>
    (\<forall>b. is_frozen h1 b \<longleftrightarrow> is_frozen h b \<or> thawed h a b)"
proof -
  have "midway h h []" by (simp add: midway_def)
  moreover have "card ({..<length h} - set []) < Suc (length h)" by simp
  ultimately obtain h1 seen1 where run: "deep_freeze (Suc (length h)) a h [] = Some (h1, seen1)"
    and adv: "advanced h (h, []) (h1, seen1)" and a: "a \<in> set seen1" and reach: "\<forall>b \<in> set seen1. thawed h a b"
    using deep_freeze_advances(1) [OF assms(1) _ assms(2)] by (metis Diff_empty empty_set)
  have "b \<in> set seen1" if "thawed h a b" for b
    using that
  proof induction
    case (step b c)
    then show ?case using adv by (auto simp: advanced_def)
  qed (simp add: a)
  moreover have "map ho_fields h1 = map ho_fields h"
  proof (rule nth_equalityI)
    fix i assume i: "i < length (map ho_fields h1)"
    have "fields_of h1 i = fields_of h i" "length h1 = length h" using adv by (simp_all add: advanced_def midway_def)
    with i show "map ho_fields h1 ! i = map ho_fields h ! i"
      by (simp add: fields_of_def)
  qed (use adv in \<open>simp add: advanced_def midway_def\<close>)
  ultimately show ?thesis
    using run adv reach by (auto simp: deep_freeze_all_def advanced_def simp del: deep_freeze.simps)
qed

lemma deep_freeze_exact_witness:
  "\<exists>h1. deep_freeze_all 0 example_heap = Some h1 \<and> is_frozen h1 1 \<and> \<not> is_frozen h1 3"
proof -
  have "closed_heap example_heap" "0 < length example_heap"
    by (simp_all add: closed_heap_def example_heap_def)
  then obtain h1 where h1: "deep_freeze_all 0 example_heap = Some h1"
    "\<forall>b. is_frozen h1 b \<longleftrightarrow> is_frozen example_heap b \<or> thawed example_heap 0 b"
    using deep_freeze_exact by blast
  have "thawed example_heap 0 1"
    by (rule thawed.step [OF thawed.root]) (simp_all add: example_heap_def fields_of_def is_frozen_def)
  moreover have "b \<in> {0, 1}" if "thawed example_heap 0 b" for b
    using that by induction (auto simp: example_heap_def fields_of_def is_frozen_def)
  then have "\<not> thawed example_heap 0 3" by force
  moreover have "\<not> is_frozen example_heap 3" by (simp add: example_heap_def is_frozen_def)
  ultimately show ?thesis using h1 by blast
qed

end
