(* ===== verification/Retry.thy ===== *)
theory Retry
  imports Json Complex_Main
begin

section \<open>playwright-toolkit: bounded retries\<close>

text \<open>
  Models \<open>packages/playwright-toolkit/src/lib/retry.ts\<close> and \<open>setupRetry.ts\<close>. A number is
  \<open>None\<close> when it is not finite. A promise settles after some time, or never (\<open>None\<close>); awaiting it
  moves the time on. The clock the code reads is the parameter \<open>rp_now\<close> of the true time. The
  operation is given its attempt number, which no two attempts share, so it may behave differently
  each time. A race between a promise and a timer that fire at the same time is won by the promise,
  which was created first. A timer fires at its delay; the limits of the runtime (at least one
  millisecond, at most \<open>2 ^ 31 - 1\<close>) are left out. A hook that throws ends the run with its own
  error; one that throws the timeout error of the attempt, which the code would take for its own,
  is left out. The loop need not end: it is a partial function, and that it does end is
  proved under the hypotheses that make it end.
\<close>

type_synonym number = "rat option"

subsection \<open>Modes and promises\<close>

datatype reason = AttemptsExhausted | NonTransient | Timeout

datatype 'e attempt_error = OperationError 'e | AttemptTimeout

record 'e failure_context =
  fc_attempt :: nat
  fc_elapsed :: rat
  fc_aborted :: bool
  fc_error :: "'e attempt_error"

datatype 'e delay =
    NoDelay
  | FixedDelay number
  | DelayOf "'e failure_context \<Rightarrow> 'e + number"

datatype 'e mode =
    Classified number "'e delay" "'e failure_context \<Rightarrow> 'e + bool"
  | Poll number "number list option" "('e failure_context \<Rightarrow> 'e + bool) option"

record ('a, 'e) promise =
  settles_after :: "rat option"
  settled :: "'e + 'a"

record ('a, 'e) retry_params =
  rp_operation :: "nat \<Rightarrow> rat \<Rightarrow> ('a, 'e) promise"
  rp_mode :: "'e mode"
  rp_now :: "rat \<Rightarrow> rat"
  rp_sleep :: "rat \<Rightarrow> (unit, 'e) promise"
  rp_on_failed :: "('e failure_context \<Rightarrow> (unit, 'e) promise) option"

record 'e retry_error =
  re_attempts :: nat
  re_elapsed :: rat
  re_reason :: reason
  re_cause :: "'e attempt_error option"

datatype retry_message =
    BadMaxAttempts | BadDelay | BadTimeout | EmptyIntervals | BadIntervals | BadRetryDelay

text \<open>How a run ends: with a value and the number of attempts, with a \<open>RetryError\<close>, with an error
  thrown by a hook, a sleep, or a function of the mode, with an error about the mode itself, or
  waiting forever for a promise that never settles.\<close>

datatype ('a, 'e) ending =
    Returned 'a nat
  | GaveUp "'e retry_error"
  | Rethrown 'e
  | Refused retry_message
  | Waiting

definition resolved_promise :: "'a \<Rightarrow> ('a, 'e) promise" where
  "resolved_promise v = \<lparr>settles_after = Some 0, settled = Inr v\<rparr>"

definition default_sleep :: "rat \<Rightarrow> (unit, 'e) promise" where
  "default_sleep d = \<lparr>settles_after = Some d, settled = Inr ()\<rparr>"

subsection \<open>Validation\<close>

definition finite_from :: "rat \<Rightarrow> number \<Rightarrow> bool" where
  "finite_from low n = (case n of None \<Rightarrow> False | Some r \<Rightarrow> low \<le> r)"

definition is_integer :: "number \<Rightarrow> bool" where
  "is_integer n = (case n of None \<Rightarrow> False | Some r \<Rightarrow> r = of_int \<lfloor>r\<rfloor>)"

fun validate_retry_mode :: "'e mode \<Rightarrow> retry_message option" where
  "validate_retry_mode (Classified maximum delay transient) =
     (if \<not> is_integer maximum \<or> \<not> finite_from 1 maximum then Some BadMaxAttempts
      else (case delay of
              FixedDelay d \<Rightarrow> if finite_from 0 d then None else Some BadDelay
            | _ \<Rightarrow> None))"
| "validate_retry_mode (Poll timeout intervals transient) =
     (if \<not> finite_from 0 timeout \<or> timeout = Some 0 then Some BadTimeout
      else (case intervals of
              None \<Rightarrow> None
            | Some is \<Rightarrow>
                if length is = 0 then Some EmptyIntervals
                else if list_ex (\<lambda>i. \<not> finite_from 0 i) is then Some BadIntervals
                else None))"

text \<open>The number behind a validated one.\<close>

definition ms :: "number \<Rightarrow> rat" where
  "ms n = (case n of None \<Rightarrow> 0 | Some r \<Rightarrow> r)"

subsection \<open>Waiting within the budget\<close>

datatype ('a, 'e) awaited = Settled "'e + 'a" | TimedOut | Pending

definition settle :: "rat \<Rightarrow> ('a, 'e) promise \<Rightarrow> rat \<times> ('a, 'e) awaited" where
  "settle t p =
     (case settles_after p of None \<Rightarrow> (t, Pending) | Some d \<Rightarrow> (t + max d 0, Settled (settled p)))"

definition run_within_retry_budget ::
  "'e mode \<Rightarrow> rat \<Rightarrow> ('a, 'e) promise \<Rightarrow> rat \<Rightarrow> rat \<times> ('a, 'e) awaited" where
  "run_within_retry_budget mode elapsed p t =
     (case mode of
        Classified maximum delay transient \<Rightarrow> settle t p
      | Poll timeout intervals transient \<Rightarrow>
          let remaining = max (ms timeout - elapsed) 0 in
          (case settles_after p of
             Some d \<Rightarrow> if d \<le> remaining then settle t p else (t + remaining, TimedOut)
           | None \<Rightarrow> (t + remaining, TimedOut)))"

subsection \<open>The end of an attempt\<close>

definition get_terminal_reason :: "'e failure_context \<Rightarrow> 'e mode \<Rightarrow> 'e + reason option" where
  "get_terminal_reason fc mode =
     (case mode of
        Classified maximum delay transient \<Rightarrow>
          (case transient fc of
             Inl e \<Rightarrow> Inl e
           | Inr ok \<Rightarrow>
               Inr (if \<not> ok then Some NonTransient
                    else if ms maximum \<le> of_nat (fc_attempt fc) then Some AttemptsExhausted
                    else None))
      | Poll timeout intervals transient \<Rightarrow>
          if fc_error fc = AttemptTimeout then Inr (Some Timeout)
          else
            (case (case transient of None \<Rightarrow> Inr True | Some f \<Rightarrow> f fc) of
               Inl e \<Rightarrow> Inl e
             | Inr ok \<Rightarrow>
                 Inr (if \<not> ok then Some NonTransient
                      else if ms timeout \<le> fc_elapsed fc then Some Timeout
                      else None)))"

definition default_intervals :: "number list" where
  "default_intervals = [Some 100, Some 250, Some 500, Some 1000]"

definition nth_interval :: "number list \<Rightarrow> nat \<Rightarrow> number" where
  "nth_interval is n =
     (let i = min (n - 1) (length is - 1) in if i < length is then is ! i else Some 0)"

text \<open>\<open>Inl (Inl e)\<close>: the delay function threw \<open>e\<close>; \<open>Inl (Inr m)\<close>: the delay is refused.\<close>

definition get_retry_delay :: "'e failure_context \<Rightarrow> 'e mode \<Rightarrow> ('e + retry_message) + rat" where
  "get_retry_delay fc mode =
     (case (case mode of
              Classified maximum delay transient \<Rightarrow>
                (case delay of
                   NoDelay \<Rightarrow> Inr (Some 0)
                 | FixedDelay d \<Rightarrow> Inr d
                 | DelayOf f \<Rightarrow> f fc)
            | Poll timeout intervals transient \<Rightarrow>
                (let is = (case intervals of None \<Rightarrow> default_intervals | Some is \<Rightarrow> is)
                 in Inr (Some (min (ms (nth_interval is (fc_attempt fc)))
                                   (max (ms timeout - fc_elapsed fc) 0))))) of
        Inl e \<Rightarrow> Inl (Inl e)
      | Inr d \<Rightarrow> if finite_from 0 d then Inr (ms d) else Inl (Inr BadRetryDelay))"

definition get_elapsed :: "('a, 'e) retry_params \<Rightarrow> rat \<Rightarrow> rat \<Rightarrow> rat" where
  "get_elapsed ps start t = max (rp_now ps t - start) 0"

subsection \<open>The loop\<close>

datatype ('a, 'e) round = Over rat "('a, 'e) ending" | Again rat nat "'e attempt_error"

definition gave_up ::
  "('a, 'e) retry_params \<Rightarrow> rat \<Rightarrow> rat \<Rightarrow> nat \<Rightarrow> reason \<Rightarrow> 'e attempt_error option \<Rightarrow> ('a, 'e) round" where
  "gave_up ps start t n r cause =
     Over t (GaveUp \<lparr>re_attempts = n, re_elapsed = get_elapsed ps start t, re_reason = r, re_cause = cause\<rparr>)"

definition pause ::
  "('a, 'e) retry_params \<Rightarrow> rat \<Rightarrow> 'e failure_context \<Rightarrow> rat \<Rightarrow> ('a, 'e) round" where
  "pause ps start fc t =
     (case get_retry_delay fc (rp_mode ps) of
        Inl (Inl e) \<Rightarrow> Over t (Rethrown e)
      | Inl (Inr m) \<Rightarrow> Over t (Refused m)
      | Inr d \<Rightarrow>
          (case run_within_retry_budget (rp_mode ps) (fc_elapsed fc) (rp_sleep ps d) t of
             (t1, Pending) \<Rightarrow> Over t1 Waiting
           | (t1, TimedOut) \<Rightarrow> gave_up ps start t1 (fc_attempt fc) Timeout (Some (fc_error fc))
           | (t1, Settled (Inl e)) \<Rightarrow> Over t1 (Rethrown e)
           | (t1, Settled (Inr _)) \<Rightarrow> Again t1 (fc_attempt fc) (fc_error fc)))"

definition after_failure ::
  "('a, 'e) retry_params \<Rightarrow> rat \<Rightarrow> nat \<Rightarrow> 'e attempt_error \<Rightarrow> rat \<Rightarrow> ('a, 'e) round" where
  "after_failure ps start n err t =
     (let fc = \<lparr>fc_attempt = n, fc_elapsed = get_elapsed ps start t, fc_aborted = (err = AttemptTimeout),
                fc_error = err\<rparr>;
          hook = (case rp_on_failed ps of None \<Rightarrow> resolved_promise () | Some f \<Rightarrow> f fc)
      in case run_within_retry_budget (rp_mode ps) (fc_elapsed fc) hook t of
           (t1, Pending) \<Rightarrow> Over t1 Waiting
         | (t1, TimedOut) \<Rightarrow> gave_up ps start t1 n Timeout (Some err)
         | (t1, Settled (Inl e)) \<Rightarrow> Over t1 (Rethrown e)
         | (t1, Settled (Inr _)) \<Rightarrow>
             let fc1 = fc\<lparr>fc_elapsed := get_elapsed ps start t1\<rparr> in
             (case get_terminal_reason fc1 (rp_mode ps) of
                Inl e \<Rightarrow> Over t1 (Rethrown e)
              | Inr (Some r) \<Rightarrow> gave_up ps start t1 n r (Some err)
              | Inr None \<Rightarrow> pause ps start fc1 t1))"

definition run_attempt ::
  "('a, 'e) retry_params \<Rightarrow> rat \<Rightarrow> rat \<Rightarrow> nat \<Rightarrow> ('a, 'e) round" where
  "run_attempt ps start t n =
     (let elapsed = get_elapsed ps start t in
      case run_within_retry_budget (rp_mode ps) elapsed (rp_operation ps n elapsed) t of
        (t1, Pending) \<Rightarrow> Over t1 Waiting
      | (t1, TimedOut) \<Rightarrow> after_failure ps start n AttemptTimeout t1
      | (t1, Settled (Inl e)) \<Rightarrow> after_failure ps start n (OperationError e) t1
      | (t1, Settled (Inr v)) \<Rightarrow> Over t1 (Returned v n))"

definition retry_round ::
  "('a, 'e) retry_params \<Rightarrow> rat \<Rightarrow> rat \<Rightarrow> nat \<Rightarrow> 'e attempt_error option \<Rightarrow> ('a, 'e) round" where
  "retry_round ps start t n last_error =
     (case rp_mode ps of
        Poll timeout intervals transient \<Rightarrow>
          if n > 0 \<and> ms timeout \<le> get_elapsed ps start t then gave_up ps start t n Timeout last_error
          else run_attempt ps start t (Suc n)
      | Classified maximum delay transient \<Rightarrow> run_attempt ps start t (Suc n))"

partial_function (option) retry_loop ::
  "('a, 'e) retry_params \<Rightarrow> rat \<Rightarrow> rat \<Rightarrow> nat \<Rightarrow> 'e attempt_error option \<Rightarrow> (rat \<times> ('a, 'e) ending) option" where
  "retry_loop ps start t n last_error =
     (case retry_round ps start t n last_error of
        Over t1 e \<Rightarrow> Some (t1, e)
      | Again t1 n1 err \<Rightarrow> retry_loop ps start t1 n1 (Some err))"

declare retry_loop.simps [code]

definition run_with_retry :: "('a, 'e) retry_params \<Rightarrow> rat \<Rightarrow> (rat \<times> ('a, 'e) ending) option" where
  "run_with_retry ps t =
     (case validate_retry_mode (rp_mode ps) of
        Some m \<Rightarrow> Some (t, Refused m)
      | None \<Rightarrow> retry_loop ps (rp_now ps t) t 0 None)"

text \<open>The message of a \<open>RetryError\<close>; how a duration and an error are shown are parameters.\<close>

fun reason_text :: "reason \<Rightarrow> string" where
  "reason_text AttemptsExhausted = ''attempts-exhausted''"
| "reason_text NonTransient = ''non-transient''"
| "reason_text Timeout = ''timeout''"

definition format_retry_error_message ::
  "(rat \<Rightarrow> string) \<Rightarrow> ('e attempt_error option \<Rightarrow> string) \<Rightarrow> string \<Rightarrow> 'e retry_error \<Rightarrow> string" where
  "format_retry_error_message show_ms get_error_message name e =
     name @ '' failed after '' @ show_int (int (re_attempts e)) @ '' '' @
     (if re_attempts e = 1 then ''attempt'' else ''attempts'') @
     '' ('' @ show_ms (re_elapsed e) @ ''ms, reason: '' @ reason_text (re_reason e) @ ''). '' @
     ''Last error: '' @ get_error_message (re_cause e)"

subsection \<open>One round\<close>

lemma settle_time: "settle t p = (t1, a) \<Longrightarrow> t \<le> t1"
  by (auto simp: settle_def split: option.splits)

lemma budget_poll:
  assumes "run_within_retry_budget (Poll timeout is tr) elapsed p t = (t1, a)"
  shows "a \<noteq> Pending \<and> t \<le> t1 \<and> t1 \<le> t + max (ms timeout - elapsed) 0"
  using assms by (auto simp: run_within_retry_budget_def settle_def Let_def split: option.splits if_splits)

text \<open>How many attempts an ending has made.\<close>

fun attempts_made :: "('a, 'e) ending \<Rightarrow> nat option" where
  "attempts_made (Returned v n) = Some n"
| "attempts_made (GaveUp e) = Some (re_attempts e)"
| "attempts_made _ = None"

definition attempts_within :: "nat \<Rightarrow> ('a, 'e) ending \<Rightarrow> bool" where
  "attempts_within k e \<longleftrightarrow> (case attempts_made e of None \<Rightarrow> True | Some n \<Rightarrow> n \<le> k)"

text \<open>A poll against a true clock, with the intervals and the sleep that wait.\<close>

definition steady :: "('a, 'e) retry_params \<Rightarrow> bool" where
  "steady ps \<longleftrightarrow> (\<forall>t. rp_now ps t = t) \<and> (\<forall>d. rp_sleep ps d = default_sleep d)"

definition intervals_from :: "rat \<Rightarrow> number list option \<Rightarrow> bool" where
  "intervals_from low ivs \<longleftrightarrow>
     (case ivs of None \<Rightarrow> low \<le> 100 | Some xs \<Rightarrow> list_all (finite_from low) xs)"

definition polls ::
  "('a, 'e) retry_params \<Rightarrow> number \<Rightarrow> number list option \<Rightarrow> ('e failure_context \<Rightarrow> 'e + bool) option \<Rightarrow> rat \<Rightarrow> bool" where
  "polls ps timeout ivs tr low \<longleftrightarrow>
     rp_mode ps = Poll timeout ivs tr \<and> validate_retry_mode (rp_mode ps) = None \<and> steady ps \<and>
     0 < low \<and> intervals_from low ivs"

lemma pollsD:
  assumes "polls ps timeout ivs tr low"
  shows "rp_mode ps = Poll timeout ivs tr" and "validate_retry_mode (Poll timeout ivs tr) = None"
    and "steady ps" and "0 < low" and "intervals_from low ivs"
  using assms by (auto simp add: polls_def simp del: validate_retry_mode.simps)

lemma elapsed_steady: "steady ps \<Longrightarrow> start \<le> t \<Longrightarrow> get_elapsed ps start t = t - start"
  by (simp add: get_elapsed_def steady_def)

definition deadline :: "number \<Rightarrow> rat \<Rightarrow> rat" where
  "deadline timeout start = start + ms timeout"

lemma budget:
  assumes setting: "polls ps timeout ivs tr low"
    and now: "start \<le> t" "t \<le> deadline timeout start"
    and run: "run_within_retry_budget (rp_mode ps) (get_elapsed ps start t) p t = (t1, a)"
  shows "a \<noteq> Pending \<and> t \<le> t1 \<and> t1 \<le> deadline timeout start"
  using budget_poll [OF run [unfolded pollsD(1) [OF setting]]] now
    elapsed_steady [OF pollsD(3) [OF setting] now(1)]
  by (auto simp: deadline_def)

lemma nth_interval_mem: "xs \<noteq> [] \<Longrightarrow> nth_interval xs n \<in> set xs"
proof -
  assume "xs \<noteq> []"
  then have "min (n - 1) (length xs - 1) < length xs" by (cases xs) auto
  then show ?thesis by (simp add: nth_interval_def Let_def)
qed

lemma interval_low:
  assumes setting: "polls ps timeout ivs tr low"
  shows "low \<le> ms (nth_interval (case ivs of None \<Rightarrow> default_intervals | Some xs \<Rightarrow> xs) n)"
proof -
  let ?xs = "case ivs of None \<Rightarrow> default_intervals | Some xs \<Rightarrow> xs"
  have "list_all (finite_from low) ?xs" "?xs \<noteq> []"
    using pollsD [OF setting]
    by (auto simp: intervals_from_def default_intervals_def finite_from_def split: option.splits if_splits)
  then have "finite_from low (nth_interval ?xs n)"
    using nth_interval_mem [of ?xs n] by (simp add: list_all_iff)
  then show ?thesis by (auto simp: finite_from_def ms_def split: option.splits)
qed

lemma delay_poll:
  assumes setting: "polls ps timeout ivs tr low"
    and now: "start \<le> t" "t \<le> deadline timeout start" "fc_elapsed fc = get_elapsed ps start t"
  shows "\<exists>d. get_retry_delay fc (rp_mode ps) = Inr d \<and> 0 \<le> d \<and>
    (low \<le> d \<or> t + d = deadline timeout start) \<and> t + d \<le> deadline timeout start"
proof -
  let ?i = "ms (nth_interval (case ivs of None \<Rightarrow> default_intervals | Some xs \<Rightarrow> xs) (fc_attempt fc))"
  let ?d = "min ?i (ms timeout - (t - start))"
  have i: "low \<le> ?i" by (rule interval_low [OF setting])
  have d: "0 \<le> ?d" using i pollsD(4) [OF setting] now(2) by (simp add: deadline_def)
  have "get_retry_delay fc (rp_mode ps) = Inr ?d"
    using d now elapsed_steady [OF pollsD(3) [OF setting] now(1)]
    by (simp add: get_retry_delay_def pollsD(1) [OF setting] finite_from_def ms_def [of "Some _"]
        deadline_def Let_def)
  moreover have "low \<le> ?d \<or> t + ?d = deadline timeout start" "t + ?d \<le> deadline timeout start"
    using i by (auto simp: deadline_def min_def)
  ultimately show ?thesis using d by blast
qed

text \<open>A round ends in time, or goes on after an interval or at the deadline.\<close>

definition good_round :: "rat \<Rightarrow> rat \<Rightarrow> nat \<Rightarrow> rat \<Rightarrow> ('a, 'e) round \<Rightarrow> bool" where
  "good_round limit low n t r \<longleftrightarrow>
     (case r of
        Over t1 e \<Rightarrow> t \<le> t1 \<and> t1 \<le> limit \<and> e \<noteq> Waiting \<and> attempts_within n e
      | Again t1 m err \<Rightarrow> m = n \<and> t1 \<le> limit \<and> t \<le> t1 \<and> (t + low \<le> t1 \<or> t1 = limit))"

lemma good_round_earlier:
  "good_round limit low n t1 r \<Longrightarrow> t \<le> t1 \<Longrightarrow> good_round limit low n t r"
  by (auto simp: good_round_def split: round.splits)

lemma good_over:
  "t \<le> limit \<Longrightarrow> e \<noteq> Waiting \<Longrightarrow> attempts_within n e \<Longrightarrow> good_round limit low n t (Over t e)"
  by (simp add: good_round_def)

lemma good_gave_up: "t \<le> limit \<Longrightarrow> good_round limit low n t (gave_up ps start t n r c)"
  by (simp add: gave_up_def good_round_def attempts_within_def)

lemma good_pause:
  assumes setting: "polls ps timeout ivs tr low"
    and now: "start \<le> t" "t \<le> deadline timeout start" "fc_elapsed fc = get_elapsed ps start t"
  shows "good_round (deadline timeout start) low (fc_attempt fc) t (pause ps start fc t)"
proof -
  obtain d where d: "get_retry_delay fc (rp_mode ps) = Inr d" "0 \<le> d"
    "low \<le> d \<or> t + d = deadline timeout start" "t + d \<le> deadline timeout start"
    using delay_poll [OF setting now] by blast
  have "run_within_retry_budget (rp_mode ps) (fc_elapsed fc) (rp_sleep ps d) t = (t + d, Settled (Inr ()))"
    using d now elapsed_steady [OF pollsD(3) [OF setting] now(1)] pollsD(3) [OF setting]
    by (simp add: pollsD(1) [OF setting] run_within_retry_budget_def steady_def default_sleep_def
        settle_def deadline_def Let_def)
  with d show ?thesis by (auto simp: pause_def good_round_def)
qed

lemma good_after_failure:
  assumes setting: "polls ps timeout ivs tr low"
    and now: "start \<le> t" "t \<le> deadline timeout start"
  shows "good_round (deadline timeout start) low n t (after_failure ps start n err t)"
proof -
  let ?fc = "\<lparr>fc_attempt = n, fc_elapsed = get_elapsed ps start t, fc_aborted = (err = AttemptTimeout),
                fc_error = err\<rparr>"
  let ?hook = "case rp_on_failed ps of None \<Rightarrow> resolved_promise () | Some f \<Rightarrow> f ?fc"
  obtain t1 a where run: "run_within_retry_budget (rp_mode ps) (get_elapsed ps start t) ?hook t = (t1, a)"
    by (cases "run_within_retry_budget (rp_mode ps) (get_elapsed ps start t) ?hook t")
  have t1: "a \<noteq> Pending" "t \<le> t1" "t1 \<le> deadline timeout start" using budget [OF setting now run] by auto
  let ?fc1 = "?fc\<lparr>fc_elapsed := get_elapsed ps start t1\<rparr>"
  have pause: "good_round (deadline timeout start) low n t1 (pause ps start ?fc1 t1)"
    using good_pause [OF setting, of start t1 ?fc1] t1 now by simp
  have "good_round (deadline timeout start) low n t1 (after_failure ps start n err t)"
    using t1 run pause
    by (auto simp: after_failure_def Let_def attempts_within_def intro: good_gave_up good_over
        split: awaited.splits sum.splits option.splits)
  then show ?thesis by (rule good_round_earlier) (rule t1(2))
qed

lemma good_attempt:
  assumes setting: "polls ps timeout ivs tr low"
    and now: "start \<le> t" "t \<le> deadline timeout start"
  shows "good_round (deadline timeout start) low n t (run_attempt ps start t n)"
proof -
  let ?op = "rp_operation ps n (get_elapsed ps start t)"
  obtain t1 a where run: "run_within_retry_budget (rp_mode ps) (get_elapsed ps start t) ?op t = (t1, a)"
    by (cases "run_within_retry_budget (rp_mode ps) (get_elapsed ps start t) ?op t")
  have t1: "a \<noteq> Pending" "t \<le> t1" "t1 \<le> deadline timeout start" using budget [OF setting now run] by auto
  have "good_round (deadline timeout start) low n t1 (run_attempt ps start t n)"
    using t1 run now good_after_failure [OF setting, of start t1 n]
    by (auto simp: run_attempt_def Let_def attempts_within_def intro: good_over
        split: awaited.splits sum.splits)
  then show ?thesis by (rule good_round_earlier) (rule t1(2))
qed

lemma retry_round_poll:
  assumes setting: "polls ps timeout ivs tr low" and now: "start \<le> t"
  shows "retry_round ps start t n le =
    (if n > 0 \<and> deadline timeout start \<le> t then gave_up ps start t n Timeout le
     else run_attempt ps start t (Suc n))"
  using elapsed_steady [OF pollsD(3) [OF setting] now]
  by (auto simp: retry_round_def pollsD(1) [OF setting] deadline_def)

lemma loop_returns:
  assumes setting: "polls ps timeout ivs tr low"
    and "start \<le> t" "t \<le> deadline timeout start" "deadline timeout start - t \<le> of_nat k * low" "0 < n \<or> 0 < k"
  shows "\<exists>t1 e. retry_loop ps start t n le = Some (t1, e) \<and> t1 \<le> deadline timeout start \<and> e \<noteq> Waiting \<and>
    attempts_within (n + k) e"
  using assms(2-)
proof (induction k arbitrary: t n le)
  case 0
  then have "t = deadline timeout start" "0 < n" by simp_all
  with 0 show ?case
    by (subst retry_loop.simps)
      (simp add: retry_round_poll [OF setting] gave_up_def attempts_within_def)
next
  case (Suc k)
  show ?case
  proof (cases "retry_round ps start t n le")
    case (Over t1 e)
    have "t1 \<le> deadline timeout start \<and> e \<noteq> Waiting \<and> attempts_within (n + Suc k) e"
      using Over good_attempt [OF setting Suc.prems(1,2), of "Suc n"] Suc.prems
      by (auto simp: retry_round_poll [OF setting] gave_up_def good_round_def attempts_within_def
          split: if_splits option.splits)
    then show ?thesis by (subst (1) retry_loop.simps) (simp add: Over)
  next
    case (Again t1 m err)
    then have again: "m = Suc n" "t1 \<le> deadline timeout start" "t \<le> t1"
      "t + low \<le> t1 \<or> t1 = deadline timeout start"
      using good_attempt [OF setting Suc.prems(1,2), of "Suc n"] Suc.prems(1)
      by (auto simp: retry_round_poll [OF setting] gave_up_def good_round_def split: if_splits)
    have "deadline timeout start - t1 \<le> of_nat k * low"
      using again(4) Suc.prems(3) pollsD(4) [OF setting] by (auto simp: algebra_simps)
    then obtain t2 e where "retry_loop ps start t1 m (Some err) = Some (t2, e)" "t2 \<le> deadline timeout start"
      "e \<noteq> Waiting" "attempts_within (m + k) e"
      using Suc.IH [of t1 m "Some err"] again Suc.prems(1) by auto
    with again show ?thesis by (subst (1) retry_loop.simps) (auto simp: Again)
  qed
qed

text \<open>C14: A poll always ends, whatever its operation and its hooks do, even when they never settle:
  with a true clock it ends by its deadline, and it makes no more attempts than there are
  shortest intervals in its timeout.\<close>

theorem poll_ends_in_time:
  assumes "polls ps timeout ivs tr low"
  shows "\<exists>t1 e. run_with_retry ps t = Some (t1, e) \<and> t1 \<le> t + ms timeout \<and> e \<noteq> Waiting \<and>
    attempts_within (nat \<lceil>ms timeout / low\<rceil>) e"
proof -
  let ?k = "nat \<lceil>ms timeout / low\<rceil>"
  have now: "rp_now ps t = t" using pollsD(3) [OF assms] by (simp add: steady_def)
  have timeout: "0 < ms timeout"
    using pollsD(2) [OF assms]
    by (auto simp: finite_from_def ms_def order.order_iff_strict split: if_splits option.splits)
  then have "0 < ms timeout / low" using pollsD(4) [OF assms] by simp
  then have k: "0 < ?k" "ms timeout / low \<le> of_nat ?k" by (simp_all add: of_nat_ceiling)
  have "ms timeout \<le> of_nat ?k * low"
    using k(2) pollsD(4) [OF assms] by (simp add: pos_divide_le_eq)
  with loop_returns [OF assms, of t t ?k 0 None] timeout k(1) show ?thesis
    by (simp add: run_with_retry_def pollsD(1,2) [OF assms] now deadline_def
        del: validate_retry_mode.simps)
qed

text \<open>A readiness probe that never settles the first time and is ready at its third attempt.\<close>

definition example_probe :: "(string, string) retry_params" where
  "example_probe =
     \<lparr>rp_operation = (\<lambda>n elapsed. \<lparr>settles_after = Some 5,
        settled = (if n < 3 then Inl ''not ready'' else Inr ''ready'')\<rparr>),
      rp_mode = Poll (Some 1000) None None, rp_now = (\<lambda>t. t), rp_sleep = default_sleep,
      rp_on_failed = None\<rparr>"

lemma poll_ends_in_time_witness:
  "\<exists>t1 e. run_with_retry example_probe 7 = Some (t1, e) \<and> t1 \<le> 1007 \<and> attempts_within 10 e"
proof -
  have "polls example_probe (Some 1000) None None 100"
    by (simp add: polls_def example_probe_def steady_def intervals_from_def finite_from_def)
  from poll_ends_in_time [OF this, of 7] show ?thesis by (auto simp: ms_def)
qed

subsection \<open>Classified retries\<close>

definition settles :: "('a, 'e) promise \<Rightarrow> bool" where
  "settles p \<longleftrightarrow> settles_after p \<noteq> None"

definition all_settle :: "('a, 'e) retry_params \<Rightarrow> bool" where
  "all_settle ps \<longleftrightarrow>
     (\<forall>n el. settles (rp_operation ps n el)) \<and> (\<forall>d. settles (rp_sleep ps d)) \<and>
     (case rp_on_failed ps of None \<Rightarrow> True | Some f \<Rightarrow> (\<forall>fc. settles (f fc)))"

text \<open>What each ending of a classified run says.\<close>

definition classified_ending ::
  "('a, 'e) retry_params \<Rightarrow> ('e failure_context \<Rightarrow> 'e + bool) \<Rightarrow> nat \<Rightarrow> ('a, 'e) ending \<Rightarrow> bool" where
  "classified_ending ps tr limit e \<longleftrightarrow>
     (case e of
        Returned v n \<Rightarrow> 1 \<le> n \<and> n \<le> limit \<and> (\<exists>el. settled (rp_operation ps n el) = Inr v)
      | GaveUp r \<Rightarrow>
          (\<exists>el err. re_cause r = Some (OperationError err) \<and>
             settled (rp_operation ps (re_attempts r) el) = Inl err) \<and>
          (case re_reason r of
             AttemptsExhausted \<Rightarrow> re_attempts r = limit
           | NonTransient \<Rightarrow> re_attempts r \<le> limit \<and>
               (\<exists>fc. fc_attempt fc = re_attempts r \<and> re_cause r = Some (fc_error fc) \<and> tr fc = Inr False)
           | Timeout \<Rightarrow> False)
      | Rethrown err \<Rightarrow> True
      | Refused m \<Rightarrow> m = BadRetryDelay
      | Waiting \<Rightarrow> False)"

lemma settle_settled: "settles p \<Longrightarrow> \<exists>t1. settle t p = (t1, Settled (settled p))"
  by (auto simp: settles_def settle_def)

lemma budget_classified:
  "settles p \<Longrightarrow> \<exists>t1. run_within_retry_budget (Classified m d tr) el p t = (t1, Settled (settled p))"
  by (simp add: run_within_retry_budget_def settle_settled)

definition classified_round ::
  "('a, 'e) retry_params \<Rightarrow> ('e failure_context \<Rightarrow> 'e + bool) \<Rightarrow> nat \<Rightarrow> nat \<Rightarrow> ('a, 'e) round \<Rightarrow> bool" where
  "classified_round ps tr limit n r \<longleftrightarrow>
     (case r of Over t e \<Rightarrow> classified_ending ps tr limit e | Again t m err \<Rightarrow> m = n \<and> n < limit)"

lemma classified_pause:
  assumes "rp_mode ps = Classified maximum delay tr" and "all_settle ps" and "fc_attempt fc < limit"
  shows "classified_round ps tr limit (fc_attempt fc) (pause ps start fc t)"
proof (cases "get_retry_delay fc (rp_mode ps)")
  case (Inl e)
  have "m = BadRetryDelay" if "e = Inr m" for m
    using Inl that by (auto simp: get_retry_delay_def split: mode.splits delay.splits sum.splits if_splits)
  with Inl show ?thesis
    by (auto simp: pause_def classified_round_def classified_ending_def split: sum.splits)
next
  case (Inr d)
  have "settles (rp_sleep ps d)" using assms(2) by (simp add: all_settle_def)
  then obtain t1 where "run_within_retry_budget (rp_mode ps) (fc_elapsed fc) (rp_sleep ps d) t =
      (t1, Settled (settled (rp_sleep ps d)))"
    using budget_classified assms(1) by metis
  with Inr assms(3) show ?thesis
    by (auto simp: pause_def classified_round_def classified_ending_def split: sum.splits)
qed

lemma classified_after_failure:
  assumes mode: "rp_mode ps = Classified maximum delay tr" and all: "all_settle ps"
    and limit: "ms maximum = of_nat limit" and n: "n \<le> limit"
    and op: "settled (rp_operation ps n el) = Inl err"
  shows "classified_round ps tr limit n (after_failure ps start n (OperationError err) t)"
proof -
  let ?fc = "\<lparr>fc_attempt = n, fc_elapsed = get_elapsed ps start t, fc_aborted = False,
                fc_error = OperationError err\<rparr>"
  let ?hook = "case rp_on_failed ps of None \<Rightarrow> resolved_promise () | Some f \<Rightarrow> f ?fc"
  have "settles ?hook" using all by (auto simp: all_settle_def settles_def resolved_promise_def split: option.splits)
  then obtain t1 where hook: "run_within_retry_budget (rp_mode ps) (get_elapsed ps start t) ?hook t =
      (t1, Settled (settled ?hook))"
    using budget_classified mode by metis
  let ?fc1 = "?fc\<lparr>fc_elapsed := get_elapsed ps start t1\<rparr>"
  have gave: "classified_round ps tr limit n (gave_up ps start t1 n r (Some (OperationError err)))"
    if "get_terminal_reason ?fc1 (rp_mode ps) = Inr (Some r)" for r
    using that op limit n
    by (auto simp: mode get_terminal_reason_def gave_up_def classified_round_def classified_ending_def
        split: sum.splits if_splits intro!: exI [of _ ?fc1])
  have "n < limit" if "get_terminal_reason ?fc1 (rp_mode ps) = Inr None"
    using that limit by (auto simp: mode get_terminal_reason_def split: sum.splits if_splits)
  then have again: "classified_round ps tr limit n (pause ps start ?fc1 t1)"
    if "get_terminal_reason ?fc1 (rp_mode ps) = Inr None"
    using that classified_pause [OF mode all, of ?fc1 limit start t1] by simp
  show ?thesis
    using hook gave again
    by (auto simp: after_failure_def Let_def classified_round_def classified_ending_def
        split: sum.splits option.splits)
qed

lemma classified_attempt:
  assumes mode: "rp_mode ps = Classified maximum delay tr" and all: "all_settle ps"
    and limit: "ms maximum = of_nat limit" and n: "1 \<le> n" "n \<le> limit"
  shows "classified_round ps tr limit n (run_attempt ps start t n)"
proof -
  let ?el = "get_elapsed ps start t"
  have "settles (rp_operation ps n ?el)" using all by (simp add: all_settle_def)
  then obtain t1 where run: "run_within_retry_budget (rp_mode ps) ?el (rp_operation ps n ?el) t =
      (t1, Settled (settled (rp_operation ps n ?el)))"
    using budget_classified mode by metis
  show ?thesis
  proof (cases "settled (rp_operation ps n ?el)")
    case (Inl err)
    with run classified_after_failure [OF mode all limit n(2) Inl] show ?thesis
      by (simp add: run_attempt_def Let_def)
  next
    case (Inr v)
    with run n show ?thesis
      by (auto simp: run_attempt_def Let_def classified_round_def classified_ending_def)
  qed
qed

lemma classified_loop:
  assumes mode: "rp_mode ps = Classified maximum delay tr" and all: "all_settle ps"
    and limit: "ms maximum = of_nat limit" and n: "n < limit"
  shows "\<exists>t1 e. retry_loop ps start t n le = Some (t1, e) \<and> classified_ending ps tr limit e"
  using n
proof (induction "limit - n" arbitrary: t n le)
  case (Suc k)
  have round: "classified_round ps tr limit (Suc n) (retry_round ps start t n le)"
    using classified_attempt [OF mode all limit, of "Suc n"] Suc.prems by (simp add: retry_round_def mode)
  show ?case
  proof (cases "retry_round ps start t n le")
    case (Over t1 e)
    with round show ?thesis by (subst (1) retry_loop.simps) (simp add: classified_round_def)
  next
    case (Again t1 m err)
    with round have m: "m = Suc n" "Suc n < limit" by (auto simp: classified_round_def)
    have "k = limit - m" using Suc.hyps(2) m by simp
    from Suc.hyps(1) [OF this, of t1 "Some err"] m obtain t2 e where
      "retry_loop ps start t1 m (Some err) = Some (t2, e)" "classified_ending ps tr limit e" by auto
    with Again show ?thesis by (subst (1) retry_loop.simps) simp
  qed
qed simp

text \<open>C36: A classified retry whose promises settle always ends, with at most the attempts it was
  given: with the value of the attempt that succeeded; or giving up with the error of its last
  attempt, after all attempts or at one judged not transient, and never for a timeout; or with an
  error of a hook, a sleep or the caller's functions.\<close>

theorem classified_retry_ends:
  assumes "rp_mode ps = Classified (Some (of_nat limit)) delay tr"
    and "validate_retry_mode (rp_mode ps) = None" and "all_settle ps"
  shows "\<exists>t1 e. run_with_retry ps t = Some (t1, e) \<and> classified_ending ps tr limit e"
proof -
  have "0 < limit"
    using assms(1,2) by (cases limit) (auto simp: finite_from_def is_integer_def split: if_splits)
  with assms classified_loop [OF assms(1,3), of limit 0] show ?thesis
    by (simp add: run_with_retry_def ms_def del: validate_retry_mode.simps)
qed

definition example_upload :: "(string, string) retry_params" where
  "example_upload = example_probe
     \<lparr>rp_mode := Classified (Some (of_nat 2)) (FixedDelay (Some 10)) (\<lambda>fc. Inr (fc_error fc \<noteq> OperationError ''denied''))\<rparr>"

lemma classified_retry_ends_witness:
  "\<exists>t1 e. run_with_retry example_upload 0 = Some (t1, e) \<and> e \<noteq> Waiting"
proof -
  let ?tr = "\<lambda>fc :: string failure_context. Inr (fc_error fc \<noteq> OperationError ''denied'')"
  have "rp_mode example_upload = Classified (Some (of_nat 2)) (FixedDelay (Some 10)) ?tr"
    by (simp add: example_upload_def)
  moreover have "validate_retry_mode (rp_mode example_upload) = None"
    by (simp add: example_upload_def is_integer_def finite_from_def)
  moreover have "all_settle example_upload"
    by (simp add: example_upload_def example_probe_def all_settle_def settles_def default_sleep_def)
  ultimately obtain t1 e where "run_with_retry example_upload 0 = Some (t1, e)"
    "classified_ending example_upload ?tr 2 e"
    using classified_retry_ends [of example_upload 2 "FixedDelay (Some 10)" ?tr 0] by metis
  then show ?thesis by (auto simp: classified_ending_def)
qed

subsection \<open>Retries of a test's setup\<close>

datatype setup_classification = Deterministic | IdentityCollision | Transient
datatype setup_decision = DoNotRetry | RegenerateIdentity | RetrySameIdentity

definition is_record :: "js \<Rightarrow> bool" where
  "is_record v = (case v of JObj ps \<Rightarrow> True | JDate d \<Rightarrow> True | JError m ps \<Rightarrow> True | _ \<Rightarrow> False)"

definition own_property :: "js \<Rightarrow> string \<Rightarrow> js" where
  "own_property v k =
     (case (case v of JObj ps \<Rightarrow> map_get ps k | JError m ps \<Rightarrow> map_get ps k | _ \<Rightarrow> None) of
        None \<Rightarrow> JUndefined | Some x \<Rightarrow> x)"

definition number_of :: "js \<Rightarrow> js option" where
  "number_of v = (case v of JInt n \<Rightarrow> Some v | JReal s \<Rightarrow> Some v | _ \<Rightarrow> None)"

definition get_http_error_status :: "js \<Rightarrow> js option" where
  "get_http_error_status err =
     (if \<not> is_record err then None
      else (case number_of (own_property err ''status'') of
              Some n \<Rightarrow> Some n
            | None \<Rightarrow>
                let response = own_property err ''response'' in
                if is_record response then number_of (own_property response ''status'') else None))"

text \<open>\<open>low <= n && n <= high\<close> for a number known by its text.\<close>

definition text_between :: "int \<Rightarrow> int \<Rightarrow> string \<Rightarrow> bool" where
  "text_between low high s =
     (case to_number s of
        Finite m e \<Rightarrow>
          if 0 \<le> e then low \<le> m * 2 ^ nat e \<and> m * 2 ^ nat e \<le> high
          else low * 2 ^ nat (- e) \<le> m \<and> m \<le> high * 2 ^ nat (- e)
      | _ \<Rightarrow> False)"

definition is_retryable_http_status :: "js option \<Rightarrow> bool" where
  "is_retryable_http_status status =
     (case status of
        Some (JInt n) \<Rightarrow> n = 408 \<or> n = 429 \<or> 500 \<le> n \<and> n \<le> 599
      | Some (JReal s) \<Rightarrow> text_between 500 599 s
      | _ \<Rightarrow> False)"

definition classify_setup_retry ::
  "(js \<Rightarrow> js option \<Rightarrow> bool) option \<Rightarrow> (js \<Rightarrow> js option \<Rightarrow> bool) option \<Rightarrow> js \<Rightarrow>
   setup_classification \<times> setup_decision" where
  "classify_setup_retry is_collision is_transient err =
     (let status = get_http_error_status err in
      if (case is_collision of None \<Rightarrow> False | Some f \<Rightarrow> f err status) then (IdentityCollision, RegenerateIdentity)
      else if is_retryable_http_status status \<or>
              (case is_transient of None \<Rightarrow> False | Some f \<Rightarrow> f err status)
      then (Transient, RetrySameIdentity)
      else (Deterministic, DoNotRetry))"

end
