(* ===== verification/AdminAuthToken.thy ===== *)
theory AdminAuthToken
  imports Retry NotificationRequest NodePath
begin

section \<open>playwright-toolkit: the admin token cache\<close>

text \<open>
  Models \<open>packages/playwright-toolkit/src/lib/adminAuthToken.ts\<close> but for the lock file, which is
  in \<open>AdminAuthLock\<close>. The state is the cache file of one identity, the number of times the clock
  has been read and the events emitted. The clock gives any value at each reading. What the callers
  supply (creating and validating a token) is asked with the number of readings so far, so it may
  answer differently each time. Waiting for the lock ends with a timeout or with the cache file as
  other processes left it. SHA-256 and the decoding of base64url are parameters. Times are whole
  milliseconds; an expiry that is none is rounded up, which changes no comparison with a clock of
  whole milliseconds. File system errors other than a missing file are not modelled.
\<close>

subsection \<open>Parameters\<close>

record cache_identity =
  ci_namespace :: string
  ci_token_kind :: string
  ci_audience :: "string option"
  ci_client_name :: "string option"
  ci_issuer :: "string option"

datatype force_refresh = NoRefresh | Refresh | RefreshRejected string

datatype validation = Accepted | Rejected | ValidationFails string | NoAnswer

text \<open>An amount is \<open>None\<close> when it is not a finite number.\<close>

type_synonym amount = "int option"

record auth_params =
  ap_admin_email :: string
  ap_environment_name :: string
  ap_identity :: "cache_identity option"
  ap_cache_directory :: "string option"
  ap_lock_stale_after :: "int option"
  ap_cache_duration :: amount
  ap_create_token :: "nat \<Rightarrow> string + string"
  ap_force_refresh :: force_refresh
  ap_skew :: "amount option"
  ap_policy :: "string option"
  ap_validation_timeout :: "amount option"
  ap_validate_token :: "(nat \<Rightarrow> string \<Rightarrow> validation) option"

record auth_env =
  ae_sha :: "string \<Rightarrow> string"
  ae_base64url :: "string \<Rightarrow> string"
  ae_tmpdir :: string
  ae_now :: "nat \<Rightarrow> int"

record auth_world =
  aw_file :: "string option"
  aw_reads :: nat
  aw_events :: "js_object list"

record token_entry =
  ce_token :: string
  ce_expires :: int

definition bearer_prefix :: string where "bearer_prefix = ''Bearer ''"

definition is_valid_bearer_token :: "string \<Rightarrow> bool" where
  "is_valid_bearer_token t \<longleftrightarrow>
     t = trim t \<and> starts_with t bearer_prefix \<and> length t > length bearer_prefix"

definition validate_cache_location :: "auth_params \<Rightarrow> string option" where
  "validate_cache_location ap =
     (if trim (ap_admin_email ap) = [] then Some ''adminEmail must not be empty''
      else if trim (ap_environment_name ap) = [] then Some ''apiEnvironmentName must not be empty''
      else if (case ap_identity ap of None \<Rightarrow> False | Some i \<Rightarrow> trim (ci_namespace i) = [])
      then Some ''cacheIdentity.namespace must not be empty''
      else if (case ap_identity ap of None \<Rightarrow> False | Some i \<Rightarrow> trim (ci_token_kind i) = [])
      then Some ''cacheIdentity.tokenKind must not be empty''
      else None)"

definition amount_at_least :: "int \<Rightarrow> amount \<Rightarrow> bool" where
  "amount_at_least low a = (case a of None \<Rightarrow> False | Some n \<Rightarrow> low \<le> n)"

definition validate_params :: "auth_params \<Rightarrow> string option" where
  "validate_params ap =
     (case validate_cache_location ap of
        Some e \<Rightarrow> Some e
      | None \<Rightarrow>
          if \<not> amount_at_least 1 (ap_cache_duration ap) then Some ''cacheDurationMs must be positive''
          else if (case ap_skew ap of None \<Rightarrow> False | Some s \<Rightarrow> \<not> amount_at_least 0 s)
          then Some ''jwtExpirationSafetySkewMs must be finite and non-negative''
          else if ap_validate_token ap \<noteq> None \<and>
            (case ap_policy ap of None \<Rightarrow> True | Some p \<Rightarrow> trim p = [])
          then Some ''validationPolicy must be provided when validateToken is configured''
          else if (case ap_validation_timeout ap of None \<Rightarrow> False | Some t \<Rightarrow> \<not> amount_at_least 1 t)
          then Some ''validationTimeoutMs must be positive''
          else (case ap_force_refresh ap of
                  RefreshRejected t \<Rightarrow>
                    if is_valid_bearer_token t then None
                    else Some ''forceRefresh.rejectedAuthToken must be a valid bearer token''
                | _ \<Rightarrow> None))"

definition is_force_refresh_requested :: "auth_params \<Rightarrow> bool" where
  "is_force_refresh_requested ap \<longleftrightarrow> ap_force_refresh ap \<noteq> NoRefresh"

definition skew_of :: "auth_params \<Rightarrow> int" where
  "skew_of ap = (case ap_skew ap of Some (Some s) \<Rightarrow> s | _ \<Rightarrow> 60000)"

subsection \<open>Fingerprints and paths\<close>

definition fingerprint :: "auth_env \<Rightarrow> string \<Rightarrow> string" where
  "fingerprint env s = take 16 (ae_sha env s)"

definition get_validation_policy_fingerprint :: "auth_env \<Rightarrow> auth_params \<Rightarrow> string option" where
  "get_validation_policy_fingerprint env ap =
     (if ap_validate_token ap \<noteq> None then map_option (fingerprint env) (ap_policy ap) else None)"

definition get_validation_timeout :: "auth_params \<Rightarrow> int" where
  "get_validation_timeout ap =
     min (case ap_validation_timeout ap of Some (Some t) \<Rightarrow> t | _ \<Rightarrow> 30000)
       (max 1 ((case ap_lock_stale_after ap of None \<Rightarrow> 300000 | Some s \<Rightarrow> s) div 2))"

definition text_or_undefined :: "string option \<Rightarrow> js" where
  "text_or_undefined s = (case s of None \<Rightarrow> JUndefined | Some t \<Rightarrow> JStr t)"

definition is_file_name_char :: "char \<Rightarrow> bool" where
  "is_file_name_char c \<longleftrightarrow>
     is_digit c \<or> 65 \<le> code c \<and> code c \<le> 90 \<or> 97 \<le> code c \<and> code c \<le> 122 \<or> c \<in> set ''._-''"

definition cache_key_fingerprint :: "auth_env \<Rightarrow> auth_params \<Rightarrow> string" where
  "cache_key_fingerprint env ap =
     fingerprint env (case stringify (JObj
       [(''adminEmail'', JStr (ap_admin_email ap)), (''apiEnvironmentName'', JStr (ap_environment_name ap)),
        (''cacheIdentity'', case ap_identity ap of
             None \<Rightarrow> JUndefined
           | Some i \<Rightarrow> JObj
               [(''namespace'', JStr (ci_namespace i)), (''tokenKind'', JStr (ci_token_kind i)),
                (''audience'', text_or_undefined (ci_audience i)),
                (''clientName'', text_or_undefined (ci_client_name i)),
                (''issuer'', text_or_undefined (ci_issuer i))])]) of None \<Rightarrow> [] | Some s \<Rightarrow> s)"

definition cache_file_path :: "auth_env \<Rightarrow> auth_params \<Rightarrow> path" where
  "cache_file_path env ap =
     path_join
       [case ap_cache_directory ap of
          None \<Rightarrow> path_join [ae_tmpdir env, ''clipboard-health-playwright-admin-auth''] | Some d \<Rightarrow> d,
        ''admin-auth-token-'' @
        map (\<lambda>c. if is_file_name_char c then c else CHR ''_'') (ap_environment_name ap) @ ''-'' @
        cache_key_fingerprint env ap @ ''.json'']"

subsection \<open>Expiry\<close>

definition is_finite_number :: "js \<Rightarrow> bool" where
  "is_finite_number v =
     (case v of
        JInt n \<Rightarrow> True
      | JReal s \<Rightarrow> (case to_number s of Finite m e \<Rightarrow> True | _ \<Rightarrow> False)
      | _ \<Rightarrow> False)"

text \<open>A number times \<open>k\<close>, rounded up.\<close>

definition times_up :: "int \<Rightarrow> js \<Rightarrow> int" where
  "times_up k v =
     (case v of
        JInt n \<Rightarrow> n * k
      | JReal s \<Rightarrow>
          (case to_number s of
             Finite m e \<Rightarrow> if 0 \<le> e then m * k * 2 ^ nat e else - ((- (m * k)) div 2 ^ nat (- e))
           | _ \<Rightarrow> 0)
      | _ \<Rightarrow> 0)"

definition get_jwt_expiration :: "auth_env \<Rightarrow> string \<Rightarrow> int option" where
  "get_jwt_expiration env token =
     (let segments = split_char CHR ''.'' (drop (length bearer_prefix) token) in
      if length segments \<noteq> 3 then None
      else (case parse_json (ae_base64url env (segments ! 1)) of
              Some (JObj ps) \<Rightarrow>
                if is_finite_number (property ps ''exp'') then Some (times_up 1000 (property ps ''exp''))
                else None
            | _ \<Rightarrow> None))"

definition get_expiration :: "auth_env \<Rightarrow> string \<Rightarrow> int \<Rightarrow> int \<Rightarrow> int \<Rightarrow> int" where
  "get_expiration env token duration skew now =
     (case get_jwt_expiration env token of
        None \<Rightarrow> now + duration
      | Some x \<Rightarrow> min (now + duration) (x - skew))"

definition is_expired :: "int \<Rightarrow> int \<Rightarrow> bool" where
  "is_expired expires now \<longleftrightarrow> now \<ge> expires"

subsection \<open>The cache file\<close>

definition number_or_nil :: "js \<Rightarrow> bool" where
  "number_or_nil v \<longleftrightarrow> v = JNull \<or> v = JUndefined \<or> is_finite_number v"

definition is_stored_cache_entry :: "js_object \<Rightarrow> bool" where
  "is_stored_cache_entry ps \<longleftrightarrow>
     (case property ps ''authToken'' of JStr t \<Rightarrow> is_valid_bearer_token t | _ \<Rightarrow> False) \<and>
     is_finite_number (property ps ''expiresAtMs'') \<and>
     number_or_nil (property ps ''mintedAtMs'') \<and> number_or_nil (property ps ''validatedAtMs'') \<and>
     (case property ps ''validationPolicyFingerprint'' of
        JNull \<Rightarrow> True | JUndefined \<Rightarrow> True | JStr s \<Rightarrow> True | _ \<Rightarrow> False)"

definition token_of :: "js_object \<Rightarrow> string" where
  "token_of e = string_value (property e ''authToken'')"

definition expires_of :: "js_object \<Rightarrow> int" where
  "expires_of e = times_up 1 (property e ''expiresAtMs'')"

definition policy_of :: "js_object \<Rightarrow> js" where
  "policy_of e = property e ''validationPolicyFingerprint''"

definition read_clock :: "auth_env \<Rightarrow> auth_world \<Rightarrow> auth_world \<times> int" where
  "read_clock env w = (w\<lparr>aw_reads := Suc (aw_reads w)\<rparr>, ae_now env (aw_reads w))"

definition stored_object :: "string option \<Rightarrow> js_object option" where
  "stored_object text =
     (case text of
        None \<Rightarrow> None
      | Some t \<Rightarrow>
          (case parse_json t of
             Some (JObj ps) \<Rightarrow> if is_stored_cache_entry ps then Some ps else None
           | _ \<Rightarrow> None))"

definition read_cached_entry :: "auth_env \<Rightarrow> int \<Rightarrow> auth_world \<Rightarrow> auth_world \<times> js_object option" where
  "read_cached_entry env skew w =
     (case stored_object (aw_file w) of
        None \<Rightarrow> (w, None)
      | Some ps \<Rightarrow>
          (case read_clock env w of
             (w1, now) \<Rightarrow>
               let expires = get_expiration env (token_of ps) (expires_of ps - now) skew now in
               if now \<ge> expires then (w1, None)
               else (w1, Some (spread ps [(''expiresAtMs'', JInt (min (expires_of ps) expires))]))))"

definition write_cached_entry :: "js_object \<Rightarrow> auth_world \<Rightarrow> auth_world" where
  "write_cached_entry e w = w\<lparr>aw_file := stringify (JObj e)\<rparr>"

definition remove_cached_entry :: "auth_world \<Rightarrow> auth_world" where
  "remove_cached_entry w = w\<lparr>aw_file := None\<rparr>"

definition get_public_cache_entry :: "js_object \<Rightarrow> token_entry" where
  "get_public_cache_entry e = \<lparr>ce_token = token_of e, ce_expires = expires_of e\<rparr>"

subsection \<open>Events\<close>

definition get_credential_event_metadata :: "auth_env \<Rightarrow> js_object option \<Rightarrow> js_object" where
  "get_credential_event_metadata env e =
     (case e of
        None \<Rightarrow> []
      | Some ps \<Rightarrow>
          [(''credentialFingerprint'', JStr (fingerprint env (token_of ps))),
           (''mintedAtMs'', property ps ''mintedAtMs'')])"

definition int_or_undefined :: "int option \<Rightarrow> js" where
  "int_or_undefined n = (case n of None \<Rightarrow> JUndefined | Some i \<Rightarrow> JInt i)"

definition expiry_fields :: "auth_env \<Rightarrow> js_object \<Rightarrow> js_object" where
  "expiry_fields env e =
     [(''expiresAtMs'', JInt (expires_of e)),
      (''jwtExpiresAtMs'', int_or_undefined (get_jwt_expiration env (token_of e)))]"

definition validation_fields :: "js_object \<Rightarrow> js_object" where
  "validation_fields e =
     [(''validatedAtMs'', property e ''validatedAtMs''), (''validationPolicyFingerprint'', policy_of e)]"

definition emit_cache_event :: "auth_env \<Rightarrow> auth_params \<Rightarrow> string \<Rightarrow> js_object \<Rightarrow> auth_world \<Rightarrow> auth_world" where
  "emit_cache_event env ap kind extra w =
     w\<lparr>aw_events := aw_events w @ [(''kind'', JStr kind) # extra @
       [(''audience'', case ap_identity ap of None \<Rightarrow> JUndefined | Some i \<Rightarrow> text_or_undefined (ci_audience i)),
        (''cacheKeyFingerprint'', JStr (cache_key_fingerprint env ap))]]\<rparr>"

definition emit_hit :: "auth_env \<Rightarrow> auth_params \<Rightarrow> js_object \<Rightarrow> auth_world \<Rightarrow> auth_world" where
  "emit_hit env ap e =
     emit_cache_event env ap ''hit''
       (get_credential_event_metadata env (Some e) @ expiry_fields env e @ validation_fields e)"

subsection \<open>Under the lock\<close>

definition validate_admin_auth_token :: "auth_params \<Rightarrow> string \<Rightarrow> auth_world \<Rightarrow> string + bool" where
  "validate_admin_auth_token ap token w =
     (case ap_validate_token ap of
        None \<Rightarrow> Inr True
      | Some f \<Rightarrow>
          (case f (aw_reads w) token of
             Accepted \<Rightarrow> Inr True
           | Rejected \<Rightarrow> Inr False
           | ValidationFails e \<Rightarrow> Inl e
           | NoAnswer \<Rightarrow> Inl (''Admin auth token validation timed out after '' @
               show_int (get_validation_timeout ap) @ ''ms'')))"

definition create_entry :: "auth_env \<Rightarrow> auth_params \<Rightarrow> auth_world \<Rightarrow> auth_world \<times> (string + token_entry)" where
  "create_entry env ap w =
     (let w1 = emit_cache_event env ap ''miss'' [] w in
      case ap_create_token ap (aw_reads w1) of
        Inl e \<Rightarrow> (w1, Inl e)
      | Inr token \<Rightarrow>
          if \<not> is_valid_bearer_token token then (w1, Inl ''Generated admin auth token is malformed'')
          else (case read_clock env w1 of
            (w2, minted) \<Rightarrow>
              (case validate_admin_auth_token ap token w2 of
                 Inl e \<Rightarrow> (w2, Inl e)
               | Inr False \<Rightarrow>
                   (emit_cache_event env ap ''validation-rejected''
                      [(''credentialFingerprint'', JStr (fingerprint env token)),
                       (''jwtExpiresAtMs'', int_or_undefined (get_jwt_expiration env token)),
                       (''mintedAtMs'', JInt minted)] w2,
                    Inl ''Generated admin auth token was rejected by validation'')
               | Inr True \<Rightarrow>
                   (case read_clock env w2 of
                      (w3, now) \<Rightarrow>
                        let expires = get_expiration env token
                              (case ap_cache_duration ap of None \<Rightarrow> 0 | Some d \<Rightarrow> d) (skew_of ap) now;
                            e = [(''authToken'', JStr token), (''expiresAtMs'', JInt expires),
                                 (''mintedAtMs'', JInt minted),
                                 (''validatedAtMs'', if ap_validate_token ap \<noteq> None then JInt now else JUndefined),
                                 (''validationPolicyFingerprint'',
                                   text_or_undefined (get_validation_policy_fingerprint env ap))]
                        in if expires \<le> now
                           then (w3, Inl ''Generated admin auth token expires within the configured safety skew'')
                           else (emit_cache_event env ap ''created''
                                   (get_credential_event_metadata env (Some e) @ expiry_fields env e @
                                    validation_fields e) (write_cached_entry e w3),
                                 Inr (get_public_cache_entry e))))))"

definition needs_validation :: "auth_env \<Rightarrow> auth_params \<Rightarrow> js_object \<Rightarrow> bool" where
  "needs_validation env ap e \<longleftrightarrow>
     ap_validate_token ap \<noteq> None \<and>
     policy_of e \<noteq> text_or_undefined (get_validation_policy_fingerprint env ap)"

definition use_cached :: "auth_env \<Rightarrow> auth_params \<Rightarrow> js_object \<Rightarrow> auth_world \<Rightarrow> auth_world \<times> (string + token_entry)" where
  "use_cached env ap e w =
     (let needs = needs_validation env ap e in
      case (if needs then validate_admin_auth_token ap (token_of e) w else Inr True) of
        Inl err \<Rightarrow> (w, Inl err)
      | Inr False \<Rightarrow>
          create_entry env ap
            (emit_cache_event env ap ''validation-rejected''
               (get_credential_event_metadata env (Some e) @ expiry_fields env e) (remove_cached_entry w))
      | Inr True \<Rightarrow>
          (case (if needs
                 then (case read_clock env w of
                         (w1, now) \<Rightarrow> (w1, spread e
                           [(''validatedAtMs'', JInt now),
                            (''validationPolicyFingerprint'',
                              text_or_undefined (get_validation_policy_fingerprint env ap))]))
                 else (w, e)) of
             (w1, accepted) \<Rightarrow>
               (case read_clock env w1 of
                  (w2, now) \<Rightarrow>
                    if \<not> is_expired (expires_of accepted) now
                    then (emit_hit env ap accepted (if needs then write_cached_entry accepted w2 else w2),
                          Inr (get_public_cache_entry accepted))
                    else create_entry env ap (remove_cached_entry w2))))"

definition get_or_create_with_lock ::
  "auth_env \<Rightarrow> auth_params \<Rightarrow> string option \<Rightarrow> auth_world \<Rightarrow> auth_world \<times> (string + token_entry)" where
  "get_or_create_with_lock env ap target w =
     (case read_cached_entry env (skew_of ap) w of
        (w1, cached) \<Rightarrow>
          if is_force_refresh_requested ap \<and>
             (case cached of Some e \<Rightarrow> Some (fingerprint env (token_of e)) = target | None \<Rightarrow> target = None)
          then create_entry env ap
                 (emit_cache_event env ap ''refresh'' (get_credential_event_metadata env cached)
                    (remove_cached_entry w1))
          else (case cached of
                  None \<Rightarrow> create_entry env ap w1
                | Some e \<Rightarrow> use_cached env ap e w1))"

subsection \<open>getOrCreateAdminAuthToken and invalidateAdminAuthToken\<close>

text \<open>Waiting for the lock: it is acquired with the cache file found then, or not in time.\<close>

datatype lock_outcome = LockAcquired "string option" | LockTimedOut

definition lock_error :: "auth_env \<Rightarrow> auth_params \<Rightarrow> string" where
  "lock_error env ap =
     ''Timed out waiting for admin auth token cache lock: '' @ cache_file_path env ap @ ''.lock''"

definition force_refresh_target :: "auth_env \<Rightarrow> auth_params \<Rightarrow> js_object option \<Rightarrow> string option" where
  "force_refresh_target env ap cached =
     (case ap_force_refresh ap of
        NoRefresh \<Rightarrow> None
      | RefreshRejected t \<Rightarrow> Some (fingerprint env t)
      | Refresh \<Rightarrow> map_option (\<lambda>e. fingerprint env (token_of e)) cached)"

definition get_or_create_admin_auth_token ::
  "auth_env \<Rightarrow> auth_params \<Rightarrow> lock_outcome \<Rightarrow> auth_world \<Rightarrow> auth_world \<times> (string + token_entry)" where
  "get_or_create_admin_auth_token env ap lock w =
     (case validate_params ap of
        Some err \<Rightarrow> (w, Inl err)
      | None \<Rightarrow>
          (case (case ap_force_refresh ap of
                   RefreshRejected t \<Rightarrow> (w, None)
                 | _ \<Rightarrow> read_cached_entry env (skew_of ap) w) of
             (w1, cached) \<Rightarrow>
               (case (if is_force_refresh_requested ap then None else cached) of
                  Some e \<Rightarrow>
                    if \<not> needs_validation env ap e
                    then (emit_hit env ap e w1, Inr (get_public_cache_entry e))
                    else (case lock of
                            LockTimedOut \<Rightarrow> (w1, Inl (lock_error env ap))
                          | LockAcquired file \<Rightarrow>
                              get_or_create_with_lock env ap (force_refresh_target env ap cached)
                                (w1\<lparr>aw_file := file\<rparr>))
                | None \<Rightarrow>
                    (case lock of
                       LockTimedOut \<Rightarrow> (w1, Inl (lock_error env ap))
                     | LockAcquired file \<Rightarrow>
                         get_or_create_with_lock env ap (force_refresh_target env ap cached)
                           (w1\<lparr>aw_file := file\<rparr>)))))"

definition invalidate_admin_auth_token ::
  "auth_env \<Rightarrow> auth_params \<Rightarrow> lock_outcome \<Rightarrow> auth_world \<Rightarrow> auth_world \<times> (string + unit)" where
  "invalidate_admin_auth_token env ap lock w =
     (case validate_cache_location ap of
        Some err \<Rightarrow> (w, Inl err)
      | None \<Rightarrow>
          (case lock of
             LockTimedOut \<Rightarrow> (w, Inl (lock_error env ap))
           | LockAcquired file \<Rightarrow>
               (case read_cached_entry env 60000 (w\<lparr>aw_file := file\<rparr>) of
                  (w1, cached) \<Rightarrow>
                    (emit_cache_event env ap ''invalidated'' (get_credential_event_metadata env cached)
                       (remove_cached_entry w1), Inr ()))))"

subsection \<open>generateAdminAuthToken\<close>

definition generated_identity :: "cache_identity option \<Rightarrow> string option \<Rightarrow> cache_identity" where
  "generated_identity i client =
     \<lparr>ci_namespace = (case i of None \<Rightarrow> ''generateAdminAuthToken'' | Some j \<Rightarrow> ci_namespace j),
      ci_token_kind = (case i of None \<Rightarrow> ''admin-user'' | Some j \<Rightarrow> ci_token_kind j),
      ci_audience = (case i of None \<Rightarrow> None | Some j \<Rightarrow> ci_audience j),
      ci_client_name = (case client of Some c \<Rightarrow> Some c | None \<Rightarrow> (case i of None \<Rightarrow> None | Some j \<Rightarrow> ci_client_name j)),
      ci_issuer = (case i of None \<Rightarrow> None | Some j \<Rightarrow> ci_issuer j)\<rparr>"

definition get_token_command_arguments :: "auth_params \<Rightarrow> string option \<Rightarrow> string list" where
  "get_token_command_arguments ap client =
     [''auth'', ''gentoken'', ''user'', ap_environment_name ap, ap_admin_email ap, ''--quiet''] @
     (case client of None \<Rightarrow> [] | Some c \<Rightarrow> [''-n'', c])"

definition is_retryable_generation_error :: "string \<Rightarrow> bool" where
  "is_retryable_generation_error message =
     (let m = to_lower message in
      if str_includes m ''timed out after'' then True
      else if str_includes m ''too many requests'' then True
      else if str_includes m ''defineauthchallenge failed'' \<and> str_includes m ''ssm:getparameters'' \<and>
        str_includes m ''s2s-external-client/zendesk-auto-login/client_id'' then True
      else (str_includes m ''maketesttoken'' \<or> str_includes m ''make_test_token'') \<and>
        str_includes m ''incorrect username or password'')"

text \<open>A failed command: its message, and the error with the errors behind it, each once, as far as
  they are objects. A command that ends gives its output.\<close>

record error_layer =
  el_killed :: bool
  el_code :: "string option"
  el_signal :: "string option"

record command_error =
  cmd_message :: string
  cmd_layers :: "error_layer list"

definition is_command_timeout_error :: "command_error \<Rightarrow> bool" where
  "is_command_timeout_error e =
     list_ex (\<lambda>l. el_killed l \<and>
       (el_code l = Some ''ETIMEDOUT'' \<or> el_signal l = Some ''SIGTERM'' \<or> el_signal l = Some ''SIGKILL''))
       (cmd_layers e)"

definition redacted_user_label :: string where "redacted_user_label = ''[redacted-user]''"

definition create_safe_error :: "string \<Rightarrow> int \<Rightarrow> command_error \<Rightarrow> string" where
  "create_safe_error email timeout e =
     replace_verbatim email redacted_user_label (cmd_message e) @
     (if is_command_timeout_error e then LF # ''Timed out after '' @ show_int timeout @ ''ms'' else [])"

definition generate_attempt :: "string \<Rightarrow> int \<Rightarrow> command_error + string \<Rightarrow> string + string" where
  "generate_attempt email timeout result =
     (case result of
        Inl e \<Rightarrow> Inl (create_safe_error email timeout e)
      | Inr out \<Rightarrow>
          let raw = trim (hd (split_char LF out)) in
          if raw = []
          then Inl (create_safe_error email timeout
            \<lparr>cmd_message = ''Token generation returned an empty token'', cmd_layers = [\<lparr>el_killed = False, el_code = None, el_signal = None\<rparr>]\<rparr>)
          else Inr (bearer_prefix @ raw))"

text \<open>The token is created by a classified retry; the output of the command at each attempt, the
  random numbers and the clock are given.\<close>

record generation =
  gen_command :: "nat \<Rightarrow> (string, command_error) promise"
  gen_timeout :: "int option"
  gen_max_attempts :: "number option"
  gen_delay :: "rat option"
  gen_jitter :: "rat option"
  gen_random :: "nat \<Rightarrow> rat"
  gen_sleep :: "rat \<Rightarrow> (unit, string) promise"

definition generation_retry :: "string \<Rightarrow> (rat \<Rightarrow> rat) \<Rightarrow> generation \<Rightarrow> (string, string) retry_params" where
  "generation_retry email now g =
     \<lparr>rp_operation = (\<lambda>n elapsed.
        \<lparr>settles_after = settles_after (gen_command g n),
         settled = generate_attempt email (case gen_timeout g of None \<Rightarrow> 30000 | Some t \<Rightarrow> t)
           (settled (gen_command g n))\<rparr>),
      rp_mode = Classified (case gen_max_attempts g of None \<Rightarrow> Some 4 | Some m \<Rightarrow> m)
        (DelayOf (\<lambda>fc. Inr (Some
          ((case gen_delay g of None \<Rightarrow> 2000 | Some d \<Rightarrow> d) * of_nat (fc_attempt fc) +
           of_int \<lfloor>gen_random g (fc_attempt fc) * (case gen_jitter g of None \<Rightarrow> 1000 | Some j \<Rightarrow> j)\<rfloor>))))
        (\<lambda>fc. Inr (case fc_error fc of
            OperationError m \<Rightarrow> is_retryable_generation_error m | AttemptTimeout \<Rightarrow> False)),
      rp_now = now, rp_sleep = gen_sleep g, rp_on_failed = None\<rparr>"

end
