(* ===== verification/AdminAuthSafety.thy ===== *)
theory AdminAuthSafety
  imports AdminAuthToken
begin

section \<open>playwright-toolkit: what the token cache guarantees\<close>

text \<open>
  Which tokens a caller is given: usable ones, vouched for by its validator or by the policy they
  were stored under, and never the one it rejected; and that a created token is what others find.
\<close>

subsection \<open>Entries\<close>

lemma property_spread:
  "property (spread a b) k = (case map_of (rev b) k of None \<Rightarrow> property a k | Some v \<Rightarrow> v)"
  by (simp add: property_def map_of_spread split: option.splits)

lemma times_up_one [simp]: "times_up 1 (JInt n) = n"
  by (simp add: times_up_def)

definition capped :: "auth_env \<Rightarrow> int \<Rightarrow> string \<Rightarrow> int \<Rightarrow> bool" where
  "capped env skew token expires \<longleftrightarrow>
     (case get_jwt_expiration env token of None \<Rightarrow> True | Some x \<Rightarrow> expires \<le> x - skew)"

lemma get_expiration_capped:
  "capped env skew token (get_expiration env token d skew now)"
  "e \<le> get_expiration env token d skew now \<Longrightarrow> capped env skew token e"
  by (auto simp: capped_def get_expiration_def split: option.splits)

lemma stored_object_valid:
  "stored_object file = Some ps \<Longrightarrow> is_valid_bearer_token (token_of ps)"
  by (auto simp: stored_object_def is_stored_cache_entry_def token_of_def string_value_def
      split: option.splits js.splits if_splits)

lemma read_cached_entry_Some:
  assumes "read_cached_entry env skew w = (w1, Some e)"
  shows "\<exists>ps. stored_object (aw_file w) = Some ps \<and> token_of e = token_of ps \<and> policy_of e = policy_of ps \<and>
    w1 = w\<lparr>aw_reads := Suc (aw_reads w)\<rparr> \<and> is_valid_bearer_token (token_of e) \<and>
    ae_now env (aw_reads w) < expires_of e \<and> capped env skew (token_of e) (expires_of e)"
proof -
  from assms obtain ps where ps: "stored_object (aw_file w) = Some ps"
    by (auto simp: read_cached_entry_def split: option.splits)
  let ?now = "ae_now env (aw_reads w)"
  let ?x = "get_expiration env (token_of ps) (expires_of ps - ?now) skew ?now"
  from assms ps have w1: "w1 = w\<lparr>aw_reads := Suc (aw_reads w)\<rparr>" "?now < ?x"
    and e: "e = spread ps [(''expiresAtMs'', JInt (min (expires_of ps) ?x))]"
    by (auto simp: read_cached_entry_def read_clock_def Let_def split: if_splits)
  have le: "?x \<le> expires_of ps" by (auto simp: get_expiration_def split: option.splits)
  have "token_of e = token_of ps" "policy_of e = policy_of ps" "expires_of e = ?x"
    using le by (simp_all add: e token_of_def policy_of_def expires_of_def property_spread del: spread_simps)
  with ps w1 show ?thesis
    using stored_object_valid [OF ps] get_expiration_capped(1) [of env skew "token_of ps"] by auto
qed

lemma read_cached_entry_None:
  "read_cached_entry env skew w = (w1, None) \<Longrightarrow>
   aw_file w1 = aw_file w \<and> aw_events w1 = aw_events w \<and> aw_reads w \<le> aw_reads w1"
  by (auto simp: read_cached_entry_def read_clock_def Let_def split: option.splits if_splits)

subsection \<open>What is returned\<close>

text \<open>A token that can be used: well formed, not expired at a reading of the clock made by the
  call, and kept no longer than the token itself allows.\<close>

definition usable :: "auth_env \<Rightarrow> auth_params \<Rightarrow> nat \<Rightarrow> nat \<Rightarrow> token_entry \<Rightarrow> bool" where
  "usable env ap low high c \<longleftrightarrow>
     is_valid_bearer_token (ce_token c) \<and>
     (\<exists>k. low \<le> k \<and> k < high \<and> ae_now env k < ce_expires c) \<and>
     capped env (skew_of ap) (ce_token c) (ce_expires c)"

text \<open>A token the validator accepted, or one read from a file that was stored under its policy.\<close>

definition vouched :: "auth_env \<Rightarrow> auth_params \<Rightarrow> string option set \<Rightarrow> token_entry \<Rightarrow> bool" where
  "vouched env ap files c \<longleftrightarrow>
     (case ap_validate_token ap of
        None \<Rightarrow> True
      | Some f \<Rightarrow>
          (\<exists>k. f k (ce_token c) = Accepted) \<or>
          (\<exists>file ps. file \<in> files \<and> stored_object file = Some ps \<and> token_of ps = ce_token c \<and>
             policy_of ps = text_or_undefined (get_validation_policy_fingerprint env ap)))"

lemma usable_mono: "usable env ap l h c \<Longrightarrow> l' \<le> l \<Longrightarrow> h \<le> h' \<Longrightarrow> usable env ap l' h' c"
  unfolding usable_def by (meson le_trans less_le_trans)

lemma vouched_mono: "vouched env ap files c \<Longrightarrow> files \<subseteq> files' \<Longrightarrow> vouched env ap files' c"
  by (auto simp: vouched_def split: option.splits)

lemma event_simps [simp]:
  "aw_file (emit_cache_event env ap k fs w) = aw_file w"
  "aw_reads (emit_cache_event env ap k fs w) = aw_reads w"
  "aw_file (emit_hit env ap e w) = aw_file w" "aw_reads (emit_hit env ap e w) = aw_reads w"
  "aw_reads (remove_cached_entry w) = aw_reads w" "aw_reads (write_cached_entry e w) = aw_reads w"
  "aw_file (write_cached_entry e w) = stringify (JObj e)" "aw_file (remove_cached_entry w) = None"
  by (simp_all add: emit_cache_event_def emit_hit_def remove_cached_entry_def write_cached_entry_def)

text \<open>The entry that is written for a new token.\<close>

definition new_entry :: "auth_env \<Rightarrow> auth_params \<Rightarrow> string \<Rightarrow> int \<Rightarrow> int \<Rightarrow> int \<Rightarrow> js_object" where
  "new_entry env ap token expires minted now =
     [(''authToken'', JStr token), (''expiresAtMs'', JInt expires), (''mintedAtMs'', JInt minted),
      (''validatedAtMs'', if ap_validate_token ap \<noteq> None then JInt now else JUndefined),
      (''validationPolicyFingerprint'', text_or_undefined (get_validation_policy_fingerprint env ap))]"

lemma new_entry_simps [simp]:
  "token_of (new_entry env ap token expires minted now) = token"
  "expires_of (new_entry env ap token expires minted now) = expires"
  "policy_of (new_entry env ap token expires minted now) =
     text_or_undefined (get_validation_policy_fingerprint env ap)"
  by (simp_all add: new_entry_def token_of_def expires_of_def policy_of_def property_def string_value_def)

lemma create_entry_Inr:
  assumes "create_entry env ap w = (w', Inr c)"
  shows "ap_create_token ap (aw_reads w) = Inr (ce_token c) \<and>
    usable env ap (aw_reads w) (aw_reads w') c \<and> vouched env ap {} c \<and>
    aw_file w' = stringify (JObj (new_entry env ap (ce_token c) (ce_expires c)
      (ae_now env (aw_reads w)) (ae_now env (Suc (aw_reads w)))))"
proof -
  from assms obtain token where token: "ap_create_token ap (aw_reads w) = Inr token"
    "is_valid_bearer_token token"
    by (auto simp: create_entry_def Let_def split: sum.splits if_splits)
  let ?w1 = "emit_cache_event env ap ''miss'' [] w"
  let ?w2 = "?w1\<lparr>aw_reads := Suc (aw_reads w)\<rparr>"
  from assms token have ok: "validate_admin_auth_token ap token ?w2 = Inr True"
    by (auto simp: create_entry_def Let_def read_clock_def split: sum.splits if_splits bool.splits)
  let ?now = "ae_now env (Suc (aw_reads w))"
  let ?x = "get_expiration env token (case ap_cache_duration ap of None \<Rightarrow> 0 | Some d \<Rightarrow> d) (skew_of ap) ?now"
  let ?e = "new_entry env ap token ?x (ae_now env (aw_reads w)) ?now"
  from assms token ok have x: "?now < ?x" and c: "c = get_public_cache_entry ?e"
    and disk: "aw_file w' = stringify (JObj ?e)" "aw_reads w' = Suc (Suc (aw_reads w))"
    by (auto simp: create_entry_def Let_def read_clock_def new_entry_def split: if_splits)
  have c: "ce_token c = token" "ce_expires c = ?x" by (simp_all add: c get_public_cache_entry_def)
  have "vouched env ap {} c"
    using ok by (auto simp: vouched_def validate_admin_auth_token_def c split: option.splits validation.splits)
  moreover have "usable env ap (aw_reads w) (aw_reads w') c"
    using x token(2) disk(2) get_expiration_capped(1)
    by (auto simp: usable_def c intro!: exI [of _ "Suc (aw_reads w)"])
  ultimately show ?thesis using token disk c by simp
qed

lemma use_cached_Inr:
  assumes run: "use_cached env ap e w = (w', Inr c)"
    and e: "is_valid_bearer_token (token_of e)" "capped env (skew_of ap) (token_of e) (expires_of e)"
    and disk: "stored_object file = Some ps" "token_of e = token_of ps" "policy_of e = policy_of ps"
  shows "usable env ap (aw_reads w) (aw_reads w') c \<and> vouched env ap {file} c \<and>
    (ce_token c = token_of e \<or> (\<exists>k. ap_create_token ap k = Inr (ce_token c)))"
proof -
  have created: ?thesis if "create_entry env ap v = (w', Inr c)" "aw_reads w \<le> aw_reads v" for v
    using create_entry_Inr [OF that(1)] that(2) by (auto intro: usable_mono vouched_mono)
  let ?needs = "needs_validation env ap e"
  let ?v = "if ?needs then validate_admin_auth_token ap (token_of e) w else Inr True"
  show ?thesis
  proof (cases "?v = Inr False")
    case True
    with run show ?thesis by (intro created) (auto simp: use_cached_def Let_def)
  next
    case False
    with run have v: "?v = Inr True"
      by (auto simp: use_cached_def Let_def split: sum.splits bool.splits if_splits)
    let ?w1 = "if ?needs then w\<lparr>aw_reads := Suc (aw_reads w)\<rparr> else w"
    let ?a = "if ?needs then spread e [(''validatedAtMs'', JInt (ae_now env (aw_reads w))),
        (''validationPolicyFingerprint'', text_or_undefined (get_validation_policy_fingerprint env ap))] else e"
    have a: "token_of ?a = token_of e" "expires_of ?a = expires_of e"
      by (simp_all add: token_of_def expires_of_def property_spread del: spread_simps)
    let ?w2 = "?w1\<lparr>aw_reads := Suc (aw_reads ?w1)\<rparr>"
    let ?now = "ae_now env (aw_reads ?w1)"
    have unfold: "use_cached env ap e w =
        (if \<not> is_expired (expires_of ?a) ?now
         then (emit_hit env ap ?a (if ?needs then write_cached_entry ?a ?w2 else ?w2),
               Inr (get_public_cache_entry ?a))
         else create_entry env ap (remove_cached_entry ?w2))"
      unfolding use_cached_def Let_def v
      by (simp add: read_clock_def del: spread_simps split del: if_split)
        (simp add: read_clock_def del: spread_simps)
    show ?thesis
    proof (cases "is_expired (expires_of ?a) ?now")
      case True
      with run unfold show ?thesis by (intro created [of "remove_cached_entry ?w2"]) auto
    next
      case fresh: False
      with run unfold have c: "c = get_public_cache_entry ?a" and w': "aw_reads w' = Suc (aw_reads ?w1)"
        by (auto split: if_splits)
      have ct: "ce_token c = token_of e" "ce_expires c = expires_of e"
        unfolding c get_public_cache_entry_def by (simp_all only: token_entry.simps a)
      have "usable env ap (aw_reads w) (aw_reads w') c"
        using e fresh w' by (auto simp: usable_def ct a is_expired_def intro!: exI [of _ "aw_reads ?w1"])
      moreover have "vouched env ap {file} c"
        using v disk by (auto simp: vouched_def ct needs_validation_def validate_admin_auth_token_def
            split: option.splits if_splits validation.splits)
      ultimately show ?thesis by (simp add: ct)
    qed
  qed
qed

lemma get_or_create_with_lock_Inr:
  assumes run: "get_or_create_with_lock env ap target w = (w', Inr c)"
  shows "usable env ap (aw_reads w) (aw_reads w') c \<and> vouched env ap {aw_file w} c \<and>
    ((\<exists>k. ap_create_token ap k = Inr (ce_token c)) \<or>
     \<not> (is_force_refresh_requested ap \<and> Some (fingerprint env (ce_token c)) = target))"
proof (cases "read_cached_entry env (skew_of ap) w")
  case (Pair w1 cached)
  have created: ?thesis if "create_entry env ap v = (w', Inr c)" "aw_reads w \<le> aw_reads v" for v
    using create_entry_Inr [OF that(1)] that(2) by (auto intro: usable_mono vouched_mono)
  show ?thesis
  proof (cases cached)
    case None
    with Pair read_cached_entry_None [of env "skew_of ap" w w1] run show ?thesis
      by (intro created [of "if is_force_refresh_requested ap \<and> target = None
            then emit_cache_event env ap ''refresh'' (get_credential_event_metadata env cached)
                    (remove_cached_entry w1) else w1"])
        (auto simp: get_or_create_with_lock_def split: if_splits)
  next
    case (Some e)
    from read_cached_entry_Some Pair Some obtain ps where ps: "stored_object (aw_file w) = Some ps"
      "token_of e = token_of ps" "policy_of e = policy_of ps" "w1 = w\<lparr>aw_reads := Suc (aw_reads w)\<rparr>"
      "is_valid_bearer_token (token_of e)" "capped env (skew_of ap) (token_of e) (expires_of e)"
      by blast
    show ?thesis
    proof (cases "is_force_refresh_requested ap \<and> Some (fingerprint env (token_of e)) = target")
      case True
      with run Pair Some ps(4) show ?thesis
        by (intro created [of "emit_cache_event env ap ''refresh'' (get_credential_event_metadata env cached)
              (remove_cached_entry w1)"]) (auto simp: get_or_create_with_lock_def)
    next
      case False
      with run Pair Some have "use_cached env ap e w1 = (w', Inr c)"
        by (auto simp: get_or_create_with_lock_def)
      from use_cached_Inr [OF this ps(5,6,1-3)] False ps(4) show ?thesis
        by (auto intro: usable_mono)
    qed
  qed
qed

text \<open>The cache files a call reads: the one it finds first and the one it finds under the lock.\<close>

definition files_read :: "auth_world \<Rightarrow> lock_outcome \<Rightarrow> string option set" where
  "files_read w lock = {aw_file w} \<union> (case lock of LockAcquired f \<Rightarrow> {f} | LockTimedOut \<Rightarrow> {})"

lemma get_or_create_cases:
  assumes run: "get_or_create_admin_auth_token env ap lock w = (w', Inr c)"
  obtains (hit) e where "\<not> is_force_refresh_requested ap" "\<not> needs_validation env ap e"
      "read_cached_entry env (skew_of ap) w = (w\<lparr>aw_reads := Suc (aw_reads w)\<rparr>, Some e)"
      "aw_reads w' = Suc (aw_reads w)" "aw_file w' = aw_file w" "c = get_public_cache_entry e"
  | (locked) f w1 target where "lock = LockAcquired f" "aw_reads w \<le> aw_reads w1" "aw_file w1 = f"
      "get_or_create_with_lock env ap target w1 = (w', Inr c)"
      "\<And>t. ap_force_refresh ap = RefreshRejected t \<Longrightarrow> target = Some (fingerprint env t)"
proof -
  define first where "first = (case ap_force_refresh ap of
      RefreshRejected t \<Rightarrow> (w, None) | _ \<Rightarrow> read_cached_entry env (skew_of ap) w)"
  obtain w1 cached where w1: "first = (w1, cached)" by (cases first)
  have reads: "aw_reads w \<le> aw_reads w1"
    using w1 read_cached_entry_None [of env "skew_of ap" w w1] read_cached_entry_Some [of env "skew_of ap" w w1]
    by (cases cached) (auto simp: first_def split: force_refresh.splits)
  have ok: "validate_params ap = None"
    using run by (auto simp: get_or_create_admin_auth_token_def split: option.splits)
  have under_lock: thesis
    if "(case lock of LockTimedOut \<Rightarrow> (w1, Inl (lock_error env ap))
         | LockAcquired file \<Rightarrow> get_or_create_with_lock env ap (force_refresh_target env ap cached)
             (w1\<lparr>aw_file := file\<rparr>)) = (w', Inr c)"
    using that reads
    by (intro locked [of _ "w1\<lparr>aw_file := case lock of LockAcquired f \<Rightarrow> f | LockTimedOut \<Rightarrow> None\<rparr>"
          "force_refresh_target env ap cached"])
      (auto simp: force_refresh_target_def split: lock_outcome.splits)
  show thesis
  proof (cases "\<exists>e. cached = Some e \<and> \<not> is_force_refresh_requested ap \<and> \<not> needs_validation env ap e")
    case True
    then obtain e where e: "cached = Some e" "\<not> is_force_refresh_requested ap" "\<not> needs_validation env ap e"
      by blast
    then have read: "read_cached_entry env (skew_of ap) w = (w1, Some e)"
      using w1 by (auto simp: first_def is_force_refresh_requested_def)
    have w1_eq: "w1 = w\<lparr>aw_reads := Suc (aw_reads w)\<rparr>" using read_cached_entry_Some [OF read] by blast
    have "w' = emit_hit env ap e w1" "c = get_public_cache_entry e"
      using run ok w1 e by (simp_all add: get_or_create_admin_auth_token_def first_def [symmetric])
    with e read w1_eq show thesis by (intro hit [of e]) simp_all
  next
    case False
    with run ok w1 show thesis
      by (intro under_lock)
        (auto simp: get_or_create_admin_auth_token_def first_def [symmetric] split: option.splits if_splits)
  qed
qed

text \<open>C12: Every token a caller is given is usable, and vouched for when the caller has a validator:
  the validator accepted it, or the cache file holds it as validated under the same policy.\<close>

theorem returned_token_is_usable:
  assumes "get_or_create_admin_auth_token env ap lock w = (w', Inr c)"
  shows "usable env ap (aw_reads w) (aw_reads w') c \<and> vouched env ap (files_read w lock) c"
  using assms
proof (cases rule: get_or_create_cases)
  case (hit e)
  from read_cached_entry_Some [OF hit(3)] obtain ps where ps: "stored_object (aw_file w) = Some ps"
    "token_of e = token_of ps" "policy_of e = policy_of ps" "is_valid_bearer_token (token_of e)"
    "ae_now env (aw_reads w) < expires_of e" "capped env (skew_of ap) (token_of e) (expires_of e)"
    by blast
  with hit show ?thesis
    by (auto simp: usable_def vouched_def files_read_def get_public_cache_entry_def needs_validation_def
        split: option.splits intro!: exI [of _ "aw_reads w"])
next
  case (locked f w1 target)
  from get_or_create_with_lock_Inr [OF locked(4)] locked(1-3) show ?thesis
    by (auto simp: files_read_def intro: usable_mono vouched_mono)
qed

text \<open>C34: A caller that rejects a token is not given it again from the cache, whoever stored it
  there, as long as fingerprints tell tokens apart: it is given a token that differs or one that
  was created anew.\<close>

theorem rejected_token_not_returned:
  assumes "get_or_create_admin_auth_token env ap lock w = (w', Inr c)"
    and "ap_force_refresh ap = RefreshRejected bad"
  shows "ce_token c \<noteq> bad \<or> (\<exists>k. ap_create_token ap k = Inr bad)"
  using assms(1)
proof (cases rule: get_or_create_cases)
  case (hit e)
  with assms(2) show ?thesis by (simp add: is_force_refresh_requested_def)
next
  case (locked f w1 target)
  from get_or_create_with_lock_Inr [OF locked(4)] locked(5) [OF assms(2)] assms(2) show ?thesis
    by (auto simp: is_force_refresh_requested_def)
qed

subsection \<open>What others find\<close>

text \<open>The members of a new entry that are printed.\<close>

definition printed_entry :: "auth_env \<Rightarrow> auth_params \<Rightarrow> string \<Rightarrow> int \<Rightarrow> int \<Rightarrow> int \<Rightarrow> js_object" where
  "printed_entry env ap token expires minted now =
     [(''authToken'', JStr token), (''expiresAtMs'', JInt expires), (''mintedAtMs'', JInt minted)] @
     (if ap_validate_token ap \<noteq> None then [(''validatedAtMs'', JInt now)] else []) @
     (case get_validation_policy_fingerprint env ap of
        None \<Rightarrow> [] | Some p \<Rightarrow> [(''validationPolicyFingerprint'', JStr p)])"

lemma clean_new_entry:
  "clean (JObj (new_entry env ap token expires minted now)) = Some (JObj (printed_entry env ap token expires minted now))"
  by (simp add: new_entry_def printed_entry_def text_or_undefined_def split: option.splits)

lemma printed_entry_simps [simp]:
  "token_of (printed_entry env ap token expires minted now) = token"
  "expires_of (printed_entry env ap token expires minted now) = expires"
  "policy_of (printed_entry env ap token expires minted now) =
     text_or_undefined (get_validation_policy_fingerprint env ap)"
  by (simp_all add: printed_entry_def token_of_def expires_of_def policy_of_def property_def string_value_def
      text_or_undefined_def split: option.splits)

lemma plain_printed_entry:
  "\<bar>expires\<bar> < 2 ^ 53 \<Longrightarrow> \<bar>minted\<bar> < 2 ^ 53 \<Longrightarrow> \<bar>now\<bar> < 2 ^ 53 \<Longrightarrow>
   plain (JObj (printed_entry env ap token expires minted now))"
  by (simp add: printed_entry_def split: option.splits)

lemma stored_new_entry:
  assumes "\<bar>expires\<bar> < 2 ^ 53" "\<bar>minted\<bar> < 2 ^ 53" "\<bar>now\<bar> < 2 ^ 53" and "is_valid_bearer_token token"
  shows "stored_object (stringify (JObj (new_entry env ap token expires minted now))) =
    Some (printed_entry env ap token expires minted now)"
proof -
  let ?ps = "printed_entry env ap token expires minted now"
  have plain: "plain (JObj ?ps)" using assms by (intro plain_printed_entry)
  obtain s where s: "stringify (JObj ?ps) = Some s" "parse_json s = Some (JObj ?ps)"
    using parse_stringify [OF plain] by blast
  have "stringify (JObj (new_entry env ap token expires minted now)) = Some s"
    using s(1) plain_clean(1) [OF plain] unfolding stringify_def clean_new_entry by simp
  moreover have "is_stored_cache_entry ?ps"
    using assms(4) by (simp add: printed_entry_def is_stored_cache_entry_def property_def is_finite_number_def
        number_or_nil_def split: option.splits)
  ultimately show ?thesis using s(2) by (simp add: stored_object_def)
qed

lemma read_fresh_entry:
  assumes ps: "stored_object (aw_file w) = Some ps"
    and now: "ae_now env (aw_reads w) < expires_of ps" and cap: "capped env skew (token_of ps) (expires_of ps)"
  shows "\<exists>e. read_cached_entry env skew w = (w\<lparr>aw_reads := Suc (aw_reads w)\<rparr>, Some e) \<and>
    token_of e = token_of ps \<and> policy_of e = policy_of ps \<and> expires_of e = expires_of ps"
proof -
  let ?now = "ae_now env (aw_reads w)"
  have x: "get_expiration env (token_of ps) (expires_of ps - ?now) skew ?now = expires_of ps"
    using cap by (auto simp: get_expiration_def capped_def split: option.splits)
  have "read_cached_entry env skew w =
      (w\<lparr>aw_reads := Suc (aw_reads w)\<rparr>, Some (spread ps [(''expiresAtMs'', JInt (expires_of ps))]))"
    using now by (simp add: read_cached_entry_def ps read_clock_def x Let_def del: spread_simps)
  then show ?thesis
    by (simp add: token_of_def policy_of_def expires_of_def property_spread del: spread_simps)
qed

text \<open>C35: A created token is shared: until it expires, every other caller with the same skew and
  policy that finds the file gets the same token with the same expiry, without the lock, without
  validating it again and without touching the file.\<close>

theorem created_token_is_shared:
  assumes "create_entry env ap w = (w1, Inr c)"
    and "\<bar>ce_expires c\<bar> < 2 ^ 53" and "\<forall>k. \<bar>ae_now env k\<bar> < 2 ^ 53"
    and "aw_file w2 = aw_file w1" and "ae_now env (aw_reads w2) < ce_expires c"
    and "validate_params ap2 = None" and "ap_force_refresh ap2 = NoRefresh" and "skew_of ap2 = skew_of ap"
    and "get_validation_policy_fingerprint env ap2 = get_validation_policy_fingerprint env ap"
  shows "\<exists>w3. get_or_create_admin_auth_token env ap2 lock w2 = (w3, Inr c) \<and> aw_file w3 = aw_file w2"
proof -
  let ?n1 = "ae_now env (aw_reads w)" and ?n2 = "ae_now env (Suc (aw_reads w))"
  let ?ps = "printed_entry env ap (ce_token c) (ce_expires c) ?n1 ?n2"
  from create_entry_Inr [OF assms(1)] have use: "usable env ap (aw_reads w) (aw_reads w1) c"
    and disk: "aw_file w1 = stringify (JObj (new_entry env ap (ce_token c) (ce_expires c) ?n1 ?n2))"
    by auto
  have ps: "stored_object (aw_file w2) = Some ?ps"
    unfolding assms(4) disk using use assms(2,3) by (intro stored_new_entry) (auto simp: usable_def)
  have cap: "capped env (skew_of ap2) (token_of ?ps) (expires_of ?ps)"
    using use assms(8) by (simp add: usable_def)
  obtain e where e: "read_cached_entry env (skew_of ap2) w2 = (w2\<lparr>aw_reads := Suc (aw_reads w2)\<rparr>, Some e)"
    "token_of e = ce_token c" "policy_of e = policy_of ?ps" "expires_of e = ce_expires c"
    using read_fresh_entry [OF ps _ cap] assms(5) by auto
  have "\<not> needs_validation env ap2 e" using e(3) assms(9) by (simp add: needs_validation_def)
  with e assms(6,7) show ?thesis
    by (simp add: get_or_create_admin_auth_token_def is_force_refresh_requested_def get_public_cache_entry_def)
qed

subsection \<open>Instances\<close>

definition example_auth_env :: auth_env where
  "example_auth_env =
     \<lparr>ae_sha = (\<lambda>s. s), ae_base64url = (\<lambda>s. s), ae_tmpdir = ''/tmp'', ae_now = (\<lambda>k. 100)\<rparr>"

definition example_auth :: auth_params where
  "example_auth =
     \<lparr>ap_admin_email = ''a@b.c'', ap_environment_name = ''dev'', ap_identity = None,
      ap_cache_directory = None, ap_lock_stale_after = None, ap_cache_duration = Some 50,
      ap_create_token = (\<lambda>k. Inr ''Bearer new''), ap_force_refresh = RefreshRejected ''Bearer old'',
      ap_skew = None, ap_policy = None, ap_validation_timeout = None, ap_validate_token = None\<rparr>"

definition example_auth_world :: auth_world where
  "example_auth_world =
     \<lparr>aw_file = stringify (JObj [(''authToken'', JStr ''Bearer old''), (''expiresAtMs'', JInt 500)]),
      aw_reads = 0, aw_events = []\<rparr>"

abbreviation example_auth_run :: "auth_world \<times> (string + token_entry)" where
  "example_auth_run \<equiv>
     get_or_create_admin_auth_token example_auth_env example_auth (LockAcquired (aw_file example_auth_world))
       example_auth_world"

lemma example_auth_result: "snd example_auth_run = Inr \<lparr>ce_token = ''Bearer new'', ce_expires = 150\<rparr>"
  by code_simp

lemma example_auth_run: "example_auth_run = (fst example_auth_run, Inr \<lparr>ce_token = ''Bearer new'', ce_expires = 150\<rparr>)"
  by (metis example_auth_result prod.collapse)

lemma returned_token_is_usable_witness:
  "is_valid_bearer_token ''Bearer new'' \<and>
   usable example_auth_env example_auth 0 (aw_reads (fst example_auth_run))
     \<lparr>ce_token = ''Bearer new'', ce_expires = 150\<rparr>"
  using returned_token_is_usable [OF example_auth_run] by (simp add: usable_def example_auth_world_def)

lemma rejected_token_not_returned_witness:
  "ce_token (case snd example_auth_run of Inl _ \<Rightarrow> \<lparr>ce_token = [], ce_expires = 0\<rparr> | Inr c \<Rightarrow> c) \<noteq> ''Bearer old''"
proof -
  have "ap_force_refresh example_auth = RefreshRejected ''Bearer old''" by (simp add: example_auth_def)
  from rejected_token_not_returned [OF example_auth_run this]
  show ?thesis unfolding example_auth_result by (simp add: example_auth_def)
qed

lemma created_token_is_shared_witness:
  "\<exists>w3. get_or_create_admin_auth_token example_auth_env (example_auth\<lparr>ap_force_refresh := NoRefresh\<rparr>) LockTimedOut
      (fst (create_entry example_auth_env example_auth example_auth_world)) =
    (w3, Inr \<lparr>ce_token = ''Bearer new'', ce_expires = 150\<rparr>)"
proof -
  let ?run = "create_entry example_auth_env example_auth example_auth_world"
  have "snd ?run = Inr \<lparr>ce_token = ''Bearer new'', ce_expires = 150\<rparr>" by code_simp
  then have run: "?run = (fst ?run, Inr \<lparr>ce_token = ''Bearer new'', ce_expires = 150\<rparr>)" by (metis prod.collapse)
  have "validate_params (example_auth\<lparr>ap_force_refresh := NoRefresh\<rparr>) = None" by code_simp
  with created_token_is_shared [OF run _ _ refl, of "example_auth\<lparr>ap_force_refresh := NoRefresh\<rparr>" LockTimedOut]
  show ?thesis
    by (auto simp: example_auth_env_def example_auth_def skew_of_def get_validation_policy_fingerprint_def)
qed

end
