(* ===== verification/AdminAuthLock.thy ===== *)
theory AdminAuthLock
  imports Prelude
begin

section \<open>playwright-toolkit: the lock of the token cache\<close>

text \<open>
  Models the lock file of \<open>packages/playwright-toolkit/src/lib/adminAuthToken.ts\<close>:
  \<open>runWithAdminAuthTokenLock\<close>, \<open>tryAcquireLock\<close>, \<open>removeStaleLock\<close>, \<open>releaseLock\<close> and \<open>readLock\<close>,
  run by any number of processes. Every file operation is one step; between two of them other
  processes act and time passes. Writing the lock is two steps, creating the file and filling it;
  a file that is not filled reads as no lock. The time a lock says it was created, which the code
  reads just before it writes the file, is the time of the creation. The identifier of an owner is a number never used
  before. A process may crash at any point and may give up when it waits.
\<close>

record lock_file =
  lf_owner :: nat
  lf_created :: int
  lf_modified :: int
  lf_filled :: bool

datatype phase =
    Absent
  | Trying
  | Creating nat
  | Holding nat
  | Leaving nat
  | Unlocking nat
  | Reading
  | Statting "(nat \<times> int) option"
  | Rereading nat
  | Removing
  | Finished
  | Crashed

record lock_state =
  ls_file :: "lock_file option"
  ls_time :: int
  ls_next :: nat
  ls_phase :: "nat \<Rightarrow> phase"

datatype lock_event = Enter nat | Advance nat | GiveUp nat | Crash nat | Wait nat

definition read_lock :: "lock_state \<Rightarrow> (nat \<times> int) option" where
  "read_lock s =
     (case ls_file s of
        None \<Rightarrow> None
      | Some f \<Rightarrow> if lf_filled f then Some (lf_owner f, lf_created f) else None)"

definition go :: "nat \<Rightarrow> phase \<Rightarrow> lock_state \<Rightarrow> lock_state" where
  "go p ph s = s\<lparr>ls_phase := (ls_phase s)(p := ph)\<rparr>"

definition remove_lock_file :: "lock_state \<Rightarrow> lock_state" where
  "remove_lock_file s = s\<lparr>ls_file := None\<rparr>"

text \<open>\<open>writeFile\<close> with the flag \<open>wx\<close>: creates the file or fails when there is one.\<close>

definition try_acquire_lock :: "nat \<Rightarrow> lock_state \<Rightarrow> lock_state" where
  "try_acquire_lock p s =
     (case ls_file s of
        Some f \<Rightarrow> go p Reading s
      | None \<Rightarrow> go p (Creating (ls_next s))
          (s\<lparr>ls_file := Some \<lparr>lf_owner = ls_next s, lf_created = ls_time s, lf_modified = ls_time s,
               lf_filled = False\<rparr>,
             ls_next := Suc (ls_next s)\<rparr>))"

definition fill_lock_file :: "nat \<Rightarrow> nat \<Rightarrow> lock_state \<Rightarrow> lock_state" where
  "fill_lock_file p owner s =
     go p (Holding owner)
       (s\<lparr>ls_file := (case ls_file s of
            None \<Rightarrow> None
          | Some f \<Rightarrow> Some (if lf_owner f = owner then f\<lparr>lf_modified := ls_time s, lf_filled := True\<rparr> else f))\<rparr>)"

text \<open>\<open>removeStaleLock\<close> after the lock was read: the age of the lock read, or of the file when none
  was read.\<close>

definition stat_lock_file :: "int \<Rightarrow> nat \<Rightarrow> (nat \<times> int) option \<Rightarrow> lock_state \<Rightarrow> lock_state" where
  "stat_lock_file stale p seen s =
     (case ls_file s of
        None \<Rightarrow> go p Trying s
      | Some f \<Rightarrow>
          let created = (case seen of None \<Rightarrow> lf_modified f | Some (owner, c) \<Rightarrow> c) in
          if ls_time s - created < stale then go p Trying s
          else (case seen of None \<Rightarrow> go p Removing s | Some (owner, c) \<Rightarrow> go p (Rereading owner) s))"

definition owned_by :: "nat \<Rightarrow> lock_state \<Rightarrow> bool" where
  "owned_by owner s = (map_option fst (read_lock s) = Some owner)"

fun lock_advance :: "int \<Rightarrow> nat \<Rightarrow> phase \<Rightarrow> lock_state \<Rightarrow> lock_state" where
  "lock_advance stale p Trying s = try_acquire_lock p s"
| "lock_advance stale p (Creating owner) s = fill_lock_file p owner s"
| "lock_advance stale p (Holding owner) s = go p (Leaving owner) s"
| "lock_advance stale p (Leaving owner) s =
     (if owned_by owner s then go p (Unlocking owner) s else go p Finished s)"
| "lock_advance stale p (Unlocking owner) s = go p Finished (remove_lock_file s)"
| "lock_advance stale p Reading s = go p (Statting (read_lock s)) s"
| "lock_advance stale p (Statting seen) s = stat_lock_file stale p seen s"
| "lock_advance stale p (Rereading owner) s =
     (if owned_by owner s then go p Removing s else go p Trying s)"
| "lock_advance stale p Removing s = go p Trying (remove_lock_file s)"
| "lock_advance stale p ph s = s"

fun lock_event_step :: "int \<Rightarrow> lock_event \<Rightarrow> lock_state \<Rightarrow> lock_state" where
  "lock_event_step stale (Enter p) s = (if ls_phase s p = Absent then go p Trying s else s)"
| "lock_event_step stale (Advance p) s = lock_advance stale p (ls_phase s p) s"
| "lock_event_step stale (GiveUp p) s = (if ls_phase s p = Trying then go p Finished s else s)"
| "lock_event_step stale (Crash p) s = go p Crashed s"
| "lock_event_step stale (Wait d) s = s\<lparr>ls_time := ls_time s + int d\<rparr>"

definition lock_start :: lock_state where
  "lock_start = \<lparr>ls_file = None, ls_time = 0, ls_next = 0, ls_phase = (\<lambda>p. Absent)\<rparr>"

definition lock_run :: "int \<Rightarrow> lock_event list \<Rightarrow> lock_state" where
  "lock_run stale es = foldl (\<lambda>s e. lock_event_step stale e s) lock_start es"

subsection \<open>Mutual exclusion\<close>

fun owner_in :: "phase \<Rightarrow> nat option" where
  "owner_in (Creating owner) = Some owner"
| "owner_in (Holding owner) = Some owner"
| "owner_in (Leaving owner) = Some owner"
| "owner_in (Unlocking owner) = Some owner"
| "owner_in _ = None"

text \<open>No lock file is older than the age at which it counts as stale.\<close>

definition young :: "int \<Rightarrow> lock_state \<Rightarrow> bool" where
  "young stale s \<longleftrightarrow> (case ls_file s of None \<Rightarrow> True | Some f \<Rightarrow> ls_time s - lf_created f < stale)"

text \<open>What is reached while every lock file stays young.\<close>

inductive prompt :: "int \<Rightarrow> lock_state \<Rightarrow> bool" for stale :: int where
  start: "prompt stale lock_start"
| step: "prompt stale s \<Longrightarrow> young stale (lock_event_step stale e s) \<Longrightarrow> prompt stale (lock_event_step stale e s)"

inductive_simps prompt_simps: "prompt stale s"

text \<open>What a process that inspects the lock knows of it.\<close>

fun knows :: "int \<Rightarrow> lock_state \<Rightarrow> phase \<Rightarrow> bool" where
  "knows stale s (Statting (Some (owner, c))) =
     (owner < ls_next s \<and> (\<forall>f. ls_file s = Some f \<and> lf_owner f = owner \<longrightarrow> lf_created f = c))"
| "knows stale s (Rereading owner) =
     (owner < ls_next s \<and> (\<forall>f. ls_file s = Some f \<longrightarrow> lf_owner f \<noteq> owner))"
| "knows stale s Removing = False"
| "knows stale s _ = True"

definition lock_inv :: "int \<Rightarrow> lock_state \<Rightarrow> bool" where
  "lock_inv stale s \<longleftrightarrow>
     young stale s \<and>
     (\<forall>f. ls_file s = Some f \<longrightarrow> lf_owner f < ls_next s \<and> lf_created f \<le> lf_modified f \<and> lf_modified f \<le> ls_time s) \<and>
     (\<forall>p owner. owner_in (ls_phase s p) = Some owner \<longrightarrow> (\<exists>f. ls_file s = Some f \<and> lf_owner f = owner)) \<and>
     (\<forall>p q a b. owner_in (ls_phase s p) = Some a \<and> owner_in (ls_phase s q) = Some b \<longrightarrow> p = q) \<and>
     (\<forall>p. knows stale s (ls_phase s p))"

lemma lock_invD:
  assumes "lock_inv stale s"
  shows "young stale s"
    and "ls_file s = Some f \<Longrightarrow> lf_owner f < ls_next s \<and> lf_created f \<le> lf_modified f \<and> lf_modified f \<le> ls_time s"
    and "owner_in (ls_phase s p) = Some a \<Longrightarrow> \<exists>f. ls_file s = Some f \<and> lf_owner f = a"
    and "owner_in (ls_phase s p) = Some a \<Longrightarrow> owner_in (ls_phase s q) = Some b \<Longrightarrow> p = q"
    and "knows stale s (ls_phase s p)"
  using assms by (auto simp: lock_inv_def)

lemma lock_invI:
  assumes "young stale s"
    and "\<And>f. ls_file s = Some f \<Longrightarrow> lf_owner f < ls_next s \<and> lf_created f \<le> lf_modified f \<and> lf_modified f \<le> ls_time s"
    and "\<And>p a. owner_in (ls_phase s p) = Some a \<Longrightarrow> \<exists>f. ls_file s = Some f \<and> lf_owner f = a"
    and "\<And>p q a b. owner_in (ls_phase s p) = Some a \<Longrightarrow> owner_in (ls_phase s q) = Some b \<Longrightarrow> p = q"
    and "\<And>p. knows stale s (ls_phase s p)"
  shows "lock_inv stale s"
  unfolding lock_inv_def using assms by blast

lemma lock_inv_start: "lock_inv stale lock_start"
  by (simp add: lock_inv_def lock_start_def young_def)

lemma go_simps [simp]:
  "ls_file (go p ph s) = ls_file s" "ls_time (go p ph s) = ls_time s" "ls_next (go p ph s) = ls_next s"
  "ls_phase (go p ph s) q = (if q = p then ph else ls_phase s q)"
  by (simp_all add: go_def)

lemma knows_cong:
  "ls_file s = ls_file t \<Longrightarrow> ls_next s = ls_next t \<Longrightarrow> knows stale s ph = knows stale t ph"
  by (induction stale s ph rule: knows.induct) auto

text \<open>A step that only changes the phase of one process.\<close>

lemma lock_inv_go:
  assumes "lock_inv stale s" and "knows stale s ph" and "owner_in ph \<in> {None, owner_in (ls_phase s p)}"
  shows "lock_inv stale (go p ph s)"
proof -
  have knows: "knows stale (go p ph s) x = knows stale s x" for x by (rule knows_cong) simp_all
  have owner: "owner_in (ls_phase s q) = Some a" if "owner_in (ls_phase (go p ph s) q) = Some a" for q a
    using that assms(3) by (auto split: if_splits)
  show ?thesis
  proof (rule lock_invI)
    show "young stale (go p ph s)" using lock_invD(1) [OF assms(1)] by (simp add: young_def split: option.splits)
    show "knows stale (go p ph s) (ls_phase (go p ph s) q)" for q
      using assms(2) lock_invD(5) [OF assms(1)] by (simp add: knows)
    show "q = r" if "owner_in (ls_phase (go p ph s) q) = Some a" "owner_in (ls_phase (go p ph s) r) = Some b" for q r a b
      using lock_invD(4) [OF assms(1) owner [OF that(1)] owner [OF that(2)]] .
    show "\<exists>f. ls_file (go p ph s) = Some f \<and> lf_owner f = a" if "owner_in (ls_phase (go p ph s) q) = Some a" for q a
      using lock_invD(3) [OF assms(1) owner [OF that]] unfolding go_simps .
  qed (use lock_invD(2) [OF assms(1)] in \<open>simp_all only: go_simps\<close>)
qed

text \<open>Removing the file of the only owner, who leaves.\<close>

lemma knows_removed: "knows stale s ph \<Longrightarrow> knows stale (remove_lock_file s) ph"
  by (induction stale s ph rule: knows.induct) (auto simp: remove_lock_file_def)

lemma lock_inv_removed:
  assumes inv: "lock_inv stale s" and owner: "owner_in (ls_phase s p) = Some a"
  shows "lock_inv stale (go p Finished (remove_lock_file s))"
proof -
  let ?s = "remove_lock_file s"
  have "knows stale (go p Finished ?s) x" if "knows stale s x" for x
    using knows_removed [OF that] knows_cong [of "go p Finished ?s" ?s stale x] by simp
  moreover have "q = p" if "owner_in (ls_phase s q) = Some b" for q b
    using lock_invD(4) [OF inv owner that] by simp
  ultimately show ?thesis
    using lock_invD(5) [OF inv]
    by (intro lock_invI) (auto simp: young_def remove_lock_file_def split: if_splits)
qed

lemma knows_later:
  assumes "knows stale s ph" and "ls_next s \<le> ls_next t"
    and "\<And>f. ls_file t = Some f \<Longrightarrow>
      (\<exists>g. ls_file s = Some g \<and> lf_owner g = lf_owner f \<and> lf_created g = lf_created f) \<or> ls_next s \<le> lf_owner f"
  shows "knows stale t ph"
  using assms
proof (induction stale s ph rule: knows.induct)
  case (1 stale s owner c)
  then show ?case by (fastforce)
next
  case (2 stale s owner)
  then show ?case by (fastforce)
qed auto

lemma lock_inv_acquire:
  assumes inv: "lock_inv stale s" and phase: "ls_phase s p = Trying" and young: "young stale (try_acquire_lock p s)"
  shows "lock_inv stale (try_acquire_lock p s)"
proof (cases "ls_file s")
  case (Some f)
  then show ?thesis using inv by (auto simp: try_acquire_lock_def intro!: lock_inv_go)
next
  case None
  then have "owner_in (ls_phase s q) = None" for q
    using lock_invD(3) [OF inv, of q] by (cases "owner_in (ls_phase s q)") auto
  moreover have "knows stale (try_acquire_lock p s) x" if "knows stale s x" for x
    by (rule knows_later [OF that]) (simp_all add: try_acquire_lock_def None)
  ultimately have owners: "owner_in (ls_phase (try_acquire_lock p s) q) = (if q = p then Some (ls_next s) else None)"
    and knows: "knows stale (try_acquire_lock p s) (ls_phase (try_acquire_lock p s) q)" for q
    using lock_invD(5) [OF inv, of q] by (simp_all add: try_acquire_lock_def None del: knows.simps(1-3))
  show ?thesis
  proof (rule lock_invI)
    show "young stale (try_acquire_lock p s)" by (rule young)
    show "knows stale (try_acquire_lock p s) (ls_phase (try_acquire_lock p s) q)" for q by (rule knows)
  qed (simp_all add: owners, simp_all add: try_acquire_lock_def None split: if_splits)
qed

lemma lock_inv_fill:
  assumes inv: "lock_inv stale s" and phase: "ls_phase s p = Creating owner"
    and young: "young stale (fill_lock_file p owner s)"
  shows "lock_inv stale (fill_lock_file p owner s)"
proof -
  obtain f where f: "ls_file s = Some f" "lf_owner f = owner"
    using lock_invD(3) [OF inv, of p owner] phase by auto
  have "knows stale (fill_lock_file p owner s) x" if "knows stale s x" for x
    using f by (intro knows_later [OF that]) (auto simp: fill_lock_file_def)
  then have knows: "knows stale (fill_lock_file p owner s) (ls_phase (fill_lock_file p owner s) q)" for q
    using lock_invD(5) [OF inv, of q] by (simp add: fill_lock_file_def)
  have owners: "owner_in (ls_phase (fill_lock_file p owner s) q) = owner_in (ls_phase s q)" for q
    using phase by (simp add: fill_lock_file_def)
  have disk: "ls_file (fill_lock_file p owner s) = Some (f\<lparr>lf_modified := ls_time s, lf_filled := True\<rparr>)"
    "ls_next (fill_lock_file p owner s) = ls_next s" "ls_time (fill_lock_file p owner s) = ls_time s"
    using f by (simp_all add: fill_lock_file_def)
  show ?thesis
  proof (rule lock_invI)
    show "young stale (fill_lock_file p owner s)" by (rule young)
    show "knows stale (fill_lock_file p owner s) (ls_phase (fill_lock_file p owner s) q)" for q by (rule knows)
    show "q = r" if "owner_in (ls_phase (fill_lock_file p owner s) q) = Some x"
      "owner_in (ls_phase (fill_lock_file p owner s) r) = Some y" for q r x y
      using that lock_invD(4) [OF inv] by (simp add: owners)
    show "\<exists>g. ls_file (fill_lock_file p owner s) = Some g \<and> lf_owner g = x"
      if "owner_in (ls_phase (fill_lock_file p owner s) q) = Some x" for q x
      using that lock_invD(3) [OF inv, of q x] f unfolding owners disk(1) by auto
  qed (use lock_invD(2) [OF inv f(1)] in \<open>auto simp: disk\<close>)
qed

lemma lock_inv_stat:
  assumes inv: "lock_inv stale s" and phase: "ls_phase s p = Statting seen"
  shows "lock_inv stale (stat_lock_file stale p seen s)"
proof (cases "ls_file s")
  case None
  then show ?thesis using inv by (auto simp: stat_lock_file_def intro!: lock_inv_go)
next
  case (Some f)
  have f: "ls_time s - lf_created f < stale" "lf_created f \<le> lf_modified f"
    using lock_invD(1) [OF inv] lock_invD(2) [OF inv Some] Some by (auto simp: young_def)
  have knows: "knows stale s (Statting seen)" using lock_invD(5) [OF inv, of p] phase by simp
  show ?thesis
  proof (cases seen)
    case None
    with f Some show ?thesis
      using inv by (auto simp: stat_lock_file_def intro!: lock_inv_go)
  next
    case seen: (Some oc)
    obtain a c where oc: "oc = (a, c)" by (cases oc)
    have "knows stale s (Rereading a)" if "\<not> ls_time s - c < stale"
      using knows that f Some by (auto simp: seen oc)
    with Some show ?thesis
      using inv by (auto simp: stat_lock_file_def seen oc intro!: lock_inv_go)
  qed
qed

lemma lock_inv_step:
  assumes inv: "lock_inv stale s" and young: "young stale (lock_event_step stale e s)"
  shows "lock_inv stale (lock_event_step stale e s)"
proof (cases e)
  case (Advance p)
  have knows: "knows stale s (ls_phase s p)" by (rule lock_invD(5) [OF inv])
  show ?thesis
  proof (cases "ls_phase s p")
    case Reading
    have "knows stale s (Statting (read_lock s))"
      using lock_invD(2) [OF inv] by (auto simp: read_lock_def split: option.splits)
    then show ?thesis using Advance Reading inv by (auto intro!: lock_inv_go)
  next
    case (Rereading a)
    then have "\<not> owned_by a s"
      using knows by (auto simp: owned_by_def read_lock_def split: option.splits if_splits)
    then show ?thesis using Advance Rereading inv by (auto intro!: lock_inv_go)
  qed (use Advance inv young knows in \<open>auto intro: lock_inv_go lock_inv_acquire lock_inv_fill lock_inv_stat lock_inv_removed\<close>)
next
  case (Wait d)
  have "knows stale (lock_event_step stale e s) x = knows stale s x" for x
    using Wait by (intro knows_cong) simp_all
  with Wait young lock_invD(2-5) [OF inv] show ?thesis
    by (intro lock_invI) (fastforce simp del: knows.simps)+
qed (use inv in \<open>auto intro!: lock_inv_go\<close>)

lemma lock_inv_prompt: "prompt stale s \<Longrightarrow> lock_inv stale s"
  by (induction rule: prompt.induct) (auto intro: lock_inv_start lock_inv_step)

text \<open>C6: The lock excludes: as long as no lock file gets as old as the age at which it counts as
  stale, at most one process is between creating the lock and removing it, over every interleaving
  of the processes and their crashes, and the lock file is its own.\<close>

theorem lock_excludes:
  assumes "prompt stale s" and "owner_in (ls_phase s p) = Some a"
  shows "(\<exists>f. ls_file s = Some f \<and> lf_owner f = a) \<and> {q. owner_in (ls_phase s q) \<noteq> None} = {p}"
  using lock_invD(3,4) [OF lock_inv_prompt [OF assms(1)]] assms(2) by blast

fun stays_young :: "int \<Rightarrow> lock_event list \<Rightarrow> lock_state \<Rightarrow> bool" where
  "stays_young stale [] s = True"
| "stays_young stale (e # es) s =
     (young stale (lock_event_step stale e s) \<and> stays_young stale es (lock_event_step stale e s))"

lemma prompt_run: "stays_young stale es lock_start \<Longrightarrow> prompt stale (lock_run stale es)"
proof -
  have "prompt stale (foldl (\<lambda>s e. lock_event_step stale e s) s es)"
    if "prompt stale s" "stays_young stale es s" for s
    using that by (induction es arbitrary: s) (auto intro: prompt.step)
  then show "stays_young stale es lock_start \<Longrightarrow> ?thesis"
    unfolding lock_run_def using prompt.start by blast
qed

definition example_lock_events :: "lock_event list" where
  "example_lock_events = [Enter 0, Advance 0, Enter 1, Advance 1, Advance 0, Wait 3, Advance 1]"

lemma lock_excludes_witness:
  "{q. owner_in (ls_phase (lock_run 10 example_lock_events) q) \<noteq> None} = {0}"
proof -
  have "stays_young 10 example_lock_events lock_start" by code_simp
  then have "prompt 10 (lock_run 10 example_lock_events)" by (rule prompt_run)
  moreover have "owner_in (ls_phase (lock_run 10 example_lock_events) 0) = Some 0" by code_simp
  ultimately show ?thesis using lock_excludes by blast
qed

text \<open>The processes that hold the lock.\<close>

definition holders :: "lock_state \<Rightarrow> nat list \<Rightarrow> nat list" where
  "holders s ps = filter (\<lambda>p. case ls_phase s p of Holding a \<Rightarrow> True | _ \<Rightarrow> False) ps"

text \<open>Process 0 crashes while it holds the lock. Long after, 1 and 2 both find the lock stale and
  both see that it is still there; 1 removes it and takes the lock; then 2 removes what is now the
  lock of 1, and takes it, too.\<close>

definition stale_lock_race :: "lock_event list" where
  "stale_lock_race =
     [Enter 0, Advance 0, Advance 0, Crash 0, Wait 20] @
     concat (map (\<lambda>p. [Enter p, Advance p, Advance p, Advance p, Advance p]) [1, 2]) @
     [Advance 1, Advance 1, Advance 1, Advance 2, Advance 2, Advance 2]"

text \<open>Removing a stale lock is not atomic: after a crash, two processes can hold the lock at
  the same time, each under a lock that is not stale.\<close>

theorem stale_removal_breaks_exclusion:
  "holders (lock_run 10 stale_lock_race) [0, 1, 2] = [1, 2] \<and> young 10 (lock_run 10 stale_lock_race)"
  by code_simp

end
