(* ===== verification/NetworkBuilder.thy ===== *)
theory NetworkBuilder
  imports Complex_Main Json "HOL-Library.Product_Lexorder"
begin

section \<open>The network section of a test report\<close>

text \<open>
  \<^verbatim>\<open>playwright-reporter-llm/src/lib/internal/networkBuilder.ts\<close> with
  \<^verbatim>\<open>networkPriority.ts\<close>, \<^verbatim>\<open>signalFiltering.ts\<close> and the caps of
  \<^verbatim>\<open>constants.ts\<close>. A builder takes the requests a test made one at a time (\<open>admit\<close>), keeps
  a bounded number of instances, of groups of equal requests and of bodies, and gives the report
  (\<open>finalize\<close>), which throws when its own books do not balance.

  The builder's maps are association lists in insertion order; a field updated on an object a map
  holds is an update of the map. Times are rational numbers; \<open>None\<close> stands for an absent offset,
  which the code compares as \<open>Infinity\<close>. SHA-1 is a parameter. A status is an integer.
\<close>

subsection \<open>Caps and priorities\<close>

definition console_messages_cap :: nat where "console_messages_cap = 50"
definition instances_cap :: nat where "instances_cap = 500"
definition groups_cap :: nat where "groups_cap = 200"
definition bodies_cap :: nat where "bodies_cap = 100"
definition duplicate_sample_threshold :: nat where "duplicate_sample_threshold = 3"
definition duplicate_sample_stride :: nat where "duplicate_sample_stride = 10"

definition high_signal_console_entry_types :: "string list" where
  "high_signal_console_entry_types = [''warning'', ''error'', ''pageerror'']"

definition low_signal_resource_types :: "string list" where
  "low_signal_resource_types = [''script'', ''stylesheet'', ''image'', ''font'', ''media'']"

text \<open>The shapes are structural types in the code, records that extend one another here.\<close>

record priority_shape =
  status :: int
  resource_type :: "string option"
  failure_text :: "string option"
  was_aborted :: "bool option"

definition is_word_char :: "char \<Rightarrow> bool" where
  "is_word_char c \<longleftrightarrow>
     is_digit c \<or> (97 \<le> code c \<and> code c \<le> 122) \<or> (65 \<le> code c \<and> code c \<le> 90) \<or> code c = 95"

text \<open>\<open>/^net::ERR_ABORTED\b/i\<close>\<close>

definition aborted_failure_pattern :: "string \<Rightarrow> bool" where
  "aborted_failure_pattern s \<longleftrightarrow>
     starts_with (to_lower s) ''net::err_aborted'' \<and>
     (case drop 16 s of [] \<Rightarrow> True | c # r \<Rightarrow> \<not> is_word_char c)"

definition is_abort_failure_text :: "string option \<Rightarrow> bool" where
  "is_abort_failure_text text' =
     (case text' of None \<Rightarrow> False | Some s \<Rightarrow> aborted_failure_pattern (trim s))"

definition priority_score :: "'a priority_shape_scheme \<Rightarrow> nat" where
  "priority_score s =
     (if 500 \<le> status s then 10
      else if failure_text s \<noteq> None \<and> \<not> is_abort_failure_text (failure_text s) then 9
      else if 400 \<le> status s then 8
      else if resource_type s \<in> {Some ''xhr'', Some ''fetch''} then 6
      else if is_abort_failure_text (failure_text s) \<or> status s = -1 \<or> was_aborted s = Some True then 4
      else case resource_type s of
             None \<Rightarrow> 3
           | Some t \<Rightarrow> if t \<in> set low_signal_resource_types then 1 else 2)"

definition is_low_signal_static_asset :: "'a priority_shape_scheme \<Rightarrow> bool" where
  "is_low_signal_static_asset s \<longleftrightarrow>
     (case resource_type s of None \<Rightarrow> False | Some t \<Rightarrow> t \<in> set low_signal_resource_types) \<and>
     status s < 400 \<and> failure_text s = None \<and> was_aborted s \<noteq> Some True"

subsection \<open>Console messages\<close>

record console_entry =
  entry_type :: string
  entry_text :: string
  entry_offset :: "rat option"

definition is_high_signal_console_entry :: "console_entry \<Rightarrow> bool" where
  "is_high_signal_console_entry e \<longleftrightarrow> entry_type e \<in> set high_signal_console_entry_types"

text \<open>\<open>findIndex\<close>, with \<open>None\<close> for \<open>-1\<close>.\<close>

fun find_index :: "('a \<Rightarrow> bool) \<Rightarrow> 'a list \<Rightarrow> nat option" where
  "find_index p [] = None"
| "find_index p (x # xs) = (if p x then Some 0 else map_option Suc (find_index p xs))"

definition append_console_entry_with_priority ::
  "console_entry \<Rightarrow> console_entry list \<Rightarrow> console_entry list" where
  "append_console_entry_with_priority e es =
     (if length es < console_messages_cap then es @ [e]
      else if \<not> is_high_signal_console_entry e then es
      else case find_index (\<lambda>e. \<not> is_high_signal_console_entry e) es of
             None \<Rightarrow> es
           | Some i \<Rightarrow> take i es @ drop (Suc i) es @ [e])"

subsection \<open>Observations\<close>

record observation_shape = priority_shape +
  req_method :: string
  url :: string

record timing_breakdown =
  send_ms :: "rat option"
  wait_ms :: "rat option"
  receive_ms :: "rat option"
  dns_ms :: "rat option"
  connect_ms :: "rat option"
  ssl_ms :: "rat option"

record observation_instance =
  offset_ms :: "rat option"
  duration_ms :: "rat option"
  timings :: "timing_breakdown option"
  trace_id :: "string option"
  span_id :: "string option"
  request_id :: "string option"
  correlation_id :: "string option"
  redirect_to_url :: "string option"

record observation_body =
  content :: string
  content_type :: "string option"
  truncated :: bool
  body_print :: string

record observation =
  shape :: observation_shape
  instance_of :: observation_instance
  request_body :: "observation_body option"
  response_body :: "observation_body option"

definition null_or :: "('a \<Rightarrow> js) \<Rightarrow> 'a option \<Rightarrow> js" where
  "null_or f x = (case x of None \<Rightarrow> JNull | Some v \<Rightarrow> f v)"

definition shape_json :: "observation_shape \<Rightarrow> js" where
  "shape_json s =
     JArr [JStr (req_method s), JStr (url s), JInt (status s), null_or JStr (resource_type s),
           null_or JStr (failure_text s), null_or JBool (was_aborted s)]"

definition hash_shape :: "(string \<Rightarrow> string) \<Rightarrow> observation_shape \<Rightarrow> string" where
  "hash_shape sha1 s = sha1 (the (stringify (shape_json s)))"

definition hash_body :: "(string \<Rightarrow> string) \<Rightarrow> string \<Rightarrow> string option \<Rightarrow> string" where
  "hash_body sha1 c t = sha1 (the (stringify (JArr [JStr c, null_or JStr t])))"

subsection \<open>The builder's state\<close>

record network_instance =
  inst_id :: string
  inst_group :: string
  inst_method :: string
  inst_url :: string
  inst_status :: int
  inst_offset :: "rat option"
  inst_duration :: "rat option"
  inst_timings :: "timing_breakdown option"
  inst_trace_id :: "string option"
  inst_span_id :: "string option"
  inst_request_id :: "string option"
  inst_correlation_id :: "string option"
  request_body_ref :: "string option"
  response_body_ref :: "string option"
  redirect_from_id :: "string option"
  redirect_to_id :: "string option"

record network_group = observation_shape +
  group_id :: string
  occurrence_count :: nat
  retained_count :: nat
  suppressed_count :: nat
  evicted_count :: nat
  first_offset :: "rat option"
  last_offset :: "rat option"
  fingerprint :: string

record network_body =
  body_id :: string
  body_content :: string
  body_type :: "string option"
  body_truncated :: bool
  canonicalized :: bool
  body_fingerprint :: string

record network_summary =
  observed_instances :: nat
  retained_instances :: nat
  retained_groups :: nat
  retained_bodies :: nat
  dropped_by_filter :: nat
  dropped_by_group_cap :: nat
  dropped_by_instance_cap :: nat
  suppressed_as_duplicate :: nat
  evicted_after_admission :: nat
  bodies_omitted :: nat
  bodies_truncated :: nat
  bodies_canonicalized :: nat

record shape_metadata =
  meta_first :: "rat option"
  meta_last :: "rat option"
  post_filter_count :: nat

record builder =
  next_group :: nat
  next_instance :: nat
  next_body :: nat
  sequence_counter :: nat
  instances :: "(string, network_instance) js_map"
  groups :: "(string, network_group) js_map"
  bodies :: "(string, network_body) js_map"
  group_of_print :: "(string, string) js_map"
  body_of_hash :: "(string, string) js_map"
  metadata :: "(string, shape_metadata) js_map"
  body_ref_counts :: "(string, int) js_map"
  group_index :: "(string, string list) js_map"
  instance_sequence :: "(string, nat) js_map"
  instance_redirect :: "(string, string) js_map"
  summary :: network_summary

definition empty_summary :: network_summary where
  "empty_summary =
     \<lparr>observed_instances = 0, retained_instances = 0, retained_groups = 0, retained_bodies = 0,
      dropped_by_filter = 0, dropped_by_group_cap = 0, dropped_by_instance_cap = 0,
      suppressed_as_duplicate = 0, evicted_after_admission = 0, bodies_omitted = 0,
      bodies_truncated = 0, bodies_canonicalized = 0\<rparr>"

definition new_builder :: builder where
  "new_builder =
     \<lparr>next_group = 0, next_instance = 0, next_body = 0, sequence_counter = 0,
      instances = [], groups = [], bodies = [], group_of_print = [], body_of_hash = [],
      metadata = [], body_ref_counts = [], group_index = [], instance_sequence = [],
      instance_redirect = [], summary = empty_summary\<rparr>"

text \<open>\<open>this.summary.<field> += 1\<close>, and a change to the group a map holds.\<close>

definition on_summary :: "(network_summary \<Rightarrow> network_summary) \<Rightarrow> builder \<Rightarrow> builder" where
  "on_summary f b = b\<lparr>summary := f (summary b)\<rparr>"

definition on_group :: "string \<Rightarrow> (network_group \<Rightarrow> network_group) \<Rightarrow> builder \<Rightarrow> builder" where
  "on_group g f b =
     (case map_get (groups b) g of
        None \<Rightarrow> b
      | Some G \<Rightarrow> b\<lparr>groups := map_set g (f G) (groups b)\<rparr>)"

definition on_instance :: "string \<Rightarrow> (network_instance \<Rightarrow> network_instance) \<Rightarrow> builder \<Rightarrow> builder" where
  "on_instance i f b =
     (case map_get (instances b) i of
        None \<Rightarrow> b
      | Some x \<Rightarrow> b\<lparr>instances := map_set i (f x) (instances b)\<rparr>)"

subsection \<open>Removing\<close>

definition decrement_body_ref :: "string option \<Rightarrow> builder \<Rightarrow> builder" where
  "decrement_body_ref bid b =
     (case bid of
        None \<Rightarrow> b
      | Some i \<Rightarrow>
          let left = (case map_get (body_ref_counts b) i of None \<Rightarrow> 0 | Some n \<Rightarrow> n) - 1 in
          if left \<le> 0
          then b\<lparr>body_ref_counts := map_delete i (body_ref_counts b),
                 bodies := map_delete i (bodies b),
                 body_of_hash :=
                   (case map_get (bodies b) i of
                      None \<Rightarrow> body_of_hash b
                    | Some x \<Rightarrow> map_delete (body_fingerprint x) (body_of_hash b))\<rparr>
          else b\<lparr>body_ref_counts := map_set i left (body_ref_counts b)\<rparr>)"

text \<open>The maps of the builder that know a group forget it.\<close>

definition forget_group :: "string \<Rightarrow> builder \<Rightarrow> builder" where
  "forget_group g b =
     (case map_get (groups b) g of
        None \<Rightarrow> b
      | Some G \<Rightarrow>
          b\<lparr>groups := map_delete g (groups b),
            group_of_print := map_delete (fingerprint G) (group_of_print b),
            metadata := map_delete (fingerprint G) (metadata b)\<rparr>)"

definition detach_instance :: "string \<Rightarrow> network_instance \<Rightarrow> builder \<Rightarrow> builder" where
  "detach_instance i x b =
     (let g = inst_group x in
      b\<lparr>instances := map_delete i (instances b),
        instance_sequence := map_delete i (instance_sequence b),
        instance_redirect := map_delete i (instance_redirect b),
        group_index :=
          (case map_get (group_index b) g of
             None \<Rightarrow> group_index b
           | Some ids \<Rightarrow> map_set g (removeAll i ids) (group_index b))\<rparr>)"

definition count_eviction :: "string \<Rightarrow> builder \<Rightarrow> builder" where
  "count_eviction g b =
     on_summary (\<lambda>s. s\<lparr>evicted_after_admission := evicted_after_admission s + 1\<rparr>)
       (on_group g (\<lambda>G. G\<lparr>evicted_count := evicted_count G + 1\<rparr>) b)"

definition remove_instance :: "string \<Rightarrow> bool \<Rightarrow> bool \<Rightarrow> builder \<Rightarrow> builder" where
  "remove_instance i count_as_eviction skip_cleanup b =
     (case map_get (instances b) i of
        None \<Rightarrow> b
      | Some x \<Rightarrow>
          let g = inst_group x;
              b1 = detach_instance i x (if count_as_eviction then count_eviction g b else b);
              b2 = decrement_body_ref (response_body_ref x) (decrement_body_ref (request_body_ref x) b1)
          in if \<not> skip_cleanup \<and> map_get (group_index b2) g = Some []
             then (forget_group g b2)\<lparr>group_index := map_delete g (group_index b2)\<rparr>
             else b2)"

definition remove_group :: "string \<Rightarrow> bool \<Rightarrow> builder \<Rightarrow> builder" where
  "remove_group g count_cascaded b =
     (case map_get (groups b) g of
        None \<Rightarrow> b
      | Some G \<Rightarrow>
          let ids = (case map_get (group_index b) g of None \<Rightarrow> [] | Some ids \<Rightarrow> ids);
              b1 = foldl (\<lambda>b i. remove_instance i count_cascaded True b) b ids
          in b1\<lparr>groups := map_delete g (groups b1),
                group_of_print := map_delete (fingerprint G) (group_of_print b1),
                metadata := map_delete (fingerprint G) (metadata b1),
                group_index := map_delete g (group_index b1)\<rparr>)"

subsection \<open>Evicting\<close>

text \<open>An absent offset is \<open>Infinity\<close>.\<close>

fun offset_less :: "rat option \<Rightarrow> rat option \<Rightarrow> bool" where
  "offset_less None y = False"
| "offset_less (Some a) None = True"
| "offset_less (Some a) (Some b) = (a < b)"

definition group_offset :: "builder \<Rightarrow> network_group \<Rightarrow> rat option" where
  "group_offset b G =
     (case map_get (metadata b) (fingerprint G) of None \<Rightarrow> None | Some m \<Rightarrow> meta_first m)"

text \<open>The loop's variables are \<open>None\<close> while they still are \<open>Infinity\<close> and \<open>undefined\<close>.\<close>

definition lower_group ::
  "builder \<Rightarrow> (string \<times> nat \<times> rat option) option \<Rightarrow> string \<times> network_group \<Rightarrow>
   (string \<times> nat \<times> rat option) option" where
  "lower_group b low p =
     (let score = priority_score (snd p); first = group_offset b (snd p) in
      case low of
        None \<Rightarrow> Some (fst p, score, first)
      | Some (g, s, f) \<Rightarrow>
          if score < s \<or> (score = s \<and> offset_less first f) then Some (fst p, score, first) else low)"

definition evict_lowest_priority_group :: "'a priority_shape_scheme \<Rightarrow> builder \<Rightarrow> bool \<times> builder" where
  "evict_lowest_priority_group incoming b =
     (case foldl (lower_group b) None (groups b) of
        None \<Rightarrow> (False, b)
      | Some (g, score, first) \<Rightarrow>
          if priority_score incoming \<le> score then (False, b) else (True, remove_group g True b))"

definition lower_instance ::
  "builder \<Rightarrow> (string \<times> nat \<times> rat option \<times> nat option) option \<Rightarrow> string \<times> network_instance \<Rightarrow>
   (string \<times> nat \<times> rat option \<times> nat option) option" where
  "lower_instance b low p =
     (case map_get (groups b) (inst_group (snd p)) of
        None \<Rightarrow> low
      | Some G \<Rightarrow>
          let score = priority_score G; off = inst_offset (snd p);
              sq = map_get (instance_sequence b) (fst p)
          in case low of
               None \<Rightarrow> Some (fst p, score, off, sq)
             | Some (i, s, f, n) \<Rightarrow>
                 if score < s \<or> (score = s \<and> offset_less off f) \<or>
                    (score = s \<and> off = f \<and> offset_less (map_option of_nat sq) (map_option of_nat n))
                 then Some (fst p, score, off, sq) else low)"

definition evict_lowest_priority_instance :: "'a priority_shape_scheme \<Rightarrow> builder \<Rightarrow> bool \<times> builder" where
  "evict_lowest_priority_instance incoming b =
     (case foldl (lower_instance b) None (instances b) of
        None \<Rightarrow> (False, b)
      | Some (i, score, off, sq) \<Rightarrow>
          if priority_score incoming \<le> score then (False, b) else (True, remove_instance i True False b))"

subsection \<open>Committing\<close>

definition commit_group ::
  "string \<Rightarrow> observation_shape \<Rightarrow> rat option \<Rightarrow> builder \<Rightarrow> string \<times> builder" where
  "commit_group fp s off b =
     (let g = ''g'' @ show_int (int (next_group b));
          G = \<lparr>status = status s, resource_type = resource_type s, failure_text = failure_text s,
               was_aborted = was_aborted s, req_method = req_method s, url = url s, group_id = g,
               occurrence_count = 0, retained_count = 0, suppressed_count = 0, evicted_count = 0,
               first_offset = None, last_offset = None, fingerprint = fp\<rparr>
      in (g, b\<lparr>next_group := next_group b + 1,
               groups := map_set g G (groups b),
               group_of_print := map_set fp g (group_of_print b),
               group_index := map_set g [] (group_index b),
               metadata :=
                 map_set fp \<lparr>meta_first = off, meta_last = off, post_filter_count = 1\<rparr> (metadata b)\<rparr>))"

definition new_instance ::
  "string \<Rightarrow> string \<Rightarrow> observation_shape \<Rightarrow> observation_instance \<Rightarrow> network_instance" where
  "new_instance i g s x =
     \<lparr>inst_id = i, inst_group = g, inst_method = req_method s, inst_url = url s, inst_status = status s,
      inst_offset = offset_ms x, inst_duration = duration_ms x, inst_timings = timings x,
      inst_trace_id = trace_id x, inst_span_id = span_id x, inst_request_id = request_id x,
      inst_correlation_id = correlation_id x, request_body_ref = None, response_body_ref = None,
      redirect_from_id = None, redirect_to_id = None\<rparr>"

definition commit_instance ::
  "string \<Rightarrow> observation_shape \<Rightarrow> observation_instance \<Rightarrow> builder \<Rightarrow> string \<times> builder" where
  "commit_instance g s x b =
     (let i = ''n'' @ show_int (int (next_instance b));
          sq = sequence_counter b + 1;
          ids = (case map_get (group_index b) g of None \<Rightarrow> [] | Some ids \<Rightarrow> ids)
      in (i, on_group g (\<lambda>G. G\<lparr>occurrence_count := occurrence_count G + 1\<rparr>)
               (b\<lparr>next_instance := next_instance b + 1,
                  sequence_counter := sq,
                  instances := map_set i (new_instance i g s x) (instances b),
                  instance_sequence := map_set i sq (instance_sequence b),
                  instance_redirect :=
                    (case redirect_to_url x of
                       None \<Rightarrow> instance_redirect b
                     | Some u \<Rightarrow> map_set i u (instance_redirect b)),
                  group_index := map_set g (set_add i ids) (group_index b)\<rparr>)))"

definition resolve_or_admit_body :: "observation_body \<Rightarrow> builder \<Rightarrow> string option \<times> builder" where
  "resolve_or_admit_body x b =
     (case map_get (body_of_hash b) (body_print x) of
        Some i \<Rightarrow>
          (Some i,
           b\<lparr>body_ref_counts :=
               map_set i ((case map_get (body_ref_counts b) i of None \<Rightarrow> 0 | Some n \<Rightarrow> n) + 1)
                 (body_ref_counts b)\<rparr>)
      | None \<Rightarrow>
          if bodies_cap \<le> length (bodies b)
          then (None, on_summary (\<lambda>s. s\<lparr>bodies_omitted := bodies_omitted s + 1\<rparr>) b)
          else
            let i = ''b'' @ show_int (int (next_body b));
                r = \<lparr>body_id = i, body_content = content x, body_type = content_type x,
                     body_truncated = truncated x, canonicalized = False,
                     body_fingerprint = body_print x\<rparr>;
                b1 = b\<lparr>next_body := next_body b + 1,
                       bodies := map_set i r (bodies b),
                       body_of_hash := map_set (body_print x) i (body_of_hash b),
                       body_ref_counts := map_set i 1 (body_ref_counts b)\<rparr>
            in (Some i,
                if truncated x
                then on_summary (\<lambda>s. s\<lparr>bodies_truncated := bodies_truncated s + 1\<rparr>) b1 else b1))"

definition commit_body ::
  "observation_body option \<Rightarrow> (string \<Rightarrow> network_instance \<Rightarrow> network_instance) \<Rightarrow> string \<Rightarrow> builder \<Rightarrow> builder" where
  "commit_body x set_ref i b =
     (case x of
        None \<Rightarrow> b
      | Some body \<Rightarrow>
          (case resolve_or_admit_body body b of
             (None, b1) \<Rightarrow> b1
           | (Some bid, b1) \<Rightarrow> on_instance i (set_ref bid) b1))"

definition commit_bodies :: "string \<Rightarrow> observation \<Rightarrow> builder \<Rightarrow> builder" where
  "commit_bodies i obs b =
     (case map_get (instances b) i of
        None \<Rightarrow> b
      | Some x \<Rightarrow>
          commit_body (response_body obs) (\<lambda>bid x. x\<lparr>response_body_ref := Some bid\<rparr>) i
            (commit_body (request_body obs) (\<lambda>bid x. x\<lparr>request_body_ref := Some bid\<rparr>) i b))"

subsection \<open>Admitting\<close>

definition widen :: "(rat \<Rightarrow> rat \<Rightarrow> rat) \<Rightarrow> rat option \<Rightarrow> rat \<Rightarrow> rat option" where
  "widen f old t = (case old of None \<Rightarrow> Some t | Some u \<Rightarrow> Some (f u t))"

definition observe_again :: "rat option \<Rightarrow> shape_metadata \<Rightarrow> shape_metadata" where
  "observe_again off m =
     (case off of
        None \<Rightarrow> m
      | Some t \<Rightarrow> m\<lparr>meta_first := widen min (meta_first m) t, meta_last := widen max (meta_last m) t\<rparr>)
     \<lparr>post_filter_count := post_filter_count m + 1\<rparr>"

definition note_duplicate :: "string \<Rightarrow> rat option \<Rightarrow> builder \<Rightarrow> builder" where
  "note_duplicate fp off b =
     (case map_get (metadata b) fp of
        None \<Rightarrow> b
      | Some m \<Rightarrow> b\<lparr>metadata := map_set fp (observe_again off m) (metadata b)\<rparr>)"

definition is_suppressed :: "nat \<Rightarrow> bool" where
  "is_suppressed k \<longleftrightarrow>
     duplicate_sample_threshold < k \<and>
     (k - duplicate_sample_threshold) mod duplicate_sample_stride \<noteq> 0"

definition suppress :: "string \<Rightarrow> builder \<Rightarrow> builder" where
  "suppress g b =
     on_summary (\<lambda>s. s\<lparr>suppressed_as_duplicate := suppressed_as_duplicate s + 1\<rparr>)
       (on_group g (\<lambda>G. G\<lparr>suppressed_count := suppressed_count G + 1,
                          occurrence_count := occurrence_count G + 1\<rparr>) b)"

text \<open>The end of \<open>admit\<close>, after the guards on duplicates and groups.\<close>

definition commit :: "string \<Rightarrow> string option \<Rightarrow> observation \<Rightarrow> builder \<Rightarrow> builder" where
  "commit fp existing obs b =
     (let (g, b1) = (case existing of
                       Some g \<Rightarrow> (g, b)
                     | None \<Rightarrow> commit_group fp (shape obs) (offset_ms (instance_of obs)) b);
          (i, b2) = commit_instance g (shape obs) (instance_of obs) b1
      in commit_bodies i obs b2)"

definition admit_instance :: "string \<Rightarrow> string option \<Rightarrow> observation \<Rightarrow> builder \<Rightarrow> builder" where
  "admit_instance fp existing obs b =
     (if instances_cap \<le> length (instances b)
      then (case evict_lowest_priority_instance (shape obs) b of
              (False, b1) \<Rightarrow>
                on_summary (\<lambda>s. s\<lparr>dropped_by_instance_cap := dropped_by_instance_cap s + 1\<rparr>) b1
            | (True, b1) \<Rightarrow> commit fp existing obs b1)
      else commit fp existing obs b)"

definition admit :: "(string \<Rightarrow> string) \<Rightarrow> observation \<Rightarrow> builder \<Rightarrow> builder" where
  "admit sha1 obs b0 =
     (let b = on_summary (\<lambda>s. s\<lparr>observed_instances := observed_instances s + 1\<rparr>) b0;
          s = shape obs
      in if is_low_signal_static_asset s
         then on_summary (\<lambda>s. s\<lparr>dropped_by_filter := dropped_by_filter s + 1\<rparr>) b
         else
           let fp = hash_shape sha1 s in
           case map_get (group_of_print b) fp of
             Some g \<Rightarrow>
               let b1 = note_duplicate fp (offset_ms (instance_of obs)) b;
                   k = (case map_get (metadata b1) fp of None \<Rightarrow> 1 | Some m \<Rightarrow> post_filter_count m)
               in if is_suppressed k then suppress g b1 else admit_instance fp (Some g) obs b1
           | None \<Rightarrow>
               if groups_cap \<le> length (groups b)
               then (case evict_lowest_priority_group s b of
                       (False, b1) \<Rightarrow>
                         on_summary (\<lambda>s. s\<lparr>dropped_by_group_cap := dropped_by_group_cap s + 1\<rparr>) b1
                     | (True, b1) \<Rightarrow> admit_instance fp None obs b1)
               else admit_instance fp None obs b)"

subsection \<open>Finalizing\<close>

text \<open>The comparator of \<open>sortInstances\<close> orders by offset, an absent one last, then by sequence.\<close>

definition temporal_key :: "builder \<Rightarrow> string \<times> network_instance \<Rightarrow> bool \<times> rat \<times> nat" where
  "temporal_key b p =
     (inst_offset (snd p) = None,
      (case inst_offset (snd p) of None \<Rightarrow> 0 | Some t \<Rightarrow> t),
      (case map_get (instance_sequence b) (fst p) of None \<Rightarrow> 0 | Some n \<Rightarrow> n))"

definition sort_instances :: "builder \<Rightarrow> builder" where
  "sort_instances b = b\<lparr>instances := sort_key (temporal_key b) (instances b)\<rparr>"

definition redirects_to :: "string \<Rightarrow> network_instance \<Rightarrow> bool" where
  "redirects_to u x \<longleftrightarrow> inst_url x = u \<and> redirect_from_id x = None"

fun link_redirects :: "(string, string) js_map \<Rightarrow> network_instance list \<Rightarrow> network_instance list" where
  "link_redirects m [] = []"
| "link_redirects m (x # xs) =
     (case map_get m (inst_id x) of
        None \<Rightarrow> x # link_redirects m xs
      | Some u \<Rightarrow>
          if u = [] then x # link_redirects m xs
          else case find_index (redirects_to u) xs of
                 None \<Rightarrow> x # link_redirects m xs
               | Some k \<Rightarrow>
                   x\<lparr>redirect_to_id := Some (inst_id (xs ! k))\<rparr> #
                   link_redirects m (xs[k := (xs ! k)\<lparr>redirect_from_id := Some (inst_id x)\<rparr>]))"

definition annotate_redirects :: "builder \<Rightarrow> builder" where
  "annotate_redirects b =
     b\<lparr>instances :=
         zip (map_keys (instances b)) (link_redirects (instance_redirect b) (map_values (instances b)))\<rparr>"

definition group_retained_counts :: "network_instance list \<Rightarrow> (string, nat) js_map" where
  "group_retained_counts xs =
     foldl (\<lambda>m x. map_set (inst_group x)
                    ((case map_get m (inst_group x) of None \<Rightarrow> 0 | Some n \<Rightarrow> n) + 1) m) [] xs"

definition finish_group :: "builder \<Rightarrow> (string, nat) js_map \<Rightarrow> network_group \<Rightarrow> network_group" where
  "finish_group b counts G =
     (let G1 = G\<lparr>retained_count := (case map_get counts (group_id G) of None \<Rightarrow> 0 | Some n \<Rightarrow> n)\<rparr> in
      case map_get (metadata b) (fingerprint G) of
        None \<Rightarrow> G1
      | Some m \<Rightarrow>
          G1\<lparr>first_offset := (case meta_first m of None \<Rightarrow> first_offset G1 | Some t \<Rightarrow> Some t),
             last_offset := (case meta_last m of None \<Rightarrow> last_offset G1 | Some t \<Rightarrow> Some t)\<rparr>)"

definition settle_builder :: "builder \<Rightarrow> builder" where
  "settle_builder b0 =
     (let b = annotate_redirects (sort_instances b0);
          counts = group_retained_counts (map_values (instances b))
      in b\<lparr>summary := (summary b)\<lparr>retained_instances := length (instances b),
                                  retained_groups := length (groups b),
                                  retained_bodies := length (bodies b)\<rparr>,
           groups := map (\<lambda>(g, G). (g, finish_group b counts G)) (groups b)\<rparr>)"

datatype invariant_error =
    ObservedMismatch nat nat
  | GroupMismatch string nat nat

definition invariant_message :: "invariant_error \<Rightarrow> string" where
  "invariant_message e =
     (case e of
        ObservedMismatch seen counted \<Rightarrow>
          ''NetworkBuilder invariant: observedInstances '' @ show_int (int seen) @
          '' !== sum of terminal buckets '' @ show_int (int counted)
      | GroupMismatch g n expected \<Rightarrow>
          ''NetworkBuilder invariant: group '' @ g @ '' occurrenceCount '' @ show_int (int n) @
          '' !== retained+suppressed+evicted '' @ show_int (int expected))"

definition total_accounted :: "network_summary \<Rightarrow> nat" where
  "total_accounted s =
     retained_instances s + dropped_by_filter s + dropped_by_group_cap s +
     dropped_by_instance_cap s + suppressed_as_duplicate s + evicted_after_admission s"

definition expected_count :: "network_group \<Rightarrow> nat" where
  "expected_count G = retained_count G + suppressed_count G + evicted_count G"

definition assert_invariants :: "builder \<Rightarrow> invariant_error option" where
  "assert_invariants b =
     (if total_accounted (summary b) \<noteq> observed_instances (summary b)
      then Some (ObservedMismatch (observed_instances (summary b)) (total_accounted (summary b)))
      else case find (\<lambda>G. expected_count G \<noteq> occurrence_count G) (map_values (groups b)) of
             None \<Rightarrow> None
           | Some G \<Rightarrow> Some (GroupMismatch (group_id G) (occurrence_count G) (expected_count G)))"

record network_report =
  report_summary :: network_summary
  report_instances :: "network_instance list"
  report_groups :: "(string, network_group) js_map"
  report_bodies :: "(string, network_body) js_map"

definition finalize :: "builder \<Rightarrow> string + network_report" where
  "finalize b0 =
     (let b = settle_builder b0 in
      case assert_invariants b of
        Some e \<Rightarrow> Inl (invariant_message e)
      | None \<Rightarrow>
          Inr \<lparr>report_summary = summary b, report_instances = map_values (instances b),
               report_groups = groups b, report_bodies = bodies b\<rparr>)"

definition build_report :: "(string \<Rightarrow> string) \<Rightarrow> observation list \<Rightarrow> string + network_report" where
  "build_report sha1 obs = finalize (foldl (\<lambda>b x. admit sha1 x b) new_builder obs)"

end
