(* ===== verification/NetworkAccounting.thy ===== *)
theory NetworkAccounting
  imports NetworkBuilder
begin

section \<open>The books of the network builder balance\<close>

text \<open>
  The invariant of the builder of \<^verbatim>\<open>networkBuilder.ts\<close>, in parts: the keys of its maps are
  distinct and fresh ids stay fresh; groups, fingerprints, the group index and the instances point
  at each other; the counts of a group add up; the reference counts of the bodies are exact. Each
  operation keeps each part, so the two checks of \<open>assertInvariants\<close> never fail and the caps hold.
\<close>

subsection \<open>The parts of the invariant\<close>

abbreviation instance_at :: "builder \<Rightarrow> string \<Rightarrow> network_instance option" where
  "instance_at b \<equiv> map_of (instances b)"

abbreviation group_at :: "builder \<Rightarrow> string \<Rightarrow> network_group option" where
  "group_at b \<equiv> map_of (groups b)"

abbreviation index_at :: "builder \<Rightarrow> string \<Rightarrow> string list option" where
  "index_at b \<equiv> map_of (group_index b)"

definition numbered :: "char \<Rightarrow> nat \<Rightarrow> string" where
  "numbered c n = c # show_int (int n)"

lemma numbered_inj [simp]: "numbered c m = numbered c n \<longleftrightarrow> m = n"
  by (simp add: numbered_def show_nat_inj)

lemma numbered_Suc: "numbered c ` {..<Suc n} = insert (numbered c n) (numbered c ` {..<n})"
  by (simp add: lessThan_Suc)

lemma numbered_fold: "[c] @ show_int (int n) = numbered c n"
  by (simp add: numbered_def)

definition keys_ok :: "builder \<Rightarrow> bool" where
  "keys_ok b \<longleftrightarrow>
     distinct (map_keys (instances b)) \<and> distinct (map_keys (groups b)) \<and> distinct (map_keys (bodies b))"

definition fresh_ok :: "builder \<Rightarrow> bool" where
  "fresh_ok b \<longleftrightarrow>
     dom (instance_at b) \<subseteq> numbered CHR ''n'' ` {..<next_instance b} \<and>
     dom (group_at b) \<subseteq> numbered CHR ''g'' ` {..<next_group b} \<and>
     dom (map_of (bodies b)) \<subseteq> numbered CHR ''b'' ` {..<next_body b}"

definition links_ok :: "builder \<Rightarrow> bool" where
  "links_ok b \<longleftrightarrow>
     (\<forall>i x. instance_at b i = Some x \<longrightarrow>
        inst_id x = i \<and> (\<exists>ids. index_at b (inst_group x) = Some ids \<and> i \<in> set ids)) \<and>
     (\<forall>g ids. index_at b g = Some ids \<longrightarrow>
        distinct ids \<and> g \<in> dom (group_at b) \<and>
        (\<forall>i \<in> set ids. \<exists>x. instance_at b i = Some x \<and> inst_group x = g)) \<and>
     dom (group_at b) \<subseteq> dom (index_at b)"

definition prints_ok :: "builder \<Rightarrow> bool" where
  "prints_ok b \<longleftrightarrow>
     (\<forall>fp g. map_of (group_of_print b) fp = Some g \<longleftrightarrow>
        (\<exists>G. group_at b g = Some G \<and> fingerprint G = fp)) \<and>
     (\<forall>g G. group_at b g = Some G \<longrightarrow> group_id G = g)"

definition group_shape :: "network_group \<Rightarrow> observation_shape" where
  "group_shape G = observation_shape.truncate G"

definition shapes_ok :: "(string \<Rightarrow> string) \<Rightarrow> observation_shape set \<Rightarrow> builder \<Rightarrow> bool" where
  "shapes_ok sha1 S b \<longleftrightarrow>
     (\<forall>g G. group_at b g = Some G \<longrightarrow>
        group_shape G \<in> S \<and> fingerprint G = hash_shape sha1 (group_shape G))"

definition in_group :: "builder \<Rightarrow> string \<Rightarrow> nat" where
  "in_group b g = value_sum (\<lambda>x. of_bool (inst_group x = g)) (instances b)"

definition counts_ok :: "builder \<Rightarrow> bool" where
  "counts_ok b \<longleftrightarrow>
     (\<forall>g G. group_at b g = Some G \<longrightarrow>
        occurrence_count G = in_group b g + suppressed_count G + evicted_count G)"

text \<open>\<open>bodies_ok r b\<close>: the reference counts are \<open>r\<close>. It is stated for an arbitrary \<open>r\<close> because
  an operation changes the counts and the references one after the other.\<close>

definition references :: "string \<Rightarrow> network_instance \<Rightarrow> nat" where
  "references bid x =
     of_bool (request_body_ref x = Some bid) + of_bool (response_body_ref x = Some bid)"

definition referenced :: "builder \<Rightarrow> string \<Rightarrow> nat" where
  "referenced b bid = value_sum (references bid) (instances b)"

definition bodies_ok :: "(string \<Rightarrow> nat) \<Rightarrow> builder \<Rightarrow> bool" where
  "bodies_ok r b \<longleftrightarrow>
     (\<forall>i. map_of (body_ref_counts b) i = (if 0 < r i then Some (int (r i)) else None)) \<and>
     (\<forall>i. i \<in> dom (map_of (bodies b)) \<longleftrightarrow> 0 < r i) \<and>
     (\<forall>h i. map_of (body_of_hash b) h = Some i \<longleftrightarrow>
        (\<exists>x. map_of (bodies b) i = Some x \<and> body_fingerprint x = h)) \<and>
     (\<forall>i x. map_of (bodies b) i = Some x \<longrightarrow> body_id x = i)"

definition filled_but :: "string set \<Rightarrow> builder \<Rightarrow> bool" where
  "filled_but A b \<longleftrightarrow> (\<forall>g. g \<notin> A \<longrightarrow> index_at b g \<noteq> Some [])"

definition unlinked :: "network_instance \<Rightarrow> bool" where
  "unlinked x \<longleftrightarrow> redirect_from_id x = None \<and> redirect_to_id x = None"

definition plain_instances :: "builder \<Rightarrow> bool" where
  "plain_instances b \<longleftrightarrow> (\<forall>i x. instance_at b i = Some x \<longrightarrow> unlinked x)"

definition caps_ok :: "builder \<Rightarrow> bool" where
  "caps_ok b \<longleftrightarrow>
     length (instances b) \<le> instances_cap \<and> length (groups b) \<le> groups_cap \<and>
     length (bodies b) \<le> bodies_cap"

definition accounted :: "builder \<Rightarrow> nat" where
  "accounted b =
     length (instances b) + dropped_by_filter (summary b) + dropped_by_group_cap (summary b) +
     dropped_by_instance_cap (summary b) + suppressed_as_duplicate (summary b) +
     evicted_after_admission (summary b)"

text \<open>What every operation on a builder keeps, whether an instance is being added or not.\<close>

definition sound :: "(string \<Rightarrow> string) \<Rightarrow> observation_shape set \<Rightarrow> builder \<Rightarrow> bool" where
  "sound sha1 S b \<longleftrightarrow>
     keys_ok b \<and> fresh_ok b \<and> links_ok b \<and> prints_ok b \<and> shapes_ok sha1 S b \<and> counts_ok b \<and>
     plain_instances b"

lemmas sound_parts =
  keys_ok_def fresh_ok_def links_ok_def prints_ok_def shapes_ok_def counts_ok_def plain_instances_def

subsection \<open>Frames\<close>

lemma on_summary_frame [simp]:
  "instances (on_summary f b) = instances b" "groups (on_summary f b) = groups b"
  "bodies (on_summary f b) = bodies b" "group_of_print (on_summary f b) = group_of_print b"
  "body_of_hash (on_summary f b) = body_of_hash b" "metadata (on_summary f b) = metadata b"
  "body_ref_counts (on_summary f b) = body_ref_counts b" "group_index (on_summary f b) = group_index b"
  "instance_sequence (on_summary f b) = instance_sequence b"
  "instance_redirect (on_summary f b) = instance_redirect b"
  "next_instance (on_summary f b) = next_instance b" "next_group (on_summary f b) = next_group b"
  "next_body (on_summary f b) = next_body b" "sequence_counter (on_summary f b) = sequence_counter b"
  "summary (on_summary f b) = f (summary b)"
  by (simp_all add: on_summary_def)

lemma on_group_frame [simp]:
  "instances (on_group g f b) = instances b" "bodies (on_group g f b) = bodies b"
  "group_of_print (on_group g f b) = group_of_print b" "body_of_hash (on_group g f b) = body_of_hash b"
  "metadata (on_group g f b) = metadata b" "body_ref_counts (on_group g f b) = body_ref_counts b"
  "group_index (on_group g f b) = group_index b"
  "instance_sequence (on_group g f b) = instance_sequence b"
  "instance_redirect (on_group g f b) = instance_redirect b"
  "next_instance (on_group g f b) = next_instance b" "next_group (on_group g f b) = next_group b"
  "next_body (on_group g f b) = next_body b" "sequence_counter (on_group g f b) = sequence_counter b"
  "summary (on_group g f b) = summary b"
  by (simp_all add: on_group_def split: option.splits)

lemma group_at_on_group [simp]:
  "group_at (on_group g f b) h = (if h = g then map_option f (group_at b g) else group_at b h)"
  by (simp add: on_group_def split: option.splits)

lemma keys_on_group [simp]: "map_keys (groups (on_group g f b)) = map_keys (groups b)"
  by (auto simp: on_group_def dest: map_of_SomeD split: option.splits intro!: keys_update_mem mem_keys)

lemma length_on_group [simp]: "length (groups (on_group g f b)) = length (groups b)"
  by (metis keys_on_group length_map)

lemma decrement_frame [simp]:
  "instances (decrement_body_ref r b) = instances b" "groups (decrement_body_ref r b) = groups b"
  "group_of_print (decrement_body_ref r b) = group_of_print b"
  "metadata (decrement_body_ref r b) = metadata b" "group_index (decrement_body_ref r b) = group_index b"
  "instance_sequence (decrement_body_ref r b) = instance_sequence b"
  "instance_redirect (decrement_body_ref r b) = instance_redirect b"
  "next_instance (decrement_body_ref r b) = next_instance b"
  "next_group (decrement_body_ref r b) = next_group b"
  "next_body (decrement_body_ref r b) = next_body b"
  "sequence_counter (decrement_body_ref r b) = sequence_counter b"
  "summary (decrement_body_ref r b) = summary b"
  by (simp_all add: decrement_body_ref_def Let_def split: option.splits)

lemma bodies_decrement:
  "bodies (decrement_body_ref r b) = bodies b \<or>
   (\<exists>i. r = Some i \<and> bodies (decrement_body_ref r b) = map_delete i (bodies b))"
  by (cases r) (simp_all add: decrement_body_ref_def Let_def)

lemma sound_on_summary [simp]: "sound sha1 S (on_summary f b) = sound sha1 S b"
  by (simp add: sound_def sound_parts in_group_def)

lemma bodies_ok_on_summary [simp]: "bodies_ok r (on_summary f b) = bodies_ok r b"
  by (simp add: bodies_ok_def)

lemma filled_but_on_summary [simp]: "filled_but A (on_summary f b) = filled_but A b"
  by (simp add: filled_but_def)

lemma bodies_ok_on_group [simp]: "bodies_ok r (on_group g f b) = bodies_ok r b"
  by (simp add: bodies_ok_def)

lemma filled_but_on_group [simp]: "filled_but A (on_group g f b) = filled_but A b"
  by (simp add: filled_but_def)

lemma filled_but_mono: "filled_but A b \<Longrightarrow> A \<subseteq> B \<Longrightarrow> filled_but B b"
  by (auto simp: filled_but_def)

lemma referenced_frame [simp]:
  "referenced (on_summary f b) = referenced b" "referenced (on_group g h b) = referenced b"
  "referenced (decrement_body_ref r b) = referenced b"
  by (auto simp: referenced_def)

subsection \<open>Reference counts\<close>

lemma parts_decrement [simp]:
  "links_ok (decrement_body_ref r b) = links_ok b" "prints_ok (decrement_body_ref r b) = prints_ok b"
  "shapes_ok sha1 S (decrement_body_ref r b) = shapes_ok sha1 S b"
  "counts_ok (decrement_body_ref r b) = counts_ok b"
  "plain_instances (decrement_body_ref r b) = plain_instances b"
  by (simp_all add: links_ok_def prints_ok_def shapes_ok_def counts_ok_def plain_instances_def in_group_def)

lemma keys_decrement: "keys_ok b \<Longrightarrow> keys_ok (decrement_body_ref r b)"
  using bodies_decrement [of r b] by (auto simp: keys_ok_def)

lemma fresh_decrement: "fresh_ok b \<Longrightarrow> fresh_ok (decrement_body_ref r b)"
  using bodies_decrement [of r b] by (auto simp: fresh_ok_def subset_iff dom_def split: if_splits)

lemma sound_decrement [simp]: "sound sha1 S b \<Longrightarrow> sound sha1 S (decrement_body_ref r b)"
  by (simp add: sound_def keys_decrement fresh_decrement)

lemma filled_but_decrement [simp]: "filled_but A (decrement_body_ref r b) = filled_but A b"
  by (simp add: filled_but_def)

lemma caps_decrement: "length (bodies (decrement_body_ref r b)) \<le> length (bodies b)"
  using bodies_decrement [of r b] by (auto simp: map_delete_def)

lemma bodies_okD:
  assumes "bodies_ok r b"
  shows "map_of (body_ref_counts b) i = (if 0 < r i then Some (int (r i)) else None)"
    and "map_of (bodies b) i \<noteq> None \<longleftrightarrow> 0 < r i"
    and "map_of (body_of_hash b) h = Some i \<longleftrightarrow>
           (\<exists>x. map_of (bodies b) i = Some x \<and> body_fingerprint x = h)"
    and "map_of (bodies b) i = Some x \<Longrightarrow> body_id x = i"
  using assms by (simp_all add: bodies_ok_def dom_def)

lemma bodies_ok_decrement:
  assumes "bodies_ok (\<lambda>i. r i + of_bool (x = Some i)) b"
  shows "bodies_ok r (decrement_body_ref x b)"
proof (cases x)
  case None
  then show ?thesis using assms by (simp add: decrement_body_ref_def)
next
  case (Some j)
  note inv = bodies_okD [OF assms]
  have cnt: "map_of (body_ref_counts b) j = Some (int (r j + 1))"
    using inv(1) [of j] Some by simp
  obtain y where y: "map_of (bodies b) j = Some y"
    using inv(2) [of j] Some by auto
  show ?thesis
  proof (cases "r j = 0")
    case True
    then have eq: "decrement_body_ref x b =
        b\<lparr>body_ref_counts := map_delete j (body_ref_counts b), bodies := map_delete j (bodies b),
          body_of_hash := map_delete (body_fingerprint y) (body_of_hash b)\<rparr>"
      using Some cnt y by (simp add: decrement_body_ref_def)
    have hash: "map_of (body_of_hash b) (body_fingerprint y) = Some j"
      using inv(3) y by blast
    have only: "i = j" if "map_of (bodies b) i = Some z" "body_fingerprint z = body_fingerprint y" for i z
      using inv(3) [of "body_fingerprint y" i] that hash by auto
    show ?thesis
      unfolding bodies_ok_def eq
      using inv Some True hash by (auto simp: dom_def dest: only)
  next
    case False
    then have eq: "decrement_body_ref x b =
        b\<lparr>body_ref_counts := map_set j (int (r j)) (body_ref_counts b)\<rparr>"
      using Some cnt by (simp add: decrement_body_ref_def)
    show ?thesis
      unfolding bodies_ok_def eq using inv Some False by (auto simp: dom_def)
  qed
qed

subsection \<open>Removing an instance\<close>

lemma links_okI:
  assumes "\<And>i x. instance_at b i = Some x \<Longrightarrow> inst_id x = i"
    and "\<And>i x. instance_at b i = Some x \<Longrightarrow> \<exists>ids. index_at b (inst_group x) = Some ids \<and> i \<in> set ids"
    and "\<And>g ids. index_at b g = Some ids \<Longrightarrow> distinct ids"
    and "\<And>g ids. index_at b g = Some ids \<Longrightarrow> group_at b g \<noteq> None"
    and "\<And>g ids i. index_at b g = Some ids \<Longrightarrow> i \<in> set ids \<Longrightarrow>
           \<exists>x. instance_at b i = Some x \<and> inst_group x = g"
    and "\<And>g. group_at b g \<noteq> None \<Longrightarrow> index_at b g \<noteq> None"
  shows "links_ok b"
  using assms unfolding links_ok_def dom_def by blast

lemma links_okD:
  assumes "links_ok b"
  shows "instance_at b i = Some x \<Longrightarrow> inst_id x = i"
    and "instance_at b i = Some x \<Longrightarrow> \<exists>ids. index_at b (inst_group x) = Some ids \<and> i \<in> set ids"
    and "index_at b g = Some ids \<Longrightarrow> distinct ids"
    and "index_at b g = Some ids \<Longrightarrow> group_at b g \<noteq> None"
    and "index_at b g = Some ids \<Longrightarrow> j \<in> set ids \<Longrightarrow>
           \<exists>x. instance_at b j = Some x \<and> inst_group x = g"
    and "group_at b g \<noteq> None \<Longrightarrow> index_at b g \<noteq> None"
  using assms unfolding links_ok_def dom_def by blast+

lemma in_groupD: "instance_at b i = Some x \<Longrightarrow> 0 < in_group b (inst_group x)"
  unfolding in_group_def by (rule value_sum_pos) auto

lemma in_group_zero: "in_group b g = 0 \<longleftrightarrow> (\<forall>x \<in> set (map snd (instances b)). inst_group x \<noteq> g)"
  by (auto simp: in_group_def value_sum_zero)

lemma shape_of_group [simp]:
  "group_shape (G\<lparr>evicted_count := n\<rparr>) = group_shape G"
  "group_shape (G\<lparr>suppressed_count := n\<rparr>) = group_shape G"
  "group_shape (G\<lparr>occurrence_count := n\<rparr>) = group_shape G"
  by (simp_all add: group_shape_def observation_shape.truncate_def)

lemma priority_of_shape [simp]: "priority_score (group_shape G) = priority_score G"
  by (simp add: priority_score_def group_shape_def observation_shape.truncate_def)

text \<open>The builder after an instance is taken out, before the bodies are told.\<close>

definition without_instance :: "string \<Rightarrow> network_instance \<Rightarrow> builder \<Rightarrow> builder" where
  "without_instance i x b = detach_instance i x (count_eviction (inst_group x) b)"

lemma remove_instance_skip:
  "instance_at b i = Some x \<Longrightarrow>
   remove_instance i True True b =
     decrement_body_ref (response_body_ref x)
       (decrement_body_ref (request_body_ref x) (without_instance i x b))"
  by (simp add: remove_instance_def without_instance_def)

lemma without_instance_frame [simp]:
  "instances (without_instance i x b) = map_delete i (instances b)"
  "bodies (without_instance i x b) = bodies b"
  "group_of_print (without_instance i x b) = group_of_print b"
  "body_of_hash (without_instance i x b) = body_of_hash b"
  "metadata (without_instance i x b) = metadata b"
  "body_ref_counts (without_instance i x b) = body_ref_counts b"
  "next_instance (without_instance i x b) = next_instance b"
  "next_group (without_instance i x b) = next_group b"
  "next_body (without_instance i x b) = next_body b"
  "summary (without_instance i x b) =
     (summary b)\<lparr>evicted_after_admission := evicted_after_admission (summary b) + 1\<rparr>"
  "map_keys (groups (without_instance i x b)) = map_keys (groups b)"
  "length (groups (without_instance i x b)) = length (groups b)"
  "group_at (without_instance i x b) g =
     (if g = inst_group x
      then map_option (\<lambda>G. G\<lparr>evicted_count := evicted_count G + 1\<rparr>) (group_at b g)
      else group_at b g)"
  "index_at (without_instance i x b) g =
     (if g = inst_group x then map_option (removeAll i) (index_at b g) else index_at b g)"
  by (auto simp: without_instance_def detach_instance_def count_eviction_def Let_def
      simp del: list.map_comp split: option.splits)

lemma in_group_without:
  assumes "keys_ok b" and "instance_at b i = Some x"
  shows "in_group b g = of_bool (inst_group x = g) + in_group (without_instance i x b) g"
  using value_sum_delete [of "instances b" i x] assms by (simp add: in_group_def keys_ok_def)

lemma referenced_without:
  assumes "keys_ok b" and "instance_at b i = Some x"
  shows "referenced b r = references r x + referenced (without_instance i x b) r"
  using value_sum_delete [of "instances b" i x] assms by (simp add: referenced_def keys_ok_def)

lemma sound_without:
  assumes b: "sound sha1 S b" and x: "instance_at b i = Some x"
  shows "sound sha1 S (without_instance i x b)"
proof -
  let ?c = "without_instance i x b"
  have parts: "keys_ok b" "fresh_ok b" "links_ok b" "prints_ok b" "shapes_ok sha1 S b" "counts_ok b"
    "plain_instances b"
    using b by (simp_all add: sound_def)
  have "keys_ok ?c"
    using parts(1) by (simp add: keys_ok_def)
  moreover have "fresh_ok ?c"
    using parts(2) by (auto simp: fresh_ok_def subset_iff dom_def split: if_splits)
  moreover have "links_ok ?c"
  proof (intro links_okI)
    fix j y
    assume "instance_at ?c j = Some y"
    then have "instance_at b j = Some y" "j \<noteq> i"
      by (auto split: if_splits)
    then show "inst_id y = j" "\<exists>ids. index_at ?c (inst_group y) = Some ids \<and> j \<in> set ids"
      using links_okD(1,2) [OF parts(3), of j y] by auto
  next
    fix g ids
    assume "index_at ?c g = Some ids"
    then obtain old where old: "index_at b g = Some old" "ids = (if g = inst_group x then removeAll i old else old)"
      by (auto split: if_splits)
    with links_okD(3,4) [OF parts(3) old(1)] show "distinct ids" "group_at ?c g \<noteq> None"
      by (auto simp: distinct_removeAll split: if_splits)
    fix j
    assume "j \<in> set ids"
    with old have "j \<in> set old" "j \<noteq> i \<or> g \<noteq> inst_group x"
      by (auto split: if_splits)
    with links_okD(5) [OF parts(3) old(1)] x
    show "\<exists>y. instance_at ?c j = Some y \<and> inst_group y = g" by fastforce
  next
    fix g
    assume "group_at ?c g \<noteq> None"
    then show "index_at ?c g \<noteq> None"
      using links_okD(6) [OF parts(3), of g] by (auto split: if_splits)
  qed
  moreover have "prints_ok ?c"
    using parts(4) by (auto simp: prints_ok_def split: if_splits)
  moreover have "shapes_ok sha1 S ?c"
    using parts(5) by (auto simp: shapes_ok_def split: if_splits)
  moreover have "counts_ok ?c"
    using parts(6) in_group_without [OF parts(1) x]
    by (auto simp: counts_ok_def split: if_splits)
  moreover have "plain_instances ?c"
    using parts(7) by (auto simp: plain_instances_def split: if_splits)
  ultimately show ?thesis by (simp add: sound_def)
qed

definition coherent :: "(string \<Rightarrow> string) \<Rightarrow> observation_shape set \<Rightarrow> builder \<Rightarrow> bool" where
  "coherent sha1 S b \<longleftrightarrow> sound sha1 S b \<and> bodies_ok (referenced b) b"

text \<open>\<open>shrinks b c\<close>: \<open>c\<close> comes from \<open>b\<close> by removals, and the books still agree.\<close>

definition shrinks :: "builder \<Rightarrow> builder \<Rightarrow> bool" where
  "shrinks b c \<longleftrightarrow>
     accounted c = accounted b \<and> observed_instances (summary c) = observed_instances (summary b) \<and>
     length (instances c) \<le> length (instances b) \<and> length (groups c) \<le> length (groups b) \<and>
     length (bodies c) \<le> length (bodies b) \<and>
     (\<forall>j y. instance_at c j = Some y \<longrightarrow> instance_at b j = Some y) \<and>
     (\<forall>h H. group_at c h = Some H \<longrightarrow>
        (\<exists>K. group_at b h = Some K \<and> group_shape K = group_shape H \<and> fingerprint K = fingerprint H))"

lemma shrinks_refl [simp]: "shrinks b b"
  by (simp add: shrinks_def)

lemma shrinks_trans: "shrinks b c \<Longrightarrow> shrinks c d \<Longrightarrow> shrinks b d"
  unfolding shrinks_def
  by (elim conjE, intro conjI allI impI) (simp, simp, simp, simp, simp, blast, metis)

lemma shrinks_group:
  "shrinks b c \<Longrightarrow> group_at c h = Some H \<Longrightarrow>
   \<exists>K. group_at b h = Some K \<and> group_shape K = group_shape H \<and> fingerprint K = fingerprint H"
  by (simp add: shrinks_def)

lemma shrinks_decrement: "shrinks b (decrement_body_ref r b)"
  using caps_decrement [of r b] by (auto simp: shrinks_def accounted_def)

lemma shrinks_without:
  assumes "keys_ok b" and "instance_at b i = Some x"
  shows "shrinks b (without_instance i x b)"
  using length_map_delete [OF _ assms(2)] assms
  by (auto simp: shrinks_def accounted_def keys_ok_def)

lemma bodies_ok_without [simp]: "bodies_ok r (without_instance i x b) = bodies_ok r b"
  by (simp add: bodies_ok_def)

lemma remove_skip_frame:
  assumes "instance_at b i = Some x"
  shows "instance_at (remove_instance i True True b) = (instance_at b)(i := None)"
    and "index_at (remove_instance i True True b) g =
           (if g = inst_group x then map_option (removeAll i) (index_at b g) else index_at b g)"
    and "map_keys (groups (remove_instance i True True b)) = map_keys (groups b)"
  by (simp_all add: remove_instance_skip [OF assms])

lemma remove_skip:
  assumes b: "coherent sha1 S b" and x: "instance_at b i = Some x"
  shows "coherent sha1 S (remove_instance i True True b)"
    and "shrinks b (remove_instance i True True b)"
proof -
  have keys: "keys_ok b" and "bodies_ok (referenced b) b"
    using b by (simp_all add: coherent_def sound_def)
  moreover have "referenced b = (\<lambda>r. referenced (without_instance i x b) r
      + of_bool (response_body_ref x = Some r) + of_bool (request_body_ref x = Some r))"
    using referenced_without [OF keys x] by (auto simp: references_def)
  ultimately have "bodies_ok (\<lambda>r. referenced (without_instance i x b) r
      + of_bool (response_body_ref x = Some r) + of_bool (request_body_ref x = Some r))
    (without_instance i x b)"
    by simp
  then have "bodies_ok (referenced (without_instance i x b)) (remove_instance i True True b)"
    unfolding remove_instance_skip [OF x] by (intro bodies_ok_decrement)
  then show "coherent sha1 S (remove_instance i True True b)"
    using sound_without [OF _ x] b by (simp add: coherent_def remove_instance_skip [OF x])
  show "shrinks b (remove_instance i True True b)"
    unfolding remove_instance_skip [OF x]
    using shrinks_without [OF keys x] shrinks_decrement shrinks_trans by blast
qed

subsection \<open>Removing a group\<close>

definition drop_group :: "string \<Rightarrow> builder \<Rightarrow> builder" where
  "drop_group g b = (forget_group g b)\<lparr>group_index := map_delete g (group_index b)\<rparr>"

lemma drop_group_frame [simp]:
  "instances (drop_group g b) = instances b" "bodies (drop_group g b) = bodies b"
  "groups (drop_group g b) = map_delete g (groups b)"
  "body_of_hash (drop_group g b) = body_of_hash b"
  "body_ref_counts (drop_group g b) = body_ref_counts b"
  "group_index (drop_group g b) = map_delete g (group_index b)"
  "next_instance (drop_group g b) = next_instance b" "next_group (drop_group g b) = next_group b"
  "next_body (drop_group g b) = next_body b" "summary (drop_group g b) = summary b"
  "group_at b g = Some G \<Longrightarrow>
     group_of_print (drop_group g b) = map_delete (fingerprint G) (group_of_print b)"
  by (simp_all add: drop_group_def forget_group_def split: option.splits)

lemma drop_group_parts [simp]:
  "referenced (drop_group g b) = referenced b" "bodies_ok r (drop_group g b) = bodies_ok r b"
  "in_group (drop_group g b) = in_group b"
  by (auto simp: referenced_def bodies_ok_def in_group_def)

lemma prints_okD:
  assumes "prints_ok b"
  shows "map_of (group_of_print b) fp = Some g \<longleftrightarrow> (\<exists>G. group_at b g = Some G \<and> fingerprint G = fp)"
    and "group_at b g = Some G \<Longrightarrow> group_id G = g"
  using assms by (auto simp: prints_ok_def)

lemma prints_okI:
  assumes "\<And>fp g. map_of (group_of_print b) fp = Some g \<longleftrightarrow> (\<exists>G. group_at b g = Some G \<and> fingerprint G = fp)"
    and "\<And>g G. group_at b g = Some G \<Longrightarrow> group_id G = g"
  shows "prints_ok b"
  using assms by (simp add: prints_ok_def)

lemma sound_drop_group:
  assumes b: "sound sha1 S b" and empty: "index_at b g = Some []"
  shows "sound sha1 S (drop_group g b)"
proof -
  let ?c = "drop_group g b"
  have parts: "keys_ok b" "fresh_ok b" "links_ok b" "prints_ok b" "shapes_ok sha1 S b" "counts_ok b"
    "plain_instances b"
    using b by (simp_all add: sound_def)
  obtain G where G: "group_at b g = Some G"
    using links_okD(4) [OF parts(3) empty] by blast
  have alone: "inst_group x \<noteq> g" if "instance_at b i = Some x" for i x
    using links_okD(2) [OF parts(3) that] empty by auto
  have "links_ok ?c"
  proof (rule links_okI)
    fix i x
    assume "instance_at ?c i = Some x"
    then show "inst_id x = i" "\<exists>ids. index_at ?c (inst_group x) = Some ids \<and> i \<in> set ids"
      using links_okD(1,2) [OF parts(3), of i x] alone by auto
  next
    fix h ids
    assume "index_at ?c h = Some ids"
    then have h: "h \<noteq> g" "index_at b h = Some ids"
      by (auto split: if_splits)
    then show "distinct ids" "group_at ?c h \<noteq> None"
      using links_okD(3,4) [OF parts(3) h(2)] by auto
    show "\<exists>x. instance_at ?c i = Some x \<and> inst_group x = h" if "i \<in> set ids" for i
      using links_okD(5) [OF parts(3) h(2) that] by auto
  next
    fix h
    assume "group_at ?c h \<noteq> None"
    then show "index_at ?c h \<noteq> None"
      using links_okD(6) [OF parts(3), of h] by (auto split: if_splits)
  qed
  moreover have "prints_ok ?c"
  proof (rule prints_okI)
    fix fp h
    show "map_of (group_of_print ?c) fp = Some h \<longleftrightarrow> (\<exists>H. group_at ?c h = Some H \<and> fingerprint H = fp)"
      using prints_okD(1) [OF parts(4), of fp h] prints_okD(1) [OF parts(4), of fp g] G by auto
  next
    show "group_id H = h" if "group_at ?c h = Some H" for h H
      using that prints_okD(2) [OF parts(4)] by (auto split: if_splits)
  qed
  moreover have "keys_ok ?c" "plain_instances ?c"
    using parts(1,7) by (simp_all add: keys_ok_def plain_instances_def)
  moreover have "fresh_ok ?c"
    using parts(2) by (auto simp: fresh_ok_def subset_iff dom_def split: if_splits)
  moreover have "shapes_ok sha1 S ?c" "counts_ok ?c"
    using parts(5,6) by (auto simp: shapes_ok_def counts_ok_def split: if_splits)
  ultimately show ?thesis by (simp add: sound_def)
qed

lemma settled_drop_group:
  "coherent sha1 S b \<Longrightarrow> index_at b g = Some [] \<Longrightarrow> coherent sha1 S (drop_group g b)"
  by (simp add: coherent_def sound_drop_group)

lemma shrinks_drop_group: "shrinks b (drop_group g b)"
  by (auto simp: shrinks_def accounted_def split: if_splits)

lemma filled_drop_group: "filled_but A b \<Longrightarrow> filled_but (A - {g}) (drop_group g b)"
  by (auto simp: filled_but_def)

lemma remove_all_skip:
  assumes "coherent sha1 S b" and "index_at b g = Some ids"
  defines "c \<equiv> foldl (\<lambda>b i. remove_instance i True True b) b ids"
  shows "coherent sha1 S c \<and> shrinks b c \<and> index_at c g = Some [] \<and>
    (\<forall>h. h \<noteq> g \<longrightarrow> index_at c h = index_at b h) \<and>
    map_keys (groups c) = map_keys (groups b) \<and> length (instances c) + length ids = length (instances b) \<and>
    (\<forall>j. j \<notin> set ids \<longrightarrow> instance_at c j = instance_at b j)"
  using assms(1,2) unfolding c_def
proof (induction ids arbitrary: b)
  case (Cons i ids)
  let ?d = "remove_instance i True True b"
  have links: "links_ok b" and keys: "keys_ok b"
    using Cons.prems(1) by (simp_all add: coherent_def sound_def)
  obtain x where x: "instance_at b i = Some x" "inst_group x = g"
    using links_okD(5) [OF links Cons.prems(2), of i] by auto
  have "i \<notin> set ids"
    using links_okD(3) [OF links Cons.prems(2)] by simp
  then have idx: "index_at ?d g = Some ids" "\<forall>h. h \<noteq> g \<longrightarrow> index_at ?d h = index_at b h"
    using Cons.prems(2) x by (simp_all add: remove_skip_frame(2) [OF x(1)] removeAll_id)
  have keyed: "map_keys (groups ?d) = map_keys (groups b)"
    by (rule remove_skip_frame(3) [OF x(1)])
  have len: "length (instances b) = Suc (length (instances ?d))"
    using length_map_delete [OF _ x(1)] keys
    by (simp add: remove_instance_skip [OF x(1)] keys_ok_def)
  show ?case
    using Cons.IH [OF remove_skip(1) [OF Cons.prems(1) x(1)] idx(1)] idx(2) keyed len
      remove_skip_frame(1) [OF x(1)]
      shrinks_trans [OF remove_skip(2) [OF Cons.prems(1) x(1)]]
    by auto
qed simp

lemma remove_group_eq:
  assumes b: "coherent sha1 S b" and G: "group_at b g = Some G" and ids: "index_at b g = Some ids"
  shows "remove_group g True b = drop_group g (foldl (\<lambda>b i. remove_instance i True True b) b ids)"
proof -
  let ?c = "foldl (\<lambda>b i. remove_instance i True True b) b ids"
  have all: "shrinks b ?c" "map_keys (groups ?c) = map_keys (groups b)"
    using remove_all_skip [OF b ids] by simp_all
  have "group_at b g \<noteq> None"
    using G by simp
  then have "g \<in> set (map_keys (groups ?c))"
    unfolding all(2) by (simp add: map_of_eq_None_iff)
  then have "group_at ?c g \<noteq> None"
    by (simp add: map_of_eq_None_iff)
  then obtain H where H: "group_at ?c g = Some H"
    by blast
  have "fingerprint H = fingerprint G"
    using shrinks_group [OF all(1) H] G by simp
  with H show ?thesis
    using G ids by (simp add: remove_group_def drop_group_def forget_group_def Let_def)
qed

text \<open>Removing a group takes its instances and nothing else, and leaves a state where the books
  agree.\<close>

lemma remove_group:
  assumes b: "coherent sha1 S b" and fill: "filled_but {} b" and G: "group_at b g = Some G"
  defines "c \<equiv> remove_group g True b"
  shows "coherent sha1 S c" "shrinks b c" "filled_but {} c"
    "length (groups b) = Suc (length (groups c))" "length (instances c) < length (instances b)"
    "group_at c g = None"
    "instance_at b j = Some y \<Longrightarrow> inst_group y \<noteq> g \<Longrightarrow> instance_at c j = Some y"
proof -
  have links: "links_ok b" and keys: "keys_ok b"
    using b by (simp_all add: coherent_def sound_def)
  obtain ids where ids: "index_at b g = Some ids"
    using links_okD(6) [OF links, of g] G by auto
  let ?d = "foldl (\<lambda>b i. remove_instance i True True b) b ids"
  have c: "c = drop_group g ?d"
    unfolding c_def by (rule remove_group_eq [OF b G ids])
  have d: "coherent sha1 S ?d" "shrinks b ?d" "index_at ?d g = Some []"
    "\<forall>h. h \<noteq> g \<longrightarrow> index_at ?d h = index_at b h" "map_keys (groups ?d) = map_keys (groups b)"
    "length (instances ?d) + length ids = length (instances b)"
    "\<forall>j. j \<notin> set ids \<longrightarrow> instance_at ?d j = instance_at b j"
    using remove_all_skip [OF b ids] by simp_all
  show "instance_at c j = Some y" if y: "instance_at b j = Some y" "inst_group y \<noteq> g"
  proof -
    have "j \<notin> set ids"
      using links_okD(5) [OF links ids, of j] y by auto
    then show ?thesis
      unfolding c using d(7) y(1) by simp
  qed
  show "coherent sha1 S c" "group_at c g = None"
    unfolding c using settled_drop_group [OF d(1,3)] by simp_all
  show "shrinks b c"
    unfolding c by (rule shrinks_trans [OF d(2) shrinks_drop_group])
  show "filled_but {} c"
    using fill d(4) unfolding c filled_but_def by auto
  have "ids \<noteq> []"
    using fill ids by (auto simp: filled_but_def)
  then show "length (instances c) < length (instances b)"
    using d(6) by (cases ids) (auto simp: c)
  obtain H where H: "group_at ?d g = Some H"
    using links_okD(4) d(1,3) by (metis not_None_eq coherent_def sound_def)
  have "distinct (map_keys (groups ?d))"
    using d(1) by (simp add: coherent_def sound_def keys_ok_def)
  then have "length (groups ?d) = Suc (length (groups c))"
    using H by (simp add: c length_map_delete)
  moreover have "length (groups ?d) = length (groups b)"
    by (metis d(5) length_map)
  ultimately show "length (groups b) = Suc (length (groups c))"
    by simp
qed

lemma remove_instance_eq:
  assumes "instance_at b i = Some x"
  shows "remove_instance i True False b =
    (let c = remove_instance i True True b in
     if index_at c (inst_group x) = Some [] then drop_group (inst_group x) c else c)"
  using assms by (simp add: remove_instance_def drop_group_def Let_def)

lemma remove_instance:
  assumes b: "coherent sha1 S b" and fill: "filled_but {} b" and x: "instance_at b i = Some x"
  defines "c \<equiv> remove_instance i True False b"
  shows "coherent sha1 S c" "shrinks b c" "filled_but {} c"
    "length (instances b) = Suc (length (instances c))"
    "g \<noteq> inst_group x \<Longrightarrow> (group_at c g = None) = (group_at b g = None)"
    "j \<noteq> i \<Longrightarrow> instance_at c j = instance_at b j"
proof -
  let ?d = "remove_instance i True True b"
  have c: "c = (if index_at ?d (inst_group x) = Some [] then drop_group (inst_group x) ?d else ?d)"
    unfolding c_def remove_instance_eq [OF x] by (simp add: Let_def)
  note d = remove_skip [OF b x]
  have keys: "keys_ok b"
    using b by (simp add: coherent_def sound_def)
  show "coherent sha1 S c"
    unfolding c using d(1) settled_drop_group by simp
  show "shrinks b c"
    unfolding c using d(2) shrinks_trans [OF d(2) shrinks_drop_group] by simp
  show "filled_but {} c"
    using fill unfolding c filled_but_def
    by (auto simp: remove_skip_frame(2) [OF x])
  show "length (instances b) = Suc (length (instances c))"
    using length_map_delete [OF _ x] keys
    by (simp add: c remove_instance_skip [OF x] keys_ok_def)
  show "(group_at c g = None) = (group_at b g = None)" if "g \<noteq> inst_group x"
    using that by (simp add: c remove_instance_skip [OF x])
  show "instance_at c j = instance_at b j" if "j \<noteq> i"
    using that by (simp add: c remove_instance_skip [OF x])
qed

subsection \<open>What is evicted\<close>

text \<open>The loop over the groups ends at a group of the lowest priority, and so does the loop over the
  instances, when each of them has a group.\<close>

lemma lowest_group_foldl:
  assumes "foldl (lower_group b) (Some (g0, s0, f0)) ps = low"
  shows "\<exists>g s f. low = Some (g, s, f) \<and> s \<le> s0 \<and> (\<forall>p \<in> set ps. s \<le> priority_score (snd p)) \<and>
    ((g, s) = (g0, s0) \<or> (\<exists>G. (g, G) \<in> set ps \<and> s = priority_score G))"
  using assms
proof (induction ps arbitrary: g0 s0 f0)
  case (Cons p ps)
  obtain g1 s1 f1 where step: "lower_group b (Some (g0, s0, f0)) p = Some (g1, s1, f1)"
    "s1 \<le> s0" "s1 \<le> priority_score (snd p)"
    "(g1, s1) = (g0, s0) \<or> (g1 = fst p \<and> s1 = priority_score (snd p))"
    by (cases "lower_group b (Some (g0, s0, f0)) p")
      (auto simp: lower_group_def Let_def split: if_splits)
  from Cons.IH [of g1 s1 f1] Cons.prems step(1)
  obtain g s f where g: "low = Some (g, s, f)" "s \<le> s1" "\<forall>p \<in> set ps. s \<le> priority_score (snd p)"
    "(g, s) = (g1, s1) \<or> (\<exists>G. (g, G) \<in> set ps \<and> s = priority_score G)"
    by auto
  show ?case
  proof (intro exI conjI)
    show "low = Some (g, s, f)" by (rule g(1))
    show "s \<le> s0" using g(2) step(2) by simp
    show "\<forall>p' \<in> set (p # ps). s \<le> priority_score (snd p')" using g(2,3) step(3) by auto
    show "(g, s) = (g0, s0) \<or> (\<exists>G. (g, G) \<in> set (p # ps) \<and> s = priority_score G)"
      using g(4) step(4) by (cases p) auto
  qed
qed auto

lemma lowest_group:
  assumes "foldl (lower_group b) None (groups b) = Some (g, s, f)" and "keys_ok b"
  shows "\<exists>G. group_at b g = Some G \<and> s = priority_score G"
    and "group_at b h = Some H \<Longrightarrow> s \<le> priority_score H"
proof -
  obtain p ps where ps: "groups b = p # ps"
    using assms(1) by (cases "groups b") auto
  have "foldl (lower_group b)
      (Some (fst p, priority_score (snd p), group_offset b (snd p))) ps = Some (g, s, f)"
    using assms(1) by (simp add: ps lower_group_def)
  from lowest_group_foldl [OF this]
  have low: "s \<le> priority_score (snd p)" "\<forall>p \<in> set ps. s \<le> priority_score (snd p)"
    "(g, s) = (fst p, priority_score (snd p)) \<or> (\<exists>G. (g, G) \<in> set ps \<and> s = priority_score G)"
    by auto
  then obtain G where "(g, G) \<in> set (groups b)" "s = priority_score G"
    by (cases p) (auto simp: ps)
  then show "\<exists>G. group_at b g = Some G \<and> s = priority_score G"
    using assms(2) by (auto simp: keys_ok_def)
  show "s \<le> priority_score H" if "group_at b h = Some H"
    using map_of_SomeD [OF that] low(1,2) by (auto simp: ps)
qed

definition score_of :: "builder \<Rightarrow> network_instance \<Rightarrow> nat option" where
  "score_of b x = map_option priority_score (group_at b (inst_group x))"

lemma lowest_instance_foldl:
  assumes "foldl (lower_instance b) (Some (i0, s0, f0, n0)) ps = low"
    and "\<forall>p \<in> set ps. score_of b (snd p) \<noteq> None"
  shows "\<exists>i s f n. low = Some (i, s, f, n) \<and> s \<le> s0 \<and> (\<forall>p \<in> set ps. s \<le> the (score_of b (snd p))) \<and>
    ((i, s) = (i0, s0) \<or> (\<exists>x. (i, x) \<in> set ps \<and> score_of b x = Some s))"
  using assms
proof (induction ps arbitrary: i0 s0 f0 n0)
  case (Cons p ps)
  obtain G where G: "group_at b (inst_group (snd p)) = Some G"
    using Cons.prems(2) by (auto simp: score_of_def)
  obtain i1 s1 f1 n1 where step: "lower_instance b (Some (i0, s0, f0, n0)) p = Some (i1, s1, f1, n1)"
    "s1 \<le> s0" "s1 \<le> priority_score G"
    "(i1, s1) = (i0, s0) \<or> (i1 = fst p \<and> s1 = priority_score G)"
    using G by (cases "lower_instance b (Some (i0, s0, f0, n0)) p")
      (auto simp: lower_instance_def Let_def split: if_splits)
  from Cons.IH [of i1 s1 f1 n1] Cons.prems step(1)
  obtain i s f n where i: "low = Some (i, s, f, n)" "s \<le> s1"
    "\<forall>p \<in> set ps. s \<le> the (score_of b (snd p))"
    "(i, s) = (i1, s1) \<or> (\<exists>x. (i, x) \<in> set ps \<and> score_of b x = Some s)"
    by (simp del: not_None_eq) blast
  show ?case
  proof (intro exI conjI)
    show "low = Some (i, s, f, n)" by (rule i(1))
    show "s \<le> s0" using i(2) step(2) by simp
    show "\<forall>p' \<in> set (p # ps). s \<le> the (score_of b (snd p'))"
      using i(2,3) step(3) G by (auto simp: score_of_def)
    show "(i, s) = (i0, s0) \<or> (\<exists>x. (i, x) \<in> set (p # ps) \<and> score_of b x = Some s)"
      using i(4) step(4) G by (cases p) (auto simp: score_of_def)
  qed
qed auto

lemma lowest_instance:
  assumes low: "foldl (lower_instance b) None (instances b) = Some (i, s, f, n)"
    and b: "keys_ok b" and grouped: "\<forall>j y. instance_at b j = Some y \<longrightarrow> score_of b y \<noteq> None"
  shows "\<exists>x. instance_at b i = Some x \<and> score_of b x = Some s"
    and "instance_at b j = Some y \<Longrightarrow> s \<le> the (score_of b y)"
proof -
  obtain p ps where ps: "instances b = p # ps"
    using low by (cases "instances b") auto
  have all: "\<forall>p \<in> set (instances b). score_of b (snd p) \<noteq> None"
    using b grouped by (auto simp: keys_ok_def)
  then obtain G where G: "group_at b (inst_group (snd p)) = Some G"
    by (auto simp: ps score_of_def)
  have "foldl (lower_instance b)
      (Some (fst p, priority_score G, inst_offset (snd p), map_get (instance_sequence b) (fst p))) ps =
    Some (i, s, f, n)"
    using low by (simp add: ps lower_instance_def G)
  from lowest_instance_foldl [OF this] all
  have res: "s \<le> priority_score G" "\<forall>p \<in> set ps. s \<le> the (score_of b (snd p))"
    "(i, s) = (fst p, priority_score G) \<or> (\<exists>x. (i, x) \<in> set ps \<and> score_of b x = Some s)"
    by (auto simp: ps)
  then obtain x where "(i, x) \<in> set (instances b)" "score_of b x = Some s"
    using G by (cases p) (auto simp: ps score_of_def)
  then show "\<exists>x. instance_at b i = Some x \<and> score_of b x = Some s"
    using b by (auto simp: keys_ok_def)
  show "s \<le> the (score_of b y)" if "instance_at b j = Some y"
    using map_of_SomeD [OF that] res(1,2) G by (auto simp: ps score_of_def)
qed

lemma grouped: "links_ok b \<Longrightarrow> instance_at b i = Some x \<Longrightarrow> score_of b x \<noteq> None"
  using links_okD(2,4) [of b] by (fastforce simp: score_of_def)

lemma evict_group_fails: "evict_lowest_priority_group inc b = (False, c) \<Longrightarrow> c = b"
  by (auto simp: evict_lowest_priority_group_def split: option.splits if_splits)

lemma evict_instance_fails: "evict_lowest_priority_instance inc b = (False, c) \<Longrightarrow> c = b"
  by (auto simp: evict_lowest_priority_instance_def split: option.splits if_splits)

lemma evict_group_victim:
  assumes "keys_ok b" and "evict_lowest_priority_group inc b = (True, c)"
  shows "\<exists>g G. group_at b g = Some G \<and> c = remove_group g True b \<and>
    priority_score G < priority_score inc \<and>
    (\<forall>h H. group_at b h = Some H \<longrightarrow> priority_score G \<le> priority_score H)"
proof -
  obtain g s f where low: "foldl (lower_group b) None (groups b) = Some (g, s, f)"
    "s < priority_score inc" "c = remove_group g True b"
    using assms(2) by (auto simp: evict_lowest_priority_group_def split: option.splits if_splits)
  note lowest = lowest_group [OF low(1) assms(1)]
  obtain G where "group_at b g = Some G" "s = priority_score G"
    using lowest(1) by blast
  then show ?thesis
    using lowest(2) low(2,3) by (intro exI [of _ g] exI [of _ G]) simp
qed

lemma evict_instance_victim:
  assumes "keys_ok b" and "links_ok b" and "evict_lowest_priority_instance inc b = (True, c)"
  shows "\<exists>i x. instance_at b i = Some x \<and> c = remove_instance i True False b \<and>
    the (score_of b x) < priority_score inc \<and>
    (\<forall>j y. instance_at b j = Some y \<longrightarrow> the (score_of b x) \<le> the (score_of b y))"
proof -
  obtain i s f n where low: "foldl (lower_instance b) None (instances b) = Some (i, s, f, n)"
    "s < priority_score inc" "c = remove_instance i True False b"
    using assms(3) by (auto simp: evict_lowest_priority_instance_def split: option.splits if_splits)
  have scored: "\<forall>j y. instance_at b j = Some y \<longrightarrow> score_of b y \<noteq> None"
    using grouped [OF assms(2)] by blast
  note lowest = lowest_instance [OF low(1) assms(1) scored]
  obtain x where "instance_at b i = Some x" "score_of b x = Some s"
    using lowest(1) by blast
  then show ?thesis
    using lowest(2) low(2,3) by (intro exI [of _ i] exI [of _ x]) simp
qed

subsection \<open>Committing\<close>

lemma fresh_next:
  assumes "fresh_ok b"
  shows "instance_at b (numbered CHR ''n'' (next_instance b)) = None"
    "group_at b (numbered CHR ''g'' (next_group b)) = None"
    "map_of (bodies b) (numbered CHR ''b'' (next_body b)) = None"
proof -
  have "k \<notin> numbered c ` {..<k'}" if "k = numbered c k'" for k c k'
    using that by auto
  then show "instance_at b (numbered CHR ''n'' (next_instance b)) = None"
    "group_at b (numbered CHR ''g'' (next_group b)) = None"
    "map_of (bodies b) (numbered CHR ''b'' (next_body b)) = None"
    using assms unfolding fresh_ok_def by (metis domIff subsetD)+
qed

definition new_group :: "string \<Rightarrow> string \<Rightarrow> observation_shape \<Rightarrow> network_group" where
  "new_group g fp s =
     \<lparr>status = status s, resource_type = resource_type s, failure_text = failure_text s,
      was_aborted = was_aborted s, req_method = req_method s, url = url s, group_id = g,
      occurrence_count = 0, retained_count = 0, suppressed_count = 0, evicted_count = 0,
      first_offset = None, last_offset = None, fingerprint = fp\<rparr>"

lemma new_group_simps [simp]:
  "group_shape (new_group g fp s) = s" "fingerprint (new_group g fp s) = fp"
  "group_id (new_group g fp s) = g" "occurrence_count (new_group g fp s) = 0"
  "suppressed_count (new_group g fp s) = 0" "evicted_count (new_group g fp s) = 0"
  by (simp_all add: new_group_def group_shape_def observation_shape.truncate_def)

lemma commit_group_eq:
  assumes "commit_group fp s off b = (g, c)"
  shows "g = numbered CHR ''g'' (next_group b)" and "instances c = instances b"
    and "groups c = map_set g (new_group g fp s) (groups b)" and "bodies c = bodies b"
    and "group_of_print c = map_set fp g (group_of_print b)" and "body_of_hash c = body_of_hash b"
    and "body_ref_counts c = body_ref_counts b" and "group_index c = map_set g [] (group_index b)"
    and "next_instance c = next_instance b" and "next_group c = next_group b + 1"
    and "next_body c = next_body b" and "summary c = summary b"
  using assms by (auto simp: commit_group_def Let_def numbered_def new_group_def)

lemma commit_group_coherent:
  assumes b: "coherent sha1 S b" and c: "commit_group fp s off b = (g, c)"
    and new: "map_of (group_of_print b) fp = None" and s: "fp = hash_shape sha1 s" "s \<in> S"
  shows "coherent sha1 S c" and "filled_but A b \<Longrightarrow> filled_but (insert g A) c"
    and "group_at c g = Some (new_group g fp s)" and "length (groups c) = Suc (length (groups b))"
proof -
  note eqs [simp] = commit_group_eq(2-12) [OF c]
  have parts: "keys_ok b" "fresh_ok b" "links_ok b" "prints_ok b" "shapes_ok sha1 S b" "counts_ok b"
    "plain_instances b" "bodies_ok (referenced b) b"
    using b by (simp_all add: coherent_def sound_def)
  have none: "group_at b g = None" "index_at b g = None"
    using fresh_next(2) [OF parts(2)] links_okD(4) [OF parts(3)] commit_group_eq(1) [OF c]
    by (simp, metis not_None_eq)
  have alone: "inst_group x \<noteq> g" if "instance_at b i = Some x" for i x
    using links_okD(2) [OF parts(3) that] none(2) by auto
  have "inst_group x \<noteq> g" if x: "x \<in> set (map snd (instances b))" for x
  proof -
    obtain i where "(i, x) \<in> set (instances b)"
      using x by auto
    then have "instance_at b i = Some x"
      using parts(1) by (simp add: keys_ok_def)
    then show ?thesis by (rule alone)
  qed
  then have "in_group b g = 0"
    by (simp add: in_group_zero)
  then have "counts_ok c"
    using parts(6) by (simp add: counts_ok_def in_group_def)
  moreover have "links_ok c"
  proof (rule links_okI)
    fix i x
    assume "instance_at c i = Some x"
    then show "inst_id x = i" "\<exists>ids. index_at c (inst_group x) = Some ids \<and> i \<in> set ids"
      using links_okD(1,2) [OF parts(3), of i x] alone by auto
  next
    fix h ids
    assume h: "index_at c h = Some ids"
    then show "distinct ids" "group_at c h \<noteq> None"
      using links_okD(3,4) [OF parts(3), of h ids] by (auto split: if_splits)
    show "\<exists>x. instance_at c i = Some x \<and> inst_group x = h" if "i \<in> set ids" for i
      using h that links_okD(5) [OF parts(3), of h ids i] by (auto split: if_splits)
  next
    fix h
    assume "group_at c h \<noteq> None"
    then show "index_at c h \<noteq> None"
      using links_okD(6) [OF parts(3), of h] by (auto split: if_splits)
  qed
  moreover have "prints_ok c"
  proof (rule prints_okI)
    fix fp' h
    show "map_of (group_of_print c) fp' = Some h \<longleftrightarrow> (\<exists>H. group_at c h = Some H \<and> fingerprint H = fp')"
      using prints_okD(1) [OF parts(4), of fp' h] prints_okD(1) [OF parts(4), of fp h] new none(1)
      by auto
  next
    show "group_id H = h" if "group_at c h = Some H" for h H
      using that prints_okD(2) [OF parts(4)] by (auto split: if_splits)
  qed
  moreover have "keys_ok c" "plain_instances c" "shapes_ok sha1 S c"
    using parts(1,5,7) s by (auto simp: keys_ok_def plain_instances_def shapes_ok_def distinct_update)
  moreover have "fresh_ok c"
    using parts(2) commit_group_eq(1) [OF c] by (auto simp: fresh_ok_def subset_iff less_Suc_eq)
  moreover have "referenced c = referenced b"
    by (auto simp: referenced_def)
  ultimately show "coherent sha1 S c"
    using parts(8) by (simp add: coherent_def sound_def bodies_ok_def)
  show "filled_but (insert g A) c" if "filled_but A b"
    using that by (auto simp: filled_but_def)
  show "group_at c g = Some (new_group g fp s)" "length (groups c) = Suc (length (groups b))"
    using none(1) by (simp_all add: length_update)
qed

lemma commit_instance_eq:
  assumes "commit_instance g s x b = (i, c)"
  shows "i = numbered CHR ''n'' (next_instance b)"
    and "instances c = map_set i (new_instance i g s x) (instances b)"
    and "group_at c h = (if h = g then map_option (\<lambda>G. G\<lparr>occurrence_count := occurrence_count G + 1\<rparr>) (group_at b g)
                         else group_at b h)"
    and "map_keys (groups c) = map_keys (groups b)" and "length (groups c) = length (groups b)"
    and "bodies c = bodies b" and "group_of_print c = group_of_print b"
    and "body_of_hash c = body_of_hash b" and "body_ref_counts c = body_ref_counts b"
    and "group_index c =
           map_set g (set_add i (case index_at b g of None \<Rightarrow> [] | Some ids \<Rightarrow> ids)) (group_index b)"
    and "next_instance c = next_instance b + 1" and "next_group c = next_group b"
    and "next_body c = next_body b" and "summary c = summary b"
  using assms by (auto simp: commit_instance_def Let_def numbered_def simp del: list.map_comp)

lemma new_instance_simps [simp]:
  "inst_id (new_instance i g s x) = i" "inst_group (new_instance i g s x) = g"
  "unlinked (new_instance i g s x)" "references r (new_instance i g s x) = 0"
  "request_body_ref (new_instance i g s x) = None" "response_body_ref (new_instance i g s x) = None"
  by (simp_all add: new_instance_def unlinked_def references_def)

lemma commit_instance:
  assumes b: "coherent sha1 S b" and g: "group_at b g \<noteq> None"
    and c: "commit_instance g s x b = (i, c)"
  shows "coherent sha1 S c" and "filled_but {g} b \<Longrightarrow> filled_but {} c"
    and "instance_at c i = Some (new_instance i g s x)"
    and "length (instances c) = Suc (length (instances b))"
    and "accounted c = Suc (accounted b)" and "j \<noteq> i \<Longrightarrow> instance_at c j = instance_at b j"
proof -
  note eqs [simp] = commit_instance_eq(2-14) [OF c]
  have parts: "keys_ok b" "fresh_ok b" "links_ok b" "prints_ok b" "shapes_ok sha1 S b" "counts_ok b"
    "plain_instances b" "bodies_ok (referenced b) b"
    using b by (simp_all add: coherent_def sound_def)
  have none: "instance_at b i = None"
    using fresh_next(1) [OF parts(2)] commit_instance_eq(1) [OF c] by simp
  obtain ids where ids: "index_at b g = Some ids"
    using links_okD(6) [OF parts(3) g] by blast
  have "i \<notin> set ids"
    using links_okD(5) [OF parts(3) ids] none by force
  have inc: "in_group c h = in_group b h + of_bool (h = g)" for h
    using none by (simp add: in_group_def)
  have "counts_ok c"
    using parts(6) inc by (auto simp: counts_ok_def simp del: eqs(1) split: if_splits)
  moreover have "links_ok c"
  proof (rule links_okI)
    fix j y
    assume "instance_at c j = Some y"
    then show "inst_id y = j" "\<exists>ids. index_at c (inst_group y) = Some ids \<and> j \<in> set ids"
      using links_okD(1,2) [OF parts(3), of j y] ids by (auto split: if_splits)
  next
    fix h old
    assume h: "index_at c h = Some old"
    have cases: "(h = g \<and> old = set_add i ids) \<or> (h \<noteq> g \<and> index_at b h = Some old)"
      using h ids by (simp split: if_splits)
    then show "distinct old"
      using links_okD(3) [OF parts(3) ids] links_okD(3) [OF parts(3), of h old]
      by (elim disjE conjE) simp_all
    show "group_at c h \<noteq> None"
      using cases g links_okD(4) [OF parts(3), of h old] by (elim disjE conjE) simp_all
    show "\<exists>y. instance_at c j = Some y \<and> inst_group y = h" if j: "j \<in> set old" for j
    proof (cases "h = g")
      case True
      then have "j = i \<or> j \<in> set ids"
        using h j ids by (auto simp: set_add_def split: if_splits)
      then show ?thesis
        using links_okD(5) [OF parts(3) ids, of j] True by auto
    next
      case False
      then have "index_at b h = Some old"
        using h by simp
      then obtain y where "instance_at b j = Some y" "inst_group y = h"
        using links_okD(5) [OF parts(3)] j by blast
      then show ?thesis using none by auto
    qed
  next
    fix h
    assume "group_at c h \<noteq> None"
    then show "index_at c h \<noteq> None"
      using links_okD(6) [OF parts(3), of h] by (auto split: if_splits)
  qed
  moreover have "prints_ok c"
    using parts(4) g by (auto simp: prints_ok_def split: if_splits)
  moreover have "keys_ok c" "plain_instances c" "shapes_ok sha1 S c"
    using parts(1,5,7) by (auto simp: keys_ok_def plain_instances_def shapes_ok_def distinct_update split: if_splits)
  moreover have "dom (group_at c) = dom (group_at b)"
    by (auto simp: dom_def split: if_splits)
  then have "fresh_ok c"
    using parts(2) commit_instance_eq(1) [OF c]
    by (simp add: fresh_ok_def numbered_Suc subset_insertI2 del: domIff eqs(2))
  moreover have "referenced c = referenced b"
    using none by (auto simp: referenced_def)
  ultimately show "coherent sha1 S c"
    using parts(8) by (simp add: coherent_def sound_def bodies_ok_def)
  show "filled_but {} c" if "filled_but {g} b"
    using that by (auto simp: filled_but_def set_add_def split: option.splits)
  show "instance_at c i = Some (new_instance i g s x)" "length (instances c) = Suc (length (instances b))"
    "accounted c = Suc (accounted b)"
    using none by (simp_all add: length_update accounted_def)
  show "instance_at c j = instance_at b j" if "j \<noteq> i"
    using that by simp
qed

lemma resolve_eq:
  assumes "resolve_or_admit_body x b = (r, c)"
  shows "instances c = instances b" "groups c = groups b" "group_of_print c = group_of_print b"
    "group_index c = group_index b" "metadata c = metadata b" "next_instance c = next_instance b"
    "next_group c = next_group b" "accounted c = accounted b"
    "observed_instances (summary c) = observed_instances (summary b)"
  using assms
  by (auto simp: resolve_or_admit_body_def Let_def accounted_def split: option.splits if_splits)

lemma resolve_bodies_ok:
  assumes b: "bodies_ok r b" and fresh: "fresh_ok b"
    and c: "resolve_or_admit_body x b = (bid, c)"
  shows "bodies_ok (\<lambda>i. r i + of_bool (bid = Some i)) c"
proof -
  note inv = bodies_okD [OF b]
  consider (known) i where "map_of (body_of_hash b) (body_print x) = Some i"
    | (full) "map_of (body_of_hash b) (body_print x) = None" "bodies_cap \<le> length (bodies b)"
    | (new) "map_of (body_of_hash b) (body_print x) = None" "\<not> bodies_cap \<le> length (bodies b)"
    by (cases "map_of (body_of_hash b) (body_print x)") auto
  then show ?thesis
  proof cases
    case known
    have "0 < r i"
      using inv(3) known inv(2) by blast
    then have eq: "c = b\<lparr>body_ref_counts := map_set i (int (r i) + 1) (body_ref_counts b)\<rparr>" "bid = Some i"
      using c known inv(1) [of i] by (simp_all add: resolve_or_admit_body_def)
    then show ?thesis
      unfolding bodies_ok_def eq using inv \<open>0 < r i\<close> by (auto simp: dom_def)
  next
    case full
    then show ?thesis
      using c b by (auto simp: resolve_or_admit_body_def)
  next
    case new
    let ?i = "numbered CHR ''b'' (next_body b)"
    have i: "map_of (bodies b) ?i = None" "r ?i = 0"
      using fresh_next(3) [OF fresh] inv(2) [of ?i] by simp_all
    have other: "body_fingerprint y \<noteq> body_print x" if "map_of (bodies b) j = Some y" for j y
      using inv(3) [of "body_print x" j] that new(1) by auto
    have bid: "bid = Some ?i"
      using c new by (simp add: resolve_or_admit_body_def Let_def numbered_def)
    have "bodies_ok (\<lambda>i. r i + of_bool (bid = Some i))
        (b\<lparr>next_body := next_body b + 1,
           bodies := map_set ?i \<lparr>body_id = ?i, body_content = content x, body_type = content_type x,
             body_truncated = truncated x, canonicalized = False, body_fingerprint = body_print x\<rparr> (bodies b),
           body_of_hash := map_set (body_print x) ?i (body_of_hash b),
           body_ref_counts := map_set ?i 1 (body_ref_counts b)\<rparr>)"
      unfolding bodies_ok_def bid using inv i new(1) other by (auto simp: dom_def)
    then show ?thesis
      using c new by (auto simp: resolve_or_admit_body_def Let_def numbered_def)
  qed
qed

lemma resolve_sound:
  assumes b: "sound sha1 S b" and c: "resolve_or_admit_body x b = (bid, c)"
  shows "sound sha1 S c" and "length (bodies b) \<le> bodies_cap \<Longrightarrow> length (bodies c) \<le> bodies_cap"
proof -
  note eqs [simp] = resolve_eq [OF c]
  have parts: "keys_ok b" "fresh_ok b" "links_ok b" "prints_ok b" "shapes_ok sha1 S b" "counts_ok b"
    "plain_instances b"
    using b by (simp_all add: sound_def)
  have grow: "(bodies c = bodies b \<and> next_body c = next_body b) \<or>
      (\<exists>v. bodies c = map_set (numbered CHR ''b'' (next_body b)) v (bodies b) \<and>
           next_body c = next_body b + 1 \<and> length (bodies b) < bodies_cap)"
    using c by (auto simp: resolve_or_admit_body_def Let_def numbered_def split: option.splits if_splits)
  have "keys_ok c"
    using parts(1) grow by (auto simp: keys_ok_def distinct_update)
  moreover have "fresh_ok c"
    using parts(2) grow unfolding fresh_ok_def
    by (elim disjE exE conjE) (simp_all add: numbered_Suc subset_insertI2 del: domIff)
  moreover have "links_ok c = links_ok b" "prints_ok c = prints_ok b"
    "shapes_ok sha1 S c = shapes_ok sha1 S b" "counts_ok c = counts_ok b"
    "plain_instances c = plain_instances b"
    by (simp_all add: links_ok_def prints_ok_def shapes_ok_def counts_ok_def plain_instances_def in_group_def)
  ultimately show "sound sha1 S c"
    using parts by (simp add: sound_def)
  show "length (bodies c) \<le> bodies_cap" if "length (bodies b) \<le> bodies_cap"
    using grow that by (auto simp: length_update)
qed

lemma on_instance_frame [simp]:
  "groups (on_instance i f b) = groups b" "bodies (on_instance i f b) = bodies b"
  "group_of_print (on_instance i f b) = group_of_print b" "body_of_hash (on_instance i f b) = body_of_hash b"
  "body_ref_counts (on_instance i f b) = body_ref_counts b" "group_index (on_instance i f b) = group_index b"
  "next_instance (on_instance i f b) = next_instance b" "next_group (on_instance i f b) = next_group b"
  "next_body (on_instance i f b) = next_body b" "summary (on_instance i f b) = summary b"
  "instance_at (on_instance i f b) j = (if j = i then map_option f (instance_at b i) else instance_at b j)"
  "map_keys (instances (on_instance i f b)) = map_keys (instances b)"
  "length (instances (on_instance i f b)) = length (instances b)"
  by (auto simp: on_instance_def length_update dest: map_of_SomeD split: option.splits
      intro!: keys_update_mem mem_keys)

lemma accounted_on_instance [simp]: "accounted (on_instance i f b) = accounted b"
  by (simp add: accounted_def)

text \<open>A change to an instance that leaves its identity alone.\<close>

definition only_refs :: "(network_instance \<Rightarrow> network_instance) \<Rightarrow> bool" where
  "only_refs f \<longleftrightarrow>
     (\<forall>x. inst_id (f x) = inst_id x \<and> inst_group (f x) = inst_group x \<and> unlinked (f x) = unlinked x \<and>
        inst_method (f x) = inst_method x \<and> inst_url (f x) = inst_url x \<and> inst_status (f x) = inst_status x)"

lemma sound_on_instance:
  assumes b: "sound sha1 S b" and f: "only_refs f"
  shows "sound sha1 S (on_instance i f b)"
proof -
  let ?c = "on_instance i f b"
  have parts: "keys_ok b" "fresh_ok b" "links_ok b" "prints_ok b" "shapes_ok sha1 S b" "counts_ok b"
    "plain_instances b"
    using b by (simp_all add: sound_def)
  have same: "in_group ?c g = in_group b g" for g
  proof (cases "instance_at b i")
    case (Some x)
    then show ?thesis
      using value_sum_update [of "instances b" i x "\<lambda>x. of_bool (inst_group x = g)" "f x"] parts(1) f
      by (simp add: in_group_def keys_ok_def only_refs_def on_instance_def)
  qed (simp add: on_instance_def)
  have "links_ok ?c"
  proof (rule links_okI)
    fix j y
    assume "instance_at ?c j = Some y"
    then show "inst_id y = j" "\<exists>ids. index_at ?c (inst_group y) = Some ids \<and> j \<in> set ids"
      using links_okD(1,2) [OF parts(3), of j] f by (auto simp: only_refs_def split: if_splits)
  next
    fix g ids
    assume g: "index_at ?c g = Some ids"
    then show "distinct ids" "group_at ?c g \<noteq> None"
      using links_okD(3,4) [OF parts(3), of g ids] by auto
    show "\<exists>x. instance_at ?c j = Some x \<and> inst_group x = g" if "j \<in> set ids" for j
      using links_okD(5) [OF parts(3), of g ids j] g that f by (auto simp: only_refs_def)
  next
    show "index_at ?c g \<noteq> None" if "group_at ?c g \<noteq> None" for g
      using that links_okD(6) [OF parts(3), of g] by simp
  qed
  moreover have "plain_instances ?c"
    using parts(7) f by (auto simp: plain_instances_def only_refs_def split: if_splits)
  moreover have "dom (instance_at ?c) = dom (instance_at b)"
    by (auto simp: dom_def split: if_splits)
  then have "fresh_ok ?c"
    using parts(2) by (simp add: fresh_ok_def)
  moreover have "keys_ok ?c = keys_ok b" "prints_ok ?c = prints_ok b"
    "shapes_ok sha1 S ?c = shapes_ok sha1 S b" "counts_ok ?c = counts_ok b"
    by (simp_all add: keys_ok_def prints_ok_def shapes_ok_def counts_ok_def same)
  ultimately show ?thesis
    using parts by (simp add: sound_def)
qed

lemma referenced_on_instance:
  assumes "keys_ok b" and "instance_at b i = Some x"
  shows "referenced (on_instance i f b) r + references r x = referenced b r + references r (f x)"
  using value_sum_update [of "instances b" i x "references r" "f x"] assms
  by (simp add: referenced_def keys_ok_def on_instance_def)

text \<open>One body is committed: an exact reference to it is added to the instance.\<close>

lemma commit_body:
  fixes body :: "observation_body option"
  assumes b: "coherent sha1 S b" and i: "instance_at b i = Some x" and refs: "\<And>bid. only_refs (set_ref bid)"
    and adds: "\<And>bid r. references r (set_ref bid x) = references r x + of_bool (bid = r)"
  defines "c \<equiv> commit_body body set_ref i b"
  shows "coherent sha1 S c" and "accounted c = accounted b"
    and "observed_instances (summary c) = observed_instances (summary b)"
    and "filled_but A c = filled_but A b" and "length (instances c) = length (instances b)"
    and "length (groups c) = length (groups b)"
    and "length (bodies b) \<le> bodies_cap \<Longrightarrow> length (bodies c) \<le> bodies_cap"
    and "\<exists>y. instance_at c i = Some y \<and> (y = x \<or> (\<exists>bid. y = set_ref bid x))"
    and "j \<noteq> i \<Longrightarrow> instance_at c j = instance_at b j" and "groups c = groups b"
proof -
  have "coherent sha1 S c \<and> accounted c = accounted b \<and>
      observed_instances (summary c) = observed_instances (summary b) \<and> filled_but A c = filled_but A b \<and>
      length (instances c) = length (instances b) \<and> groups c = groups b \<and>
      (length (bodies b) \<le> bodies_cap \<longrightarrow> length (bodies c) \<le> bodies_cap) \<and>
      (\<exists>y. instance_at c i = Some y \<and> (y = x \<or> (\<exists>bid. y = set_ref bid x))) \<and>
      (j \<noteq> i \<longrightarrow> instance_at c j = instance_at b j)"
  proof (cases body)
    case None
    then show ?thesis using b i by (simp add: c_def commit_body_def)
  next
    case (Some body')
    obtain bid d where d: "resolve_or_admit_body body' b = (bid, d)"
      by fastforce
    have c: "c = (case bid of None \<Rightarrow> d | Some k \<Rightarrow> on_instance i (set_ref k) d)"
      using d Some by (simp add: c_def commit_body_def split: option.splits)
    have sound: "sound sha1 S b" "fresh_ok b" "bodies_ok (referenced b) b"
      using b by (simp_all add: coherent_def sound_def)
    note eqs = resolve_eq [OF d] and ds = resolve_sound [OF sound(1) d]
    have keys: "keys_ok d"
      using ds(1) by (simp add: sound_def)
    have "bodies_ok (\<lambda>k. referenced d k + of_bool (bid = Some k)) d"
      using resolve_bodies_ok [OF sound(3,2) d] by (simp add: referenced_def eqs)
    moreover have "referenced c k = referenced d k + of_bool (bid = Some k)" for k
    proof (cases bid)
      case (Some a)
      then show ?thesis
        using referenced_on_instance [OF keys, of i x "set_ref a" k] adds [of k a] i
        by (simp add: c eqs)
    qed (simp add: c)
    then have "referenced c = (\<lambda>k. referenced d k + of_bool (bid = Some k))"
      by (rule ext)
    moreover have "bodies_ok r c = bodies_ok r d" for r
      by (cases bid) (simp_all add: c bodies_ok_def)
    ultimately have "coherent sha1 S c"
      using ds(1) sound_on_instance [OF ds(1) refs] by (cases bid) (simp_all add: c coherent_def)
    then show ?thesis
      using ds(2) i by (cases bid) (auto simp: c eqs filled_but_def)
  qed
  then show "coherent sha1 S c" "accounted c = accounted b"
    "observed_instances (summary c) = observed_instances (summary b)"
    "filled_but A c = filled_but A b" "length (instances c) = length (instances b)"
    "length (groups c) = length (groups b)"
    "length (bodies b) \<le> bodies_cap \<Longrightarrow> length (bodies c) \<le> bodies_cap"
    "\<exists>y. instance_at c i = Some y \<and> (y = x \<or> (\<exists>bid. y = set_ref bid x))"
    "j \<noteq> i \<Longrightarrow> instance_at c j = instance_at b j" "groups c = groups b"
    by simp_all
qed

lemma only_refs_setters: "only_refs (\<lambda>x. x\<lparr>request_body_ref := r\<rparr>)" "only_refs (\<lambda>x. x\<lparr>response_body_ref := r\<rparr>)"
  by (simp_all add: only_refs_def unlinked_def)

definition same_request :: "network_instance \<Rightarrow> network_instance \<Rightarrow> bool" where
  "same_request x y \<longleftrightarrow>
     inst_group x = inst_group y \<and> inst_method x = inst_method y \<and> inst_url x = inst_url y \<and>
     inst_status x = inst_status y"

text \<open>An instance agrees with the group it names.\<close>

definition agrees :: "builder \<Rightarrow> network_instance \<Rightarrow> bool" where
  "agrees b x \<longleftrightarrow>
     (\<exists>G. group_at b (inst_group x) = Some G \<and> inst_method x = req_method (group_shape G) \<and>
          inst_url x = url (group_shape G) \<and> inst_status x = status (group_shape G))"

definition all_agree :: "builder \<Rightarrow> bool" where
  "all_agree b \<longleftrightarrow> (\<forall>i x. instance_at b i = Some x \<longrightarrow> agrees b x)"

lemma commit_bodies:
  fixes obs :: observation
  assumes b: "coherent sha1 S b" and i: "instance_at b i = Some x"
    and none: "request_body_ref x = None" "response_body_ref x = None"
  defines "c \<equiv> commit_bodies i obs b"
  shows "coherent sha1 S c" and "accounted c = accounted b"
    and "observed_instances (summary c) = observed_instances (summary b)"
    and "filled_but A c = filled_but A b" and "length (instances c) = length (instances b)"
    and "length (bodies b) \<le> bodies_cap \<Longrightarrow> length (bodies c) \<le> bodies_cap"
    and "j \<noteq> i \<Longrightarrow> instance_at c j = instance_at b j" and "groups c = groups b"
    and "\<exists>y. instance_at c i = Some y \<and> same_request y x"
proof -
  let ?f = "\<lambda>bid x. x\<lparr>request_body_ref := Some bid\<rparr>" and ?g = "\<lambda>bid x. x\<lparr>response_body_ref := Some bid\<rparr>"
  let ?d = "commit_body (request_body obs) ?f i b"
  have c: "c = commit_body (response_body obs) ?g i ?d"
    using i by (simp add: c_def commit_bodies_def)
  have f: "references r (?f bid x) = references r x + of_bool (bid = r)" for r bid
    using none by (simp add: references_def)
  note one = commit_body [where set_ref = ?f and body = "request_body obs",
      OF b i only_refs_setters(1) f]
  obtain y where y: "instance_at ?d i = Some y" "response_body_ref y = None" "same_request y x"
    using one(8) none by (fastforce simp: same_request_def)
  have g: "references r (?g bid y) = references r y + of_bool (bid = r)" for r bid
    using y by (simp add: references_def)
  note two = commit_body [where set_ref = ?g and body = "response_body obs",
      OF one(1) y(1) only_refs_setters(2) g]
  show "coherent sha1 S c" "accounted c = accounted b" "filled_but A c = filled_but A b"
    "observed_instances (summary c) = observed_instances (summary b)"
    "length (instances c) = length (instances b)" "groups c = groups b"
    unfolding c using one(1-6,10) two(1-6,10) by simp_all
  show "length (bodies c) \<le> bodies_cap" if "length (bodies b) \<le> bodies_cap"
    unfolding c using one(7) two(7) that by simp
  show "instance_at c j = instance_at b j" if "j \<noteq> i"
    unfolding c using one(9) two(9) that by simp
  show "\<exists>y. instance_at c i = Some y \<and> same_request y x"
    unfolding c using two(8) y(3) by (fastforce simp: same_request_def)
qed

lemma commit:
  assumes b: "coherent sha1 S b" and fill: "filled_but {} b" and fp: "fp = hash_shape sha1 (shape obs)"
    and s: "shape obs \<in> S" and ex: "existing = map_of (group_of_print b) fp"
    and room: "length (instances b) < instances_cap" "existing = None \<Longrightarrow> length (groups b) < groups_cap"
    and caps: "length (groups b) \<le> groups_cap" "length (bodies b) \<le> bodies_cap"
  defines "c \<equiv> commit fp existing obs b"
  shows "coherent sha1 S c" and "filled_but {} c" and "caps_ok c"
    and "accounted c = Suc (accounted b)"
    and "observed_instances (summary c) = observed_instances (summary b)"
    and "instance_at b j = Some y \<Longrightarrow> instance_at c j = Some y"
    and "inj_on (hash_shape sha1) S \<Longrightarrow> all_agree b \<Longrightarrow> all_agree c"
proof -
  obtain g b1 where one: "(case existing of Some g \<Rightarrow> (g, b)
      | None \<Rightarrow> commit_group fp (shape obs) (offset_ms (instance_of obs)) b) = (g, b1)"
    by fastforce
  obtain i b2 where two: "commit_instance g (shape obs) (instance_of obs) b1 = (i, b2)"
    by fastforce
  have c: "c = commit_bodies i obs b2"
    unfolding c_def commit_def using one two by simp
  have b1: "coherent sha1 S b1" "filled_but {g} b1" "group_at b1 g \<noteq> None"
    "length (groups b1) \<le> groups_cap" "instances b1 = instances b" "bodies b1 = bodies b"
    "summary b1 = summary b"
  proof -
    consider (old) "existing = Some g" "b1 = b"
      | (new) "existing = None" "commit_group fp (shape obs) (offset_ms (instance_of obs)) b = (g, b1)"
      using one by (cases existing) auto
    then have "coherent sha1 S b1 \<and> filled_but {g} b1 \<and> group_at b1 g \<noteq> None \<and>
      length (groups b1) \<le> groups_cap \<and> instances b1 = instances b \<and> bodies b1 = bodies b \<and>
      summary b1 = summary b"
    proof cases
      case old
      have "prints_ok b"
        using b by (simp add: coherent_def sound_def)
      then obtain G where "group_at b g = Some G"
        using prints_okD(1) [of b fp g] old(1) ex by auto
      with old b fill caps(1) filled_but_mono [OF fill, of "{g}"] show ?thesis by simp
    next
      case new
      have none: "map_of (group_of_print b) fp = None"
        using ex new(1) by simp
      note new_group = commit_group_coherent [OF b new(2) none fp s]
      show ?thesis
        using new_group(1,3,4) new_group(2) [OF fill] room(2) [OF new(1)] commit_group_eq(2,4,12) [OF new(2)]
        by simp
    qed
    then show "coherent sha1 S b1" "filled_but {g} b1" "group_at b1 g \<noteq> None"
      "length (groups b1) \<le> groups_cap" "instances b1 = instances b" "bodies b1 = bodies b"
      "summary b1 = summary b" by simp_all
  qed
  have acc: "accounted b1 = accounted b"
    using b1(5,7) by (simp add: accounted_def)
  note inst = commit_instance [OF b1(1) b1(3) two]
  note eqs = commit_instance_eq [OF two]
  note bods = commit_bodies [OF inst(1) inst(3) new_instance_simps(5) new_instance_simps(6), where obs = obs]
  show "coherent sha1 S c" "filled_but {} c" "accounted c = Suc (accounted b)"
    "observed_instances (summary c) = observed_instances (summary b)"
    unfolding c using bods(1-4) inst(2,5) b1(2,7) acc eqs(14) by simp_all
  show "caps_ok c"
    using bods(5,6,8) inst(4) eqs(5,6) b1(4-6) room(1) caps(2) by (simp add: c caps_ok_def)
  have fresh: "instance_at b i = None"
    using fresh_next(1) [of b1] eqs(1) b1(1,5) by (simp add: coherent_def sound_def)
  show "instance_at c j = Some y" if "instance_at b j = Some y"
  proof -
    have "j \<noteq> i" using that fresh by auto
    then show ?thesis
      unfolding c using bods(7) inst(6) that b1(5) by simp
  qed
  show "all_agree c" if inj: "inj_on (hash_shape sha1) S" and agree: "all_agree b"
  proof -
    have "(existing = Some g \<and> b1 = b) \<or> (existing = None \<and>
        commit_group fp (shape obs) (offset_ms (instance_of obs)) b = (g, b1))"
      using one by (cases existing) auto
    then have groups: "(\<forall>h H. group_at b h = Some H \<longrightarrow> group_at b1 h = Some H) \<and>
        (\<exists>G. group_at b1 g = Some G \<and> group_shape G = shape obs)"
    proof (elim disjE conjE)
      assume old: "existing = Some g" "b1 = b"
      have ok: "prints_ok b" "shapes_ok sha1 S b"
        using b by (simp_all add: coherent_def sound_def)
      obtain G where G: "group_at b g = Some G" "fingerprint G = fp"
        using prints_okD(1) [OF ok(1), of fp g] old(1) ex by auto
      then have "group_shape G = shape obs"
        using ok(2) inj s fp by (auto simp: shapes_ok_def inj_on_def)
      with G old(2) show ?thesis by simp
    next
      assume new: "commit_group fp (shape obs) (offset_ms (instance_of obs)) b = (g, b1)"
      have "group_at b g = None"
        using fresh_next(2) [of b] commit_group_eq(1) [OF new] b by (simp add: coherent_def sound_def)
      then show ?thesis
        using commit_group_eq(3) [OF new] by auto
    qed
    have shapes: "map_option group_shape (group_at c h) = map_option group_shape (group_at b1 h)" for h
      unfolding c using bods(8) eqs(3) [of h] by (simp add: option.map_comp o_def)
    have "agrees c y" if y: "instance_at c j = Some y" for j y
    proof (cases "j = i")
      case True
      then have "same_request y (new_instance i g (shape obs) (instance_of obs))"
        using bods(9) y by (auto simp: c)
      then show ?thesis
        using groups shapes [of g] by (auto simp: same_request_def new_instance_def agrees_def)
    next
      case False
      then have "agrees b y"
        using agree y bods(7) inst(6) b1(5) by (simp add: c all_agree_def)
      then obtain H where "group_at b (inst_group y) = Some H" "inst_method y = req_method (group_shape H)"
        "inst_url y = url (group_shape H)" "inst_status y = status (group_shape H)"
        by (auto simp: agrees_def)
      then show ?thesis
        using groups shapes [of "inst_group y"] by (auto simp: agrees_def)
    qed
    then show ?thesis by (simp add: all_agree_def)
  qed
qed

subsection \<open>Admitting\<close>

lemma sound_on_group:
  assumes b: "sound sha1 S b"
    and f: "\<And>G. group_shape (f G) = group_shape G" "\<And>G. fingerprint (f G) = fingerprint G"
      "\<And>G. group_id (f G) = group_id G"
      "\<And>G n. occurrence_count G = n + suppressed_count G + evicted_count G \<Longrightarrow>
         occurrence_count (f G) = n + suppressed_count (f G) + evicted_count (f G)"
  shows "sound sha1 S (on_group g f b)"
proof -
  let ?c = "on_group g f b"
  have parts: "keys_ok b" "fresh_ok b" "links_ok b" "prints_ok b" "shapes_ok sha1 S b" "counts_ok b"
    "plain_instances b"
    using b by (simp_all add: sound_def)
  have doms: "dom (group_at ?c) = dom (group_at b)"
    by (auto simp: dom_def split: if_splits)
  have "prints_ok ?c"
    using parts(4) f(2,3) by (auto simp: prints_ok_def split: if_splits)
  moreover have "shapes_ok sha1 S ?c" "counts_ok ?c"
    using parts(5,6) f(1,2,4) by (auto simp: shapes_ok_def counts_ok_def in_group_def split: if_splits)
  moreover have "keys_ok ?c = keys_ok b" "plain_instances ?c = plain_instances b"
    by (simp_all add: keys_ok_def plain_instances_def)
  moreover have "fresh_ok ?c = fresh_ok b" "links_ok ?c = links_ok b"
    using doms by (simp_all add: fresh_ok_def links_ok_def del: group_at_on_group)
  ultimately show ?thesis
    using parts by (simp add: sound_def)
qed

lemma note_duplicate_frame [simp]:
  "instances (note_duplicate fp off b) = instances b" "groups (note_duplicate fp off b) = groups b"
  "bodies (note_duplicate fp off b) = bodies b"
  "group_of_print (note_duplicate fp off b) = group_of_print b"
  "body_of_hash (note_duplicate fp off b) = body_of_hash b"
  "body_ref_counts (note_duplicate fp off b) = body_ref_counts b"
  "group_index (note_duplicate fp off b) = group_index b"
  "next_instance (note_duplicate fp off b) = next_instance b"
  "next_group (note_duplicate fp off b) = next_group b" "next_body (note_duplicate fp off b) = next_body b"
  "summary (note_duplicate fp off b) = summary b"
  by (simp_all add: note_duplicate_def split: option.splits)

text \<open>The state of a builder between two observations.\<close>

definition balanced :: "(string \<Rightarrow> string) \<Rightarrow> observation_shape set \<Rightarrow> builder \<Rightarrow> bool" where
  "balanced sha1 S b \<longleftrightarrow>
     coherent sha1 S b \<and> filled_but {} b \<and> caps_ok b \<and> accounted b = observed_instances (summary b)"

lemma note_duplicate_keeps [simp]:
  "coherent sha1 S (note_duplicate fp off b) = coherent sha1 S b"
  "filled_but A (note_duplicate fp off b) = filled_but A b"
  "caps_ok (note_duplicate fp off b) = caps_ok b" "accounted (note_duplicate fp off b) = accounted b"
  by (simp_all add: coherent_def sound_def sound_parts in_group_def bodies_ok_def
      referenced_def filled_but_def caps_ok_def accounted_def)

lemma new_builder_balanced [simp]: "balanced sha1 S new_builder"
  by (simp add: balanced_def coherent_def sound_def sound_parts in_group_def bodies_ok_def
      referenced_def filled_but_def caps_ok_def accounted_def new_builder_def empty_summary_def)

lemma settled_on_summary [simp]:
  "coherent sha1 S (on_summary f b) = coherent sha1 S b" "caps_ok (on_summary f b) = caps_ok b"
  "prints_ok (on_summary f b) = prints_ok b"
  by (simp_all add: coherent_def caps_ok_def prints_ok_def)

lemma settled_prints: "coherent sha1 S b \<Longrightarrow> prints_ok b"
  by (simp add: coherent_def sound_def)

lemma settled_suppress: "coherent sha1 S b \<Longrightarrow> coherent sha1 S (suppress g b)"
  by (simp add: coherent_def suppress_def sound_on_group)

lemma shrinks_prints:
  assumes "prints_ok b" "prints_ok c" "shrinks b c"
  shows "map_of (group_of_print b) fp = None \<Longrightarrow> map_of (group_of_print c) fp = None"
    and "map_of (group_of_print b) fp = Some g \<Longrightarrow> group_at c g \<noteq> None \<Longrightarrow>
         map_of (group_of_print c) fp = Some g"
proof -
  show "map_of (group_of_print c) fp = None" if none: "map_of (group_of_print b) fp = None"
  proof (rule ccontr)
    assume "map_of (group_of_print c) fp \<noteq> None"
    then obtain g G where "group_at c g = Some G" "fingerprint G = fp"
      using prints_okD(1) [OF assms(2)] by fastforce
    with shrinks_group [OF assms(3)] obtain K where "group_at b g = Some K" "fingerprint K = fp"
      by metis
    then show False
      using prints_okD(1) [OF assms(1), of fp g] none by auto
  qed
  show "map_of (group_of_print c) fp = Some g"
    if "map_of (group_of_print b) fp = Some g" "group_at c g \<noteq> None"
    using that shrinks_group [OF assms(3)] prints_okD(1) [OF assms(1)] prints_okD(1) [OF assms(2)]
    by fastforce
qed

text \<open>An instance of a lower priority is evicted, so the group of the observation stays.\<close>

lemma evicted_keeps_group:
  assumes b: "coherent sha1 S b" and inj: "inj_on (hash_shape sha1) S" and s: "s \<in> S"
    and ev: "evict_lowest_priority_instance s b = (True, c)" and fill: "filled_but {} b"
    and ex: "existing = map_of (group_of_print b) (hash_shape sha1 s)"
  shows "existing = map_of (group_of_print c) (hash_shape sha1 s)"
    and "coherent sha1 S c" "filled_but {} c" "shrinks b c"
    "length (instances b) = Suc (length (instances c))"
proof -
  have parts: "keys_ok b" "links_ok b" "prints_ok b" "shapes_ok sha1 S b"
    using b by (simp_all add: coherent_def sound_def)
  obtain i x where v: "instance_at b i = Some x" "c = remove_instance i True False b"
    "the (score_of b x) < priority_score s"
    using evict_instance_victim [OF parts(1,2) ev] by blast
  note rem = remove_instance [OF b fill v(1), folded v(2)]
  show "coherent sha1 S c" "filled_but {} c" "shrinks b c"
    "length (instances b) = Suc (length (instances c))"
    using rem(1-4) by simp_all
  then have pc: "prints_ok c"
    by (simp add: coherent_def sound_def)
  show "existing = map_of (group_of_print c) (hash_shape sha1 s)"
  proof (cases existing)
    case None
    then show ?thesis
      using shrinks_prints(1) [OF parts(3) pc rem(2)] ex by simp
  next
    case (Some g)
    then obtain G where G: "group_at b g = Some G" "fingerprint G = hash_shape sha1 s"
      using prints_okD(1) [OF parts(3)] ex by metis
    then have "group_shape G = s"
      using parts(4) inj s by (auto simp: shapes_ok_def inj_on_def)
    then have "priority_score G = priority_score s"
      using priority_of_shape [of G] by simp
    then have "g \<noteq> inst_group x"
      using v(3) G(1) by (auto simp: score_of_def)
    then have "group_at c g \<noteq> None"
      using rem(5) G(1) by simp
    then show ?thesis
      using shrinks_prints(2) [OF parts(3) pc rem(2), of "hash_shape sha1 s" g] ex Some by simp
  qed
qed

subsection \<open>What an observation does\<close>

text \<open>\<open>displaced s b x\<close>: \<open>x\<close> has a lower priority than the shape and no instance of the builder has a
  lower one than \<open>x\<close>.\<close>

definition displaced :: "'a priority_shape_scheme \<Rightarrow> builder \<Rightarrow> network_instance \<Rightarrow> bool" where
  "displaced s b x \<longleftrightarrow>
     the (score_of b x) < priority_score s \<and>
     (\<forall>j y. instance_at b j = Some y \<longrightarrow> the (score_of b x) \<le> the (score_of b y))"

text \<open>An observation, once counted, either only changes counts, or is committed to what is left
  after something of a lower priority made room for it.\<close>

definition same_shapes :: "builder \<Rightarrow> builder \<Rightarrow> bool" where
  "same_shapes b c \<longleftrightarrow>
     (\<forall>h. map_option group_shape (group_at c h) = map_option group_shape (group_at b h))"

definition rests :: "(string \<Rightarrow> string) \<Rightarrow> observation_shape set \<Rightarrow> builder \<Rightarrow> builder \<Rightarrow> bool" where
  "rests sha1 S b c \<longleftrightarrow>
     balanced sha1 S c \<and> observed_instances (summary c) = observed_instances (summary b) \<and>
     instances c = instances b \<and> same_shapes b c"

definition makes_room ::
  "(string \<Rightarrow> string) \<Rightarrow> observation_shape set \<Rightarrow> observation_shape \<Rightarrow> string option \<Rightarrow> builder \<Rightarrow> builder \<Rightarrow> bool" where
  "makes_room sha1 S s existing b c \<longleftrightarrow>
     coherent sha1 S c \<and> filled_but {} c \<and> shrinks b c \<and> length (instances c) < instances_cap \<and>
     existing = map_of (group_of_print c) (hash_shape sha1 s) \<and>
     (existing = None \<longrightarrow> length (groups c) < groups_cap) \<and>
     (\<forall>i x. instance_at b i = Some x \<longrightarrow> instance_at c i = Some x \<or> displaced s b x)"

text \<open>The state in which an observation is counted but not yet placed.\<close>

definition pending :: "(string \<Rightarrow> string) \<Rightarrow> observation_shape set \<Rightarrow> builder \<Rightarrow> bool" where
  "pending sha1 S b \<longleftrightarrow>
     coherent sha1 S b \<and> filled_but {} b \<and> caps_ok b \<and> Suc (accounted b) = observed_instances (summary b)"

lemma pending_parts:
  assumes "pending sha1 S b"
  shows "coherent sha1 S b" "filled_but {} b" "caps_ok b" "keys_ok b" "links_ok b" "prints_ok b"
    "Suc (accounted b) = observed_instances (summary b)"
  using assms by (simp_all add: pending_def coherent_def sound_def)

lemma balanced_pending:
  "balanced sha1 S b \<Longrightarrow> pending sha1 S (on_summary (\<lambda>s. s\<lparr>observed_instances := observed_instances s + 1\<rparr>) b)"
  by (simp add: balanced_def pending_def accounted_def)

lemma same_shapes_refl [simp]:
  "same_shapes b b" "same_shapes b (on_summary f b)" "same_shapes (on_summary f b) c = same_shapes b c"
  by (simp_all add: same_shapes_def)

lemma displaced_on_summary [simp]: "displaced s (on_summary f b) = displaced s b"
  by (simp add: displaced_def score_of_def fun_eq_iff)

text \<open>Counting the observation in one of the terminal buckets settles it.\<close>

lemma rests_on_summary:
  assumes "pending sha1 S b" and "accounted (on_summary f b) = Suc (accounted b)"
    and "observed_instances (f (summary b)) = observed_instances (summary b)"
  shows "rests sha1 S b (on_summary f b)"
  using assms by (simp add: rests_def balanced_def pending_def)

lemma rests_suppress:
  assumes "pending sha1 S b"
  shows "rests sha1 S b (suppress g b)"
  using assms settled_suppress [of sha1 S b g]
  by (auto simp: rests_def balanced_def pending_def suppress_def caps_ok_def accounted_def
      same_shapes_def option.map_comp o_def)

lemma makes_room_self:
  assumes "pending sha1 S b" and "existing = map_of (group_of_print b) (hash_shape sha1 s)"
    and "length (instances b) < instances_cap" and "existing = None \<Longrightarrow> length (groups b) < groups_cap"
  shows "makes_room sha1 S s existing b b"
  using assms by (simp add: makes_room_def pending_def)

lemma admit_instance_cases:
  assumes b: "pending sha1 S b" and inj: "inj_on (hash_shape sha1) S" and s: "shape obs \<in> S"
    and ex: "existing = map_of (group_of_print b) (hash_shape sha1 (shape obs))"
    and groups: "existing = None \<Longrightarrow> length (groups b) < groups_cap"
  defines "fp \<equiv> hash_shape sha1 (shape obs)"
  shows "rests sha1 S b (admit_instance fp existing obs b) \<or>
    (\<exists>c. admit_instance fp existing obs b = commit fp existing obs c \<and>
         makes_room sha1 S (shape obs) existing b c)"
proof (cases "instances_cap \<le> length (instances b)")
  case False
  then show ?thesis
    using makes_room_self [OF b ex _ groups] by (auto simp: admit_instance_def)
next
  case True
  obtain r c where ev: "evict_lowest_priority_instance (shape obs) b = (r, c)"
    by fastforce
  show ?thesis
  proof (cases r)
    case False
    then have "admit_instance fp existing obs b =
        on_summary (\<lambda>s. s\<lparr>dropped_by_instance_cap := dropped_by_instance_cap s + 1\<rparr>) b"
      using True ev evict_instance_fails [of "shape obs" b c] by (simp add: admit_instance_def)
    moreover have "rests sha1 S b
        (on_summary (\<lambda>s. s\<lparr>dropped_by_instance_cap := dropped_by_instance_cap s + 1\<rparr>) b)"
      by (rule rests_on_summary [OF b]) (simp_all add: accounted_def)
    ultimately show ?thesis by simp
  next
    case r: True
    note parts = pending_parts [OF b]
    obtain j y where v: "instance_at b j = Some y" "c = remove_instance j True False b"
      "displaced (shape obs) b y"
      using evict_instance_victim [OF parts(4,5), of "shape obs" c] ev r by (auto simp: displaced_def)
    note rem = remove_instance [OF parts(1,2) v(1), folded v(2)]
    have "existing = map_of (group_of_print c) (hash_shape sha1 (shape obs))"
      using evicted_keeps_group(1) [OF parts(1) inj s _ parts(2) ex, of c] ev r by simp
    moreover have "length (groups c) \<le> length (groups b)" "length (instances c) < instances_cap"
      using rem(2,4) parts(3) by (simp_all add: shrinks_def caps_ok_def)
    moreover have "instance_at c i = Some x \<or> displaced (shape obs) b x" if "instance_at b i = Some x" for i x
      using that v(1,3) rem(6) [of i] by (cases "i = j") simp_all
    ultimately have "makes_room sha1 S (shape obs) existing b c"
      using rem(1,2,3) groups unfolding makes_room_def by fastforce
    then show ?thesis
      using True ev r by (auto simp: admit_instance_def)
  qed
qed

text \<open>A group of a lower priority makes room for a new one, and for its first instance too.\<close>

lemma evicted_group_makes_room:
  assumes b: "pending sha1 S b" and none: "map_of (group_of_print b) (hash_shape sha1 s) = None"
    and ev: "evict_lowest_priority_group s b = (True, c)"
  shows "makes_room sha1 S s None b c"
proof -
  note parts = pending_parts [OF b]
  obtain g G where v: "group_at b g = Some G" "c = remove_group g True b"
    "priority_score G < priority_score s"
    "\<forall>h H. group_at b h = Some H \<longrightarrow> priority_score G \<le> priority_score H"
    using evict_group_victim [OF parts(4) ev] by blast
  note rem = remove_group [OF parts(1,2) v(1), folded v(2)]
  have "map_of (group_of_print c) (hash_shape sha1 s) = None"
    using shrinks_prints(1) [OF parts(6) settled_prints [OF rem(1)] rem(2) none] .
  moreover have "length (instances c) < instances_cap" "length (groups c) < groups_cap"
    using rem(4,5) parts(3) by (simp_all add: caps_ok_def)
  moreover have "instance_at c i = Some x \<or> displaced s b x" if x: "instance_at b i = Some x" for i x
  proof (cases "inst_group x = g")
    case True
    have "priority_score G \<le> the (score_of b y)" if "instance_at b j = Some y" for j y
      using grouped [OF parts(5) that] v(4) by (auto simp: score_of_def)
    moreover have "the (score_of b x) = priority_score G"
      using True v(1) by (simp add: score_of_def)
    ultimately show ?thesis
      using v(3) by (simp add: displaced_def)
  next
    case False
    then show ?thesis using rem(7) x by simp
  qed
  ultimately show ?thesis
    using rem(1,2,3) by (simp add: makes_room_def)
qed

lemma pending_note_duplicate [simp]:
  "pending sha1 S (note_duplicate fp off b) = pending sha1 S b"
  "displaced s (note_duplicate fp off b) = displaced s b"
  "shrinks (note_duplicate fp off b) c = shrinks b c"
  "same_shapes (note_duplicate fp off b) c = same_shapes b c"
  by (simp_all add: pending_def displaced_def score_of_def shrinks_def same_shapes_def fun_eq_iff)

lemma admit_cases:
  assumes b: "pending sha1 S b" and inj: "inj_on (hash_shape sha1) S" and s: "shape obs \<in> S"
    and b0: "b = on_summary (\<lambda>s. s\<lparr>observed_instances := observed_instances s + 1\<rparr>) b'"
  defines "fp \<equiv> hash_shape sha1 (shape obs)"
  shows "rests sha1 S b (admit sha1 obs b') \<or>
    (\<exists>c existing. admit sha1 obs b' = commit fp existing obs c \<and> makes_room sha1 S (shape obs) existing b c)"
proof (cases "is_low_signal_static_asset (shape obs)")
  case True
  have "rests sha1 S b (on_summary (\<lambda>s. s\<lparr>dropped_by_filter := dropped_by_filter s + 1\<rparr>) b)"
    by (rule rests_on_summary [OF b]) (simp_all add: accounted_def)
  then show ?thesis
    using True unfolding admit_def Let_def b0 [symmetric] by simp
next
  case high: False
  show ?thesis
  proof (cases "map_of (group_of_print b) fp")
    case (Some g)
    let ?c = "note_duplicate fp (offset_ms (instance_of obs)) b"
    let ?k = "case map_get (metadata ?c) fp of None \<Rightarrow> 1 | Some m \<Rightarrow> post_filter_count m"
    have admit: "admit sha1 obs b' = (if is_suppressed ?k then suppress g ?c else admit_instance fp (Some g) obs ?c)"
      using high Some unfolding admit_def Let_def b0 [symmetric] fp_def by simp
    have c: "pending sha1 S ?c"
      using b by simp
    have "rests sha1 S b d = rests sha1 S ?c d" "makes_room sha1 S (shape obs) ex b d = makes_room sha1 S (shape obs) ex ?c d"
      for d ex
      by (simp_all add: rests_def makes_room_def)
    then show ?thesis
      using rests_suppress [OF c, of g] admit_instance_cases [OF c inj s, of "Some g"] Some
      by (auto simp: admit fp_def)
  next
    case None
    obtain r c where ev: "evict_lowest_priority_group (shape obs) b = (r, c)"
      by fastforce
    consider (room) "length (groups b) < groups_cap" | (full) "groups_cap \<le> length (groups b)" "\<not> r"
      | (evict) "groups_cap \<le> length (groups b)" r
      by linarith
    then show ?thesis
    proof cases
      case room
      then have "admit sha1 obs b' = admit_instance fp None obs b"
        using high None unfolding admit_def Let_def b0 [symmetric] fp_def by simp
      then show ?thesis
        using admit_instance_cases [OF b inj s, of None] None room by (auto simp: fp_def)
    next
      case full
      then have "admit sha1 obs b' =
          on_summary (\<lambda>s. s\<lparr>dropped_by_group_cap := dropped_by_group_cap s + 1\<rparr>) b"
        using high None ev evict_group_fails [of "shape obs" b c]
        unfolding admit_def Let_def b0 [symmetric] fp_def by simp
      moreover have "rests sha1 S b (on_summary (\<lambda>s. s\<lparr>dropped_by_group_cap := dropped_by_group_cap s + 1\<rparr>) b)"
        by (rule rests_on_summary [OF b]) (simp_all add: accounted_def)
      ultimately show ?thesis by simp
    next
      case evict
      then have admit: "admit sha1 obs b' = admit_instance fp None obs c"
        using high None ev unfolding admit_def Let_def b0 [symmetric] fp_def by simp
      have c: "makes_room sha1 S (shape obs) None b c"
        using evicted_group_makes_room [OF b] None ev evict by (simp add: fp_def)
      then have "admit sha1 obs b' = commit fp None obs c"
        by (simp add: admit admit_instance_def makes_room_def)
      with c show ?thesis by blast
    qed
  qed
qed

lemma shrinks_agree:
  assumes "all_agree b" and "shrinks b c" and "links_ok c"
  shows "all_agree c"
  unfolding all_agree_def
proof (intro allI impI)
  fix i x
  assume x: "instance_at c i = Some x"
  then have "agrees b x"
    using assms(1,2) unfolding all_agree_def shrinks_def by blast
  then obtain K where K: "group_at b (inst_group x) = Some K" "inst_method x = req_method (group_shape K)"
    "inst_url x = url (group_shape K)" "inst_status x = status (group_shape K)"
    by (auto simp: agrees_def)
  obtain G where G: "group_at c (inst_group x) = Some G"
    using grouped [OF assms(3) x] by (auto simp: score_of_def)
  have "group_shape K = group_shape G"
    using shrinks_group [OF assms(2) G] K(1) by auto
  with G K show "agrees c x"
    by (auto simp: agrees_def)
qed

lemma same_shapes_agree:
  assumes "all_agree b" and "instances c = instances b" and "same_shapes b c"
  shows "all_agree c"
  unfolding all_agree_def
proof (intro allI impI)
  fix i x
  assume "instance_at c i = Some x"
  then obtain K where K: "group_at b (inst_group x) = Some K" "inst_method x = req_method (group_shape K)"
    "inst_url x = url (group_shape K)" "inst_status x = status (group_shape K)"
    using assms(1,2) by (auto simp: all_agree_def agrees_def)
  have "map_option group_shape (group_at c (inst_group x)) = Some (group_shape K)"
    using assms(3) K(1) by (simp add: same_shapes_def)
  with K(2-4) show "agrees c x"
    by (auto simp: agrees_def)
qed

lemma makes_room_commit:
  assumes b: "pending sha1 S b" and s: "shape obs \<in> S"
    and room: "makes_room sha1 S (shape obs) existing b c"
  defines "d \<equiv> commit (hash_shape sha1 (shape obs)) existing obs c"
  shows "balanced sha1 S d" and "observed_instances (summary d) = observed_instances (summary b)"
    and "instance_at b i = Some x \<Longrightarrow> instance_at d i = Some x \<or> displaced (shape obs) b x"
    and "inj_on (hash_shape sha1) S \<Longrightarrow> all_agree b \<Longrightarrow> all_agree d"
proof -
  have c: "coherent sha1 S c" "filled_but {} c" "shrinks b c" "length (instances c) < instances_cap"
    "existing = map_of (group_of_print c) (hash_shape sha1 (shape obs))"
    "existing = None \<Longrightarrow> length (groups c) < groups_cap"
    "instance_at b i = Some x \<Longrightarrow> instance_at c i = Some x \<or> displaced (shape obs) b x" for i x
    using room by (simp_all add: makes_room_def)
  have caps: "length (groups c) \<le> groups_cap" "length (bodies c) \<le> bodies_cap"
    using c(3) pending_parts(3) [OF b] by (simp_all add: shrinks_def caps_ok_def)
  note commit = commit [OF c(1,2) refl s c(5,4) c(6) caps, folded d_def]
  show obs: "observed_instances (summary d) = observed_instances (summary b)"
    using commit(5) c(3) by (simp add: shrinks_def)
  show "balanced sha1 S d"
    using commit(1-4) obs c(3) pending_parts(7) [OF b] by (simp add: balanced_def shrinks_def)
  show "instance_at d i = Some x \<or> displaced (shape obs) b x" if "instance_at b i = Some x"
    using c(7) [OF that] commit(6) by blast
  show "all_agree d" if "inj_on (hash_shape sha1) S" "all_agree b"
    using commit(7) that(1) shrinks_agree [OF that(2) c(3)] c(1)
    by (simp add: coherent_def sound_def)
qed

lemma admit:
  assumes b: "balanced sha1 S b" and inj: "inj_on (hash_shape sha1) S" and s: "shape obs \<in> S"
  shows "balanced sha1 S (admit sha1 obs b)"
    and "observed_instances (summary (admit sha1 obs b)) = Suc (observed_instances (summary b))"
    and "instance_at b i = Some x \<Longrightarrow> instance_at (admit sha1 obs b) i = Some x \<or> displaced (shape obs) b x"
    and "all_agree b \<Longrightarrow> all_agree (admit sha1 obs b)"
proof -
  let ?b = "on_summary (\<lambda>s. s\<lparr>observed_instances := observed_instances s + 1\<rparr>) b"
  note cases = admit_cases [OF balanced_pending [OF b] inj s refl]
    and room = makes_room_commit [OF balanced_pending [OF b] s]
  show "balanced sha1 S (admit sha1 obs b)"
    using cases room(1) by (auto simp: rests_def)
  show "observed_instances (summary (admit sha1 obs b)) = Suc (observed_instances (summary b))"
    using cases room(2) by (auto simp: rests_def)
  show "instance_at (admit sha1 obs b) i = Some x \<or> displaced (shape obs) b x" if "instance_at b i = Some x"
    using cases room(3) [of _ _ i x] that by (auto simp: rests_def)
  show "all_agree (admit sha1 obs b)" if "all_agree b"
  proof -
    have "all_agree ?b"
      using that by (simp add: all_agree_def agrees_def)
    then show ?thesis
      using cases room(4) [OF _ inj] same_shapes_agree by (auto simp: rests_def)
  qed
qed

end
