(* ===== verification/NetworkReport.thy ===== *)
theory NetworkReport
  imports NetworkAccounting "HOL-Library.Multiset"
begin

section \<open>What the network section of a report guarantees\<close>

text \<open>
  The properties of \<^verbatim>\<open>networkBuilder.ts\<close> over whole runs: a builder that has seen any
  observations gives a report, within the caps, whose counts add up, whose references resolve, whose
  instances are in time order and whose redirects are linked both ways; and no observation displaces
  one of its own or a higher priority. SHA-1 enters as a function that does not collide on the shapes
  seen.
\<close>

subsection \<open>Shapes and their fingerprints\<close>

definition shape_text :: "observation_shape \<Rightarrow> string" where
  "shape_text s = the (stringify (shape_json s))"

definition exact_status :: "observation_shape \<Rightarrow> bool" where
  "exact_status s \<longleftrightarrow> \<bar>status s\<bar> < 2 ^ 53"

lemma null_or_plain [simp]:
  "plain (null_or JStr x)" "plain (null_or JBool y)"
  by (simp_all add: null_or_def split: option.splits)

lemma null_or_inj [simp]:
  "null_or JStr x = null_or JStr x' \<longleftrightarrow> x = x'" "null_or JBool y = null_or JBool y' \<longleftrightarrow> y = y'"
  by (auto simp: null_or_def split: option.splits)

lemma shape_text_inj:
  assumes "exact_status s" "exact_status t" "shape_text s = shape_text t"
  shows "s = t"
proof -
  have some: "\<exists>u. stringify (shape_json r) = Some u" for r
    by (simp add: stringify_def shape_json_def)
  have "stringify (shape_json s) = stringify (shape_json t)"
    using some [of s] some [of t] assms(3) by (auto simp: shape_text_def)
  then have "shape_json s = shape_json t"
    using assms(1,2) by (intro stringify_inj) (simp_all add: shape_json_def exact_status_def)
  then show ?thesis
    by (simp add: shape_json_def)
qed

text \<open>The fingerprints of two shapes differ as long as SHA-1 does not collide on their texts.\<close>

lemma hash_shape_inj:
  assumes "inj_on sha1 (shape_text ` S)" and "\<forall>s \<in> S. exact_status s"
  shows "inj_on (hash_shape sha1) S"
  using assms shape_text_inj by (fastforce simp: inj_on_def hash_shape_def shape_text_def)

subsection \<open>Runs\<close>

definition builder_after :: "(string \<Rightarrow> string) \<Rightarrow> observation list \<Rightarrow> builder" where
  "builder_after sha1 obs = foldl (\<lambda>b x. admit sha1 x b) new_builder obs"

lemma builder_after_snoc [simp]:
  "builder_after sha1 [] = new_builder"
  "builder_after sha1 (obs @ [x]) = admit sha1 x (builder_after sha1 obs)"
  by (simp_all add: builder_after_def)

definition no_collision :: "(string \<Rightarrow> string) \<Rightarrow> observation list \<Rightarrow> bool" where
  "no_collision sha1 obs \<longleftrightarrow>
     inj_on sha1 (shape_text ` shape ` set obs) \<and> (\<forall>x \<in> set obs. exact_status (shape x))"

lemma no_collision_inj: "no_collision sha1 obs \<Longrightarrow> inj_on (hash_shape sha1) (shape ` set obs)"
  by (rule hash_shape_inj) (auto simp: no_collision_def)

lemma balanced_after:
  assumes "inj_on (hash_shape sha1) S" and "shape ` set obs \<subseteq> S"
  shows "balanced sha1 S (builder_after sha1 obs) \<and> all_agree (builder_after sha1 obs) \<and>
    observed_instances (summary (builder_after sha1 obs)) = length obs"
  using assms(2)
proof (induction obs rule: rev_induct)
  case Nil
  then show ?case by simp (simp add: all_agree_def new_builder_def empty_summary_def)
next
  case (snoc x obs)
  then show ?case using admit(1,2,4) [OF _ assms(1), of "builder_after sha1 obs" x] by simp
qed

lemma run_balanced:
  assumes "no_collision sha1 obs"
  shows "balanced sha1 (shape ` set obs) (builder_after sha1 obs)" "all_agree (builder_after sha1 obs)"
    "observed_instances (summary (builder_after sha1 obs)) = length obs"
  using balanced_after [OF no_collision_inj [OF assms], of obs] by simp_all

subsection \<open>Redirects\<close>

lemma find_index_Some:
  "find_index p xs = Some k \<Longrightarrow> k < length xs \<and> p (xs ! k) \<and> (\<forall>j < k. \<not> p (xs ! j))"
proof (induction xs arbitrary: k)
  case (Cons x xs)
  then show ?case
    by (auto split: if_splits simp: nth_Cons less_Suc_eq_0_disj split: nat.splits)
qed simp

lemma find_index_None: "find_index p xs = None \<longleftrightarrow> (\<forall>x \<in> set xs. \<not> p x)"
  by (induction xs) auto

text \<open>Only the two redirect fields change.\<close>

definition bare :: "network_instance \<Rightarrow> network_instance" where
  "bare x = x\<lparr>redirect_from_id := None, redirect_to_id := None\<rparr>"

lemma bare_simps [simp]:
  "bare (x\<lparr>redirect_from_id := r\<rparr>) = bare x" "bare (x\<lparr>redirect_to_id := t\<rparr>) = bare x"
  by (simp_all add: bare_def)

lemma bare_fields:
  assumes "bare x = bare y"
  shows "inst_id x = inst_id y" "inst_url x = inst_url y" "inst_group x = inst_group y"
    "inst_offset x = inst_offset y" "request_body_ref x = request_body_ref y"
    "response_body_ref x = response_body_ref y" "inst_method x = inst_method y"
    "inst_status x = inst_status y"
proof -
  have same: "inst_id z = inst_id (bare z)" "inst_url z = inst_url (bare z)"
    "inst_group z = inst_group (bare z)" "inst_offset z = inst_offset (bare z)"
    "request_body_ref z = request_body_ref (bare z)" "response_body_ref z = response_body_ref (bare z)"
    "inst_method z = inst_method (bare z)" "inst_status z = inst_status (bare z)" for z
    by (simp_all add: bare_def)
  show "inst_id x = inst_id y" "inst_url x = inst_url y" "inst_group x = inst_group y"
    "inst_offset x = inst_offset y" "request_body_ref x = request_body_ref y"
    "response_body_ref x = response_body_ref y" "inst_method x = inst_method y"
    "inst_status x = inst_status y"
    using same [of x] same [of y] assms by simp_all
qed

lemma link_redirects_bare [simp]: "map bare (link_redirects m xs) = map bare xs"
proof (induction m xs rule: link_redirects.induct)
  case (2 m x xs)
  have "map bare (xs[k := (xs ! k)\<lparr>redirect_from_id := r\<rparr>]) = map bare xs" for k r
    by (cases "k < length xs") (simp_all add: map_update list_update_same_conv list_update_beyond)
  with 2 show ?case
    by (auto split: option.splits)
qed simp

lemma link_redirects_length [simp]: "length (link_redirects m xs) = length xs"
  by (metis length_map link_redirects_bare)

lemma link_redirects_nth:
  assumes "p < length xs"
  shows "bare (link_redirects m xs ! p) = bare (xs ! p)"
  using assms by (metis link_redirects_bare link_redirects_length nth_map)

text \<open>What the loop does to a list in which no instance is linked forward yet.\<close>

lemma link_redirects_from:
  assumes "q < length xs" and "redirect_from_id (xs ! q) = Some s"
  shows "redirect_from_id (link_redirects m xs ! q) = Some s"
  using assms
proof (induction m xs arbitrary: q rule: link_redirects.induct)
  case (2 m x xs)
  show ?case
  proof (cases q)
    case 0
    then show ?thesis using "2.prems" by (auto split: option.splits)
  next
    case (Suc r)
    have keep: "redirect_from_id (xs[k := (xs ! k)\<lparr>redirect_from_id := t\<rparr>] ! r) = Some s"
      if "find_index (redirects_to u) xs = Some k" for k t u
      using find_index_Some [OF that] "2.prems" Suc by (auto simp: redirects_to_def nth_list_update)
    show ?thesis
      using Suc 2 keep by (auto split: option.splits)
  qed
qed simp

text \<open>A link forward is a link back from a later instance with the redirect's URL, a link back is new
  or a link forward from an earlier one, and a redirect is left alone only when every later instance
  with its URL is taken.\<close>

definition linked_at ::
  "(string, string) js_map \<Rightarrow> network_instance list \<Rightarrow> network_instance list \<Rightarrow> nat \<Rightarrow> bool" where
  "linked_at m xs ys p \<longleftrightarrow>
     (case redirect_to_id (ys ! p) of
        None \<Rightarrow>
          (\<forall>u q. map_of m (inst_id (xs ! p)) = Some u \<longrightarrow> u \<noteq> [] \<longrightarrow> p < q \<longrightarrow> q < length xs \<longrightarrow>
             inst_url (xs ! q) = u \<longrightarrow> redirect_from_id (ys ! q) \<noteq> None)
      | Some t \<Rightarrow>
          (\<exists>q. p < q \<and> q < length xs \<and> inst_id (xs ! q) = t \<and>
             redirect_from_id (ys ! q) = Some (inst_id (xs ! p)) \<and>
             map_of m (inst_id (xs ! p)) = Some (inst_url (xs ! q))))"

lemma all_later: "(\<forall>q. Suc r < q \<longrightarrow> P q) \<longleftrightarrow> (\<forall>q. r < q \<longrightarrow> P (Suc q))"
  by (metis Suc_less_eq2 Suc_less_eq)

lemma ex_later: "(\<exists>q. Suc r < q \<and> P q) \<longleftrightarrow> (\<exists>q. r < q \<and> P (Suc q))"
  by (metis Suc_less_eq2 Suc_less_eq)

lemma linked_at_Suc: "linked_at m (x # xs) (y # ys) (Suc r) = linked_at m xs ys r"
proof (cases "redirect_to_id (ys ! r)")
  case None
  have "linked_at m (x # xs) (y # ys) (Suc r) \<longleftrightarrow>
      (\<forall>q. Suc r < q \<longrightarrow> (\<forall>u. map_of m (inst_id (xs ! r)) = Some u \<longrightarrow> u \<noteq> [] \<longrightarrow> q < Suc (length xs) \<longrightarrow>
         inst_url ((x # xs) ! q) = u \<longrightarrow> redirect_from_id ((y # ys) ! q) \<noteq> None))"
    using None by (auto simp: linked_at_def)
  also have "\<dots> \<longleftrightarrow> linked_at m xs ys r"
    unfolding all_later using None by (auto simp: linked_at_def)
  finally show ?thesis .
next
  case (Some t)
  then show ?thesis
    by (simp add: linked_at_def ex_later)
qed

lemma linked_at_cong:
  assumes "length xs = length xs'" and "p < length xs"
    and "\<And>q. q < length xs \<Longrightarrow> inst_id (xs ! q) = inst_id (xs' ! q)"
    and "\<And>q. q < length xs \<Longrightarrow> inst_url (xs ! q) = inst_url (xs' ! q)"
  shows "linked_at m xs ys p = linked_at m xs' ys p"
proof (cases "redirect_to_id (ys ! p)")
  case None
  then show ?thesis
    using assms by (simp add: linked_at_def)
next
  case (Some t)
  then show ?thesis
    using assms by (simp add: linked_at_def) metis
qed

lemma unlinked_head:
  assumes "link_redirects m (x # xs) = x # link_redirects m xs" and "redirect_to_id x = None"
    and "map_of m (inst_id x) = Some u" and "u \<noteq> []"
  shows "find_index (redirects_to u) xs = None"
proof (rule ccontr)
  assume "find_index (redirects_to u) xs \<noteq> None"
  then obtain k where "find_index (redirects_to u) xs = Some k"
    by blast
  then have "hd (link_redirects m (x # xs)) = x\<lparr>redirect_to_id := Some (inst_id (xs ! k))\<rparr>"
    using assms(3,4) by simp
  then have "x = x\<lparr>redirect_to_id := Some (inst_id (xs ! k))\<rparr>"
    by (simp only: assms(1) list.sel)
  then have "redirect_to_id x = Some (inst_id (xs ! k))"
    by (metis network_instance.select_convs(16) network_instance.surjective network_instance.update_convs(16))
  then show False using assms(2) by simp
qed

lemma link_redirects_to:
  assumes "\<forall>x \<in> set xs. redirect_to_id x = None" and "p < length xs"
  shows "linked_at m xs (link_redirects m xs) p"
  using assms
proof (induction m xs arbitrary: p rule: link_redirects.induct)
  case (2 m x xs)
  have rest: "\<forall>y \<in> set xs. redirect_to_id y = None" and x: "redirect_to_id x = None"
    using "2.prems"(1) by simp_all
  show ?case
  proof (cases "link_redirects m (x # xs) = x # link_redirects m xs")
    case True
    have ih: "linked_at m xs (link_redirects m xs) r" if "r < length xs" for r
    proof (cases "map_of m (inst_id x)")
      case None
      then show ?thesis by (rule "2.IH"(1) [OF _ rest that])
    next
      case (Some u)
      then show ?thesis
        using "2.IH"(2) [OF Some _ rest that] "2.IH"(3) [OF Some _ _ rest that] unlinked_head [OF True x Some]
        by (cases "u = []") simp_all
    qed
    have taken: "redirect_from_id (link_redirects m xs ! q) \<noteq> None"
      if "map_of m (inst_id x) = Some u" "u \<noteq> []" "q < length xs" "inst_url (xs ! q) = u" for q u
    proof -
      have "find_index (redirects_to u) xs = None"
        by (rule unlinked_head [OF True x that(1,2)])
      then have "redirect_from_id (xs ! q) \<noteq> None"
        using that by (simp add: find_index_None redirects_to_def)
      then show ?thesis
        using link_redirects_from [of q xs _ m] that(3) by auto
    qed
    show ?thesis
    proof (cases p)
      case 0
      then show ?thesis
        using taken x by (auto simp: True linked_at_def gr0_conv_Suc simp del: link_redirects.simps)
    next
      case (Suc r)
      then show ?thesis
        using ih "2.prems"(2) by (simp add: True linked_at_Suc del: link_redirects.simps)
    qed
  next
    case False
    then obtain u k where k: "map_of m (inst_id x) = Some u" "u \<noteq> []"
      "find_index (redirects_to u) xs = Some k"
      by (auto split: option.splits if_splits)
    let ?ys = "xs[k := (xs ! k)\<lparr>redirect_from_id := Some (inst_id x)\<rparr>]"
    have eq: "link_redirects m (x # xs) =
        x\<lparr>redirect_to_id := Some (inst_id (xs ! k))\<rparr> # link_redirects m ?ys"
      using k by simp
    have kk: "k < length xs" "inst_url (xs ! k) = u"
      using find_index_Some [OF k(3)] by (simp_all add: redirects_to_def)
    have ys: "inst_id (?ys ! q) = inst_id (xs ! q)" "inst_url (?ys ! q) = inst_url (xs ! q)"
      "redirect_to_id (?ys ! q) = redirect_to_id (xs ! q)" for q
      using kk by (simp_all add: nth_list_update)
    have unset: "\<forall>y \<in> set ?ys. redirect_to_id y = None"
      using rest ys(3) by (simp add: all_set_conv_all_nth)
    show ?thesis
    proof (cases p)
      case 0
      have "redirect_from_id (link_redirects m ?ys ! k) = Some (inst_id x)"
        using kk by (intro link_redirects_from) simp_all
      then show ?thesis
        using 0 kk k(1)
        by (auto simp: eq linked_at_def simp del: link_redirects.simps intro!: exI [of _ "Suc k"])
    next
      case (Suc r)
      have "linked_at m ?ys (link_redirects m ?ys) r"
        using "2.IH"(4) [OF k unset] Suc "2.prems"(2) by simp
      then have "linked_at m xs (link_redirects m ?ys) r"
        using linked_at_cong [of ?ys xs r] ys Suc "2.prems"(2) by simp
      then show ?thesis
        by (simp add: eq Suc linked_at_Suc del: link_redirects.simps)
    qed
  qed
qed simp

lemma link_redirects_back:
  assumes "q < length xs" and "redirect_from_id (link_redirects m xs ! q) = Some s"
    and "\<forall>x \<in> set xs. redirect_to_id x = None"
  shows "redirect_from_id (xs ! q) = Some s \<or>
    (\<exists>p < q. inst_id (xs ! p) = s \<and> redirect_to_id (link_redirects m xs ! p) = Some (inst_id (xs ! q)))"
  using assms
proof (induction m xs arbitrary: q rule: link_redirects.induct)
  case (2 m x xs)
  have rest: "\<forall>y \<in> set xs. redirect_to_id y = None" and x: "redirect_to_id x = None"
    using "2.prems"(3) by simp_all
  show ?case
  proof (cases "link_redirects m (x # xs) = x # link_redirects m xs")
    case True
    have ih: "redirect_from_id (xs ! r) = Some s \<or>
        (\<exists>p < r. inst_id (xs ! p) = s \<and> redirect_to_id (link_redirects m xs ! p) = Some (inst_id (xs ! r)))"
      if "r < length xs" "redirect_from_id (link_redirects m xs ! r) = Some s" for r
    proof (cases "map_of m (inst_id x)")
      case None
      show ?thesis by (rule "2.IH"(1) [OF None that rest])
    next
      case (Some u)
      then show ?thesis
        using "2.IH"(2) [OF Some _ that rest] "2.IH"(3) [OF Some _ _ that rest] unlinked_head [OF True x Some]
        by (cases "u = []") simp_all
    qed
    show ?thesis
      using ih [of "q - 1"] "2.prems" True by (cases q) (auto simp: Ex_less_Suc2 simp del: link_redirects.simps)
  next
    case False
    then obtain u k where k: "map_of m (inst_id x) = Some u" "u \<noteq> []"
      "find_index (redirects_to u) xs = Some k"
      by (auto split: option.splits if_splits)
    let ?ys = "xs[k := (xs ! k)\<lparr>redirect_from_id := Some (inst_id x)\<rparr>]"
    have eq: "link_redirects m (x # xs) =
        x\<lparr>redirect_to_id := Some (inst_id (xs ! k))\<rparr> # link_redirects m ?ys"
      using k by simp
    have kk: "k < length xs"
      using find_index_Some [OF k(3)] by simp
    have unset: "\<forall>y \<in> set ?ys. redirect_to_id y = None"
      using rest kk by (auto simp: all_set_conv_all_nth nth_list_update)
    show ?thesis
    proof (cases q)
      case 0
      then show ?thesis using "2.prems"(2) by (simp add: eq del: link_redirects.simps)
    next
      case (Suc r)
      then have r: "r < length ?ys" "redirect_from_id (link_redirects m ?ys ! r) = Some s"
        using "2.prems"(1,2) by (simp_all add: eq del: link_redirects.simps)
      from "2.IH"(4) [OF k r unset] Suc kk show ?thesis
        by (auto simp: eq nth_list_update Ex_less_Suc2 simp del: link_redirects.simps split: if_splits)
    qed
  qed
qed simp

subsection \<open>Finalizing\<close>

lemma value_sum_values: "value_sum f m = sum_list (map f (map snd m))"
  by (simp add: value_sum_def o_def)

lemma sum_list_mset_eq:
  fixes f :: "'a \<Rightarrow> nat"
  shows "mset xs = mset ys \<Longrightarrow> sum_list (map f xs) = sum_list (map f ys)"
  by (metis mset_map sum_mset_sum_list)

text \<open>The instances of the report: those of the builder, in time order, with their links.\<close>

definition ordered :: "builder \<Rightarrow> network_instance list" where
  "ordered b = map_values (sort_key (temporal_key b) (instances b))"

definition final_instances :: "builder \<Rightarrow> network_instance list" where
  "final_instances b = link_redirects (instance_redirect b) (ordered b)"

lemma length_final [simp]: "length (final_instances b) = length (instances b)" "length (ordered b) = length (instances b)"
  by (simp_all add: final_instances_def ordered_def)

lemma mset_ordered: "mset (ordered b) = mset (map snd (instances b))"
  by (simp add: ordered_def)

lemma finish_group_instances [simp]: "finish_group (b\<lparr>instances := xs\<rparr>) m = finish_group b m"
  by (simp add: finish_group_def fun_eq_iff)

lemma settle_eq:
  "settle_builder b =
     b\<lparr>instances := zip (map_keys (sort_key (temporal_key b) (instances b))) (final_instances b),
       summary := (summary b)\<lparr>retained_instances := length (instances b), retained_groups := length (groups b),
                retained_bodies := length (bodies b)\<rparr>,
       groups := map (\<lambda>(g, G). (g, finish_group b (group_retained_counts (final_instances b)) G)) (groups b)\<rparr>"
proof -
  have "annotate_redirects (sort_instances b) =
      b\<lparr>instances := zip (map_keys (sort_key (temporal_key b) (instances b))) (final_instances b)\<rparr>"
    by (simp add: annotate_redirects_def sort_instances_def final_instances_def ordered_def)
  moreover have "map_values (zip (map_keys (sort_key (temporal_key b) (instances b))) (final_instances b))
      = final_instances b"
    by simp
  ultimately show ?thesis
    by (simp add: settle_builder_def)
qed

lemma settle_frame:
  "map_values (instances (settle_builder b)) = final_instances b"
  "bodies (settle_builder b) = bodies b"
  "groups (settle_builder b) =
     map (\<lambda>(g, G). (g, finish_group b (group_retained_counts (final_instances b)) G)) (groups b)"
  "summary (settle_builder b) =
     (summary b)\<lparr>retained_instances := length (instances b), retained_groups := length (groups b),
                retained_bodies := length (bodies b)\<rparr>"
  by (simp_all add: settle_eq)

lemma group_retained_counts:
  "(case map_of (group_retained_counts xs) g of None \<Rightarrow> 0 | Some n \<Rightarrow> n) =
     sum_list (map (\<lambda>x. of_bool (inst_group x = g)) xs)"
proof -
  have "(case map_of (foldl (\<lambda>m x. map_set (inst_group x)
            ((case map_of m (inst_group x) of None \<Rightarrow> 0 | Some n \<Rightarrow> n) + 1) m) m xs) g of
          None \<Rightarrow> 0 | Some n \<Rightarrow> n) =
      (case map_of m g of None \<Rightarrow> 0 | Some n \<Rightarrow> n) +
      (sum_list (map (\<lambda>x. of_bool (inst_group x = g)) xs) :: nat)" for m
    by (induction xs arbitrary: m) (auto split: option.splits)
  then show ?thesis by (simp add: group_retained_counts_def)
qed

lemma map_final:
  assumes "\<And>x y. bare x = bare y \<Longrightarrow> f x = f y"
  shows "map f (final_instances b) = map f (ordered b)"
proof (rule nth_equalityI)
  fix p
  assume "p < length (map f (final_instances b))"
  then have p: "p < length (ordered b)" by simp
  then show "map f (final_instances b) ! p = map f (ordered b) ! p"
    using assms [OF link_redirects_nth [OF p, of "instance_redirect b"]]
    by (simp add: final_instances_def)
qed simp

lemma sum_final:
  fixes f :: "network_instance \<Rightarrow> nat"
  assumes "\<And>x y. bare x = bare y \<Longrightarrow> f x = f y"
  shows "sum_list (map f (final_instances b)) = value_sum f (instances b)"
proof -
  have "map f (final_instances b) = map f (ordered b)"
    using assms by (rule map_final)
  then show ?thesis
    unfolding value_sum_values by (simp only: sum_list_mset_eq [OF mset_ordered])
qed

lemma in_group_final: "sum_list (map (\<lambda>x. of_bool (inst_group x = g)) (final_instances b)) = in_group b g"
  unfolding in_group_def by (rule sum_final) (drule bare_fields(3), simp)

lemma referenced_final: "sum_list (map (references r) (final_instances b)) = referenced b r"
  unfolding referenced_def by (rule sum_final) (frule bare_fields(5), drule bare_fields(6), simp add: references_def)

lemma finish_group_counts [simp]:
  "retained_count (finish_group b m G) = (case map_of m (group_id G) of None \<Rightarrow> 0 | Some n \<Rightarrow> n)"
  "suppressed_count (finish_group b m G) = suppressed_count G"
  "evicted_count (finish_group b m G) = evicted_count G"
  "occurrence_count (finish_group b m G) = occurrence_count G"
  "group_id (finish_group b m G) = group_id G" "fingerprint (finish_group b m G) = fingerprint G"
  "req_method (finish_group b m G) = req_method G" "url (finish_group b m G) = url G"
  "status (finish_group b m G) = status G"
  by (simp_all add: finish_group_def Let_def split: option.splits)

lemma settled_books:
  assumes "balanced sha1 S b"
  shows "assert_invariants (settle_builder b) = None"
proof -
  have b: "counts_ok b" "prints_ok b" "keys_ok b" "accounted b = observed_instances (summary b)"
    using assms by (simp_all add: balanced_def coherent_def sound_def)
  have "expected_count H = occurrence_count H" if H: "H \<in> set (map_values (groups (settle_builder b)))" for H
  proof -
    obtain g G where G: "(g, G) \<in> set (groups b)"
      "H = finish_group b (group_retained_counts (final_instances b)) G"
      using H by (auto simp: settle_frame)
    then have at: "group_at b g = Some G"
      using b(3) by (simp add: keys_ok_def)
    then have "occurrence_count G = in_group b g + suppressed_count G + evicted_count G" "group_id G = g"
      using b(1,2) by (simp_all add: counts_ok_def prints_ok_def)
    then show ?thesis
      by (simp add: G(2) expected_count_def group_retained_counts in_group_final)
  qed
  then have "find (\<lambda>G. expected_count G \<noteq> occurrence_count G) (map_values (groups (settle_builder b))) = None"
    by (auto simp: find_None_iff)
  moreover have "total_accounted (summary (settle_builder b)) = observed_instances (summary (settle_builder b))"
    using b(4) by (simp add: settle_frame total_accounted_def accounted_def)
  ultimately show ?thesis
    by (simp add: assert_invariants_def)
qed

lemma finalize_balanced:
  assumes "balanced sha1 S b"
  shows "finalize b = Inr
    \<lparr>report_summary = summary (settle_builder b), report_instances = final_instances b,
     report_groups = groups (settle_builder b), report_bodies = bodies b\<rparr>"
  using settled_books [OF assms] by (simp add: finalize_def Let_def settle_frame)

subsection \<open>The report\<close>

text \<open>The counts of a report add up, within the caps.\<close>

definition counts_add_up :: "nat \<Rightarrow> network_report \<Rightarrow> bool" where
  "counts_add_up n r \<longleftrightarrow>
     observed_instances (report_summary r) = n \<and> total_accounted (report_summary r) = n \<and>
     retained_instances (report_summary r) = length (report_instances r) \<and>
     retained_groups (report_summary r) = length (report_groups r) \<and>
     retained_bodies (report_summary r) = length (report_bodies r) \<and>
     list_all (\<lambda>G. occurrence_count G = expected_count G \<and>
        retained_count G = length (filter (\<lambda>x. inst_group x = group_id G) (report_instances r)))
       (map_values (report_groups r))"

definition within_caps :: "network_report \<Rightarrow> bool" where
  "within_caps r \<longleftrightarrow>
     length (report_instances r) \<le> 500 \<and> length (report_groups r) \<le> 200 \<and> length (report_bodies r) \<le> 100"

lemma sum_list_of_bool: "sum_list (map (\<lambda>x. of_bool (P x)) xs) = length (filter P xs)"
  by (induction xs) auto

lemma report_of_run:
  assumes "no_collision sha1 obs"
  shows "build_report sha1 obs = Inr
    \<lparr>report_summary = summary (settle_builder (builder_after sha1 obs)),
     report_instances = final_instances (builder_after sha1 obs),
     report_groups = groups (settle_builder (builder_after sha1 obs)),
     report_bodies = bodies (builder_after sha1 obs)\<rparr>"
  using finalize_balanced [OF run_balanced(1) [OF assms]] by (simp add: build_report_def builder_after_def)

text \<open>C3: Whatever requests a test made, the network section is produced: neither check of
  \<open>assertInvariants\<close> throws, every request is in exactly one of the terminal counts, the counts of
  each group add up, and there are at most 500 instances, 200 groups and 100 bodies.\<close>

theorem report_counts_balance:
  assumes "no_collision sha1 obs"
  shows "\<exists>r. build_report sha1 obs = Inr r \<and> counts_add_up (length obs) r \<and> within_caps r"
proof -
  let ?b = "builder_after sha1 obs"
  note run = run_balanced [OF assms]
  have parts: "keys_ok ?b" "prints_ok ?b" "caps_ok ?b" "accounted ?b = length obs"
    using run(1,3) by (simp_all add: balanced_def coherent_def sound_def)
  have no_error: "assert_invariants (settle_builder ?b) = None"
    by (rule settled_books [OF run(1)])
  then have "find (\<lambda>G. expected_count G \<noteq> occurrence_count G) (map_values (groups (settle_builder ?b))) = None"
    by (simp add: assert_invariants_def split: if_splits option.splits)
  then have "list_all (\<lambda>G. occurrence_count G = expected_count G) (map_values (groups (settle_builder ?b)))"
    by (auto simp: find_None_iff list_all_iff)
  moreover have "retained_count G = length (filter (\<lambda>x. inst_group x = group_id G) (final_instances ?b))"
    if "G \<in> set (map_values (groups (settle_builder ?b)))" for G
    using that by (auto simp: settle_frame group_retained_counts sum_list_of_bool)
  ultimately have "counts_add_up (length obs)
    \<lparr>report_summary = summary (settle_builder ?b), report_instances = final_instances ?b,
     report_groups = groups (settle_builder ?b), report_bodies = bodies ?b\<rparr>"
    using run(3) parts(4)
    by (simp add: counts_add_up_def list_all_iff settle_frame(4) total_accounted_def accounted_def)
      (simp add: settle_frame)
  then show ?thesis
    using parts(3)
    by (simp add: report_of_run [OF assms] within_caps_def caps_ok_def instances_cap_def groups_cap_def
        bodies_cap_def settle_frame)
qed

definition example_observation :: "string \<Rightarrow> int \<Rightarrow> rat \<Rightarrow> string option \<Rightarrow> observation" where
  "example_observation u st t target =
     \<lparr>shape = \<lparr>status = st, resource_type = Some ''xhr'', failure_text = None, was_aborted = None,
               req_method = ''GET'', url = u\<rparr>,
      instance_of = \<lparr>offset_ms = Some t, duration_ms = None, timings = None, trace_id = None,
                     span_id = None, request_id = None, correlation_id = None, redirect_to_url = target\<rparr>,
      request_body = None,
      response_body = Some \<lparr>content = ''{}'', content_type = None, truncated = False,
                            body_print = hash_body (\<lambda>s. s) ''{}'' None\<rparr>\<rparr>"

definition example_run :: "observation list" where
  "example_run =
     [example_observation ''/b'' 200 7 None, example_observation ''/a'' 302 3 (Some ''/b''),
      example_observation ''/b'' 200 9 None]"

lemma example_run_ok: "no_collision (\<lambda>s. s) example_run" "no_collision (\<lambda>s. s) (butlast example_run @ [last example_run])"
  by (simp_all add: no_collision_def exact_status_def example_run_def example_observation_def)

theorem report_counts_balance_witness:
  "\<exists>r. build_report (\<lambda>s. s) example_run = Inr r \<and> counts_add_up 3 r \<and> within_caps r"
proof -
  have "length example_run = 3"
    by (simp add: example_run_def)
  then show ?thesis
    using report_counts_balance [OF example_run_ok(1)] by simp
qed

text \<open>What the parts of a report name is in the report.\<close>

definition resolves :: "network_report \<Rightarrow> network_instance \<Rightarrow> bool" where
  "resolves r x \<longleftrightarrow>
     (case map_of (report_groups r) (inst_group x) of
        None \<Rightarrow> False
      | Some G \<Rightarrow> inst_method x = req_method G \<and> inst_url x = url G \<and> inst_status x = status G) \<and>
     (case request_body_ref x of None \<Rightarrow> True | Some i \<Rightarrow> map_has (report_bodies r) i) \<and>
     (case response_body_ref x of None \<Rightarrow> True | Some i \<Rightarrow> map_has (report_bodies r) i)"

definition names_resolve :: "network_report \<Rightarrow> bool" where
  "names_resolve r \<longleftrightarrow>
     distinct (map inst_id (report_instances r)) \<and> list_all (resolves r) (report_instances r) \<and>
     list_all (\<lambda>p. group_id (snd p) = fst p \<and> list_ex (\<lambda>x. inst_group x = fst p) (report_instances r))
       (report_groups r) \<and>
     list_all (\<lambda>p. body_id (snd p) = fst p \<and> list_ex (\<lambda>x. 0 < references (fst p) x) (report_instances r))
       (report_bodies r)"

lemma ordered_bare:
  assumes "x \<in> set (final_instances b)"
  shows "\<exists>i y. (i, y) \<in> set (instances b) \<and> bare x = bare y"
proof -
  have "bare x \<in> set (map bare (ordered b))"
    using assms by (metis final_instances_def image_eqI link_redirects_bare set_map)
  also have "set (map bare (ordered b)) = set (map bare (map snd (instances b)))"
    by (simp add: ordered_def image_image)
  finally obtain y where "y \<in> snd ` set (instances b)" "bare x = bare y"
    by auto
  moreover from this(1) obtain i where "(i, y) \<in> set (instances b)"
    by auto
  ultimately show ?thesis by blast
qed

lemma positive_sum: "0 < sum_list (map f xs) \<longleftrightarrow> (\<exists>x \<in> set xs. 0 < (f x :: nat))"
  by (induction xs) auto

lemma final_ids: "map inst_id (final_instances b) = map inst_id (ordered b)"
  by (rule map_final) (rule bare_fields(1))

text \<open>The report a builder would give, and that each part of it is in order.\<close>

definition report_of :: "builder \<Rightarrow> network_report" where
  "report_of b =
     \<lparr>report_summary = summary (settle_builder b), report_instances = final_instances b,
      report_groups = groups (settle_builder b), report_bodies = bodies b\<rparr>"

lemma final_ids_distinct:
  assumes "keys_ok b" "links_ok b"
  shows "distinct (map inst_id (final_instances b))"
proof -
  have "inst_id x = i" if "(i, x) \<in> set (instances b)" for i x
    using that links_okD(1) [OF assms(2)] assms(1) by (simp add: keys_ok_def)
  then have "map inst_id (map snd (instances b)) = map_keys (instances b)"
    by (auto intro: map_cong)
  then have "mset (map inst_id (ordered b)) = mset (map_keys (instances b))"
    using mset_ordered [of b] by (metis mset_map)
  then show ?thesis
    using assms(1) by (metis final_ids keys_ok_def mset_eq_imp_distinct_iff)
qed

lemma final_resolves:
  assumes "keys_ok b" "bodies_ok (referenced b) b" "all_agree b" "x \<in> set (final_instances b)"
  shows "resolves (report_of b) x"
proof -
  obtain i y where y: "(i, y) \<in> set (instances b)" "bare x = bare y"
    using ordered_bare [OF assms(4)] by blast
  then have at: "instance_at b i = Some y"
    using assms(1) by (simp add: keys_ok_def)
  note same = bare_fields [OF y(2)]
  have groups_eq: "map_of (groups (settle_builder b)) g =
      map_option (finish_group b (group_retained_counts (final_instances b))) (group_at b g)" for g
    by (simp add: settle_frame(3) map_of_map)
  have held: "map_has (bodies b) k" if "0 < referenced b k" for k
    using bodies_okD(2) [OF assms(2)] that by (simp add: map_has_def)
  have used: "0 < referenced b k" if "request_body_ref y = Some k \<or> response_body_ref y = Some k" for k
    unfolding referenced_def using value_sum_pos [OF at, of "references k"] that
    by (auto simp: references_def)
  have "agrees b y"
    using assms(3) at by (simp add: all_agree_def)
  then show ?thesis
    using same held used
    by (auto simp: resolves_def report_of_def groups_eq agrees_def group_shape_def
        observation_shape.truncate_def split: option.splits)
qed

lemma final_group_used:
  assumes "keys_ok b" "links_ok b" "prints_ok b" "filled_but {} b"
    and G: "(g, G) \<in> set (groups (settle_builder b))"
  shows "group_id G = g \<and> list_ex (\<lambda>x. inst_group x = g) (final_instances b)"
proof -
  obtain H where H: "group_at b g = Some H" "group_id G = group_id H"
    using G assms(1) by (auto simp: settle_frame keys_ok_def)
  obtain ids where ids: "index_at b g = Some ids"
    using links_okD(6) [OF assms(2), of g] H(1) by auto
  then have "ids \<noteq> []"
    using assms(4) by (auto simp: filled_but_def)
  then obtain x where "instance_at b (hd ids) = Some x" "inst_group x = g"
    using links_okD(5) [OF assms(2) ids, of "hd ids"] by auto
  then have "0 < in_group b g"
    using in_groupD by blast
  then have "\<exists>x \<in> set (final_instances b). 0 < (of_bool (inst_group x = g) :: nat)"
    unfolding in_group_final [symmetric] positive_sum .
  then show ?thesis
    using H prints_okD(2) [OF assms(3) H(1)] by (auto simp: list_ex_iff)
qed

lemma final_body_used:
  assumes "keys_ok b" "bodies_ok (referenced b) b" "(k, B) \<in> set (bodies b)"
  shows "body_id B = k \<and> list_ex (\<lambda>x. 0 < references k x) (final_instances b)"
proof -
  have at: "map_of (bodies b) k = Some B"
    using assms(1,3) by (simp add: keys_ok_def)
  then have "0 < referenced b k"
    using bodies_okD(2) [OF assms(2), of k] by simp
  then show ?thesis
    using bodies_okD(4) [OF assms(2) at] positive_sum
    by (auto simp: referenced_final [symmetric] list_ex_iff)
qed

text \<open>C10: The report is closed: ids of instances are distinct, every instance names a group of the
  report with its own method, URL and status, and bodies of the report; every group has an instance
  in the report and every body a reference to it, so nothing is dangling and nothing is kept for
  nothing.\<close>

theorem report_names_resolve:
  assumes "no_collision sha1 obs"
  shows "\<exists>r. build_report sha1 obs = Inr r \<and> names_resolve r"
proof -
  let ?b = "builder_after sha1 obs"
  note run = run_balanced [OF assms]
  have parts: "keys_ok ?b" "links_ok ?b" "prints_ok ?b" "filled_but {} ?b" "bodies_ok (referenced ?b) ?b"
    using run(1) by (simp_all add: balanced_def coherent_def sound_def)
  have "names_resolve (report_of ?b)"
    using final_ids_distinct [OF parts(1,2)] final_resolves [OF parts(1,5) run(2)]
      final_group_used [OF parts(1,2,3,4)] final_body_used [OF parts(1,5)]
    by (auto simp: names_resolve_def list_all_iff report_of_def)
  then show ?thesis
    by (simp add: report_of_run [OF assms] report_of_def)
qed

theorem report_names_resolve_witness:
  "\<exists>r. build_report (\<lambda>s. s) example_run = Inr r \<and> names_resolve r"
  by (rule report_names_resolve [OF example_run_ok(1)])

subsection \<open>Time and redirects\<close>

definition in_time_order :: "network_instance list \<Rightarrow> bool" where
  "in_time_order xs \<longleftrightarrow> sorted_wrt (\<lambda>x y. \<not> offset_less (inst_offset y) (inst_offset x)) xs"

lemma in_time_map: "in_time_order xs = sorted_wrt (\<lambda>s t. \<not> offset_less t s) (map inst_offset xs)"
  by (simp add: in_time_order_def sorted_wrt_map)

lemma ordered_in_time: "in_time_order (ordered b)"
proof -
  have "sorted (map (temporal_key b) (sort_key (temporal_key b) (instances b)))"
    by simp
  then have "sorted_wrt (\<lambda>p q. temporal_key b p \<le> temporal_key b q) (sort_key (temporal_key b) (instances b))"
    by (simp add: sorted_wrt_map)
  moreover have "\<not> offset_less (inst_offset (snd q)) (inst_offset (snd p))"
    if "temporal_key b p \<le> temporal_key b q" for p q
    using that by (auto simp: temporal_key_def less_eq_prod_def split: option.splits)
  ultimately show ?thesis
    unfolding in_time_order_def ordered_def sorted_wrt_map
    by (elim sorted_wrt_mono_rel [rotated]) simp
qed

lemma final_in_time: "in_time_order (final_instances b)"
proof -
  have "map inst_offset (final_instances b) = map inst_offset (ordered b)"
    by (rule map_final) (rule bare_fields(4))
  then show ?thesis
    using ordered_in_time [of b] in_time_map by metis
qed

text \<open>A redirect points forward in time, from one instance to one other, and back.\<close>

definition redirects_paired :: "network_instance list \<Rightarrow> bool" where
  "redirects_paired xs \<longleftrightarrow>
     (\<forall>p < length xs. \<forall>t. redirect_to_id (xs ! p) = Some t \<longrightarrow>
        (\<exists>q < length xs. p < q \<and> inst_id (xs ! q) = t \<and>
           redirect_from_id (xs ! q) = Some (inst_id (xs ! p)))) \<and>
     (\<forall>q < length xs. \<forall>s. redirect_from_id (xs ! q) = Some s \<longrightarrow>
        (\<exists>p < q. inst_id (xs ! p) = s \<and> redirect_to_id (xs ! p) = Some (inst_id (xs ! q))))"

lemma final_redirects:
  assumes b: "balanced sha1 S b"
  shows "redirects_paired (final_instances b)"
    and "p < length (final_instances b) \<Longrightarrow>
      linked_at (instance_redirect b) (final_instances b) (final_instances b) p"
proof -
  let ?xs = "ordered b" and ?ys = "final_instances b"
  have plain: "unlinked x" if x: "x \<in> set ?xs" for x
  proof -
    obtain i where "(i, x) \<in> set (instances b)"
      using x by (auto simp: ordered_def)
    then show ?thesis
      using b by (simp add: balanced_def coherent_def sound_def plain_instances_def keys_ok_def)
  qed
  have unset: "\<forall>x \<in> set ?xs. redirect_to_id x = None"
    using plain by (simp add: unlinked_def)
  have ids: "inst_id (?ys ! q) = inst_id (?xs ! q)" if "q < length ?ys" for q
    using that by (metis final_ids length_final nth_map)
  have urls: "inst_url (?ys ! q) = inst_url (?xs ! q)" if "q < length ?ys" for q
  proof -
    have "bare (?ys ! q) = bare (?xs ! q)"
      unfolding final_instances_def by (rule link_redirects_nth) (use that in simp)
    then show ?thesis by (rule bare_fields(2))
  qed
  have forward: "linked_at (instance_redirect b) ?xs ?ys p" if "p < length ?ys" for p
    unfolding final_instances_def by (rule link_redirects_to [OF unset]) (use that in simp)
  show "linked_at (instance_redirect b) ?ys ?ys p" if p: "p < length ?ys" for p
    using forward [OF p] linked_at_cong [of ?ys ?xs p, OF _ p ids urls] by simp
  have backward: "\<exists>p < q. inst_id (?ys ! p) = s \<and> redirect_to_id (?ys ! p) = Some (inst_id (?ys ! q))"
    if q: "q < length ?ys" "redirect_from_id (?ys ! q) = Some s" for q s
  proof -
    have "redirect_from_id (?xs ! q) = None"
      using plain q(1) by (simp add: unlinked_def)
    then obtain p where "p < q" "inst_id (?xs ! p) = s" "redirect_to_id (?ys ! p) = Some (inst_id (?xs ! q))"
      using link_redirects_back [of q ?xs "instance_redirect b" s] q unset
      by (auto simp: final_instances_def)
    then show ?thesis
      using ids q(1) by (intro exI [of _ p]) simp
  qed
  have "\<exists>q < length ?ys. p < q \<and> inst_id (?ys ! q) = t \<and> redirect_from_id (?ys ! q) = Some (inst_id (?ys ! p))"
    if p: "p < length ?ys" "redirect_to_id (?ys ! p) = Some t" for p t
    using forward [OF p(1)] p ids by (auto simp: linked_at_def)
  with backward show "redirects_paired ?ys"
    unfolding redirects_paired_def by blast
qed

text \<open>C38: The instances of the report are in time order, those without a time last, whatever the order
  they were seen in; a redirect link goes forward to a later instance, is the only one into it and is
  mirrored by its link back; and a redirecting instance is left without a link only when every later
  instance with the URL it was sent to is the target of another.\<close>

theorem report_redirects_follow_time:
  assumes "no_collision sha1 obs"
  shows "\<exists>r. build_report sha1 obs = Inr r \<and> in_time_order (report_instances r) \<and>
    redirects_paired (report_instances r) \<and>
    list_all (linked_at (instance_redirect (builder_after sha1 obs)) (report_instances r) (report_instances r))
      [0..<length (report_instances r)]"
  using final_in_time [of "builder_after sha1 obs"] final_redirects [OF run_balanced(1) [OF assms]]
  by (simp add: report_of_run [OF assms] list_all_iff)

theorem report_redirects_follow_time_witness:
  "\<exists>r. build_report (\<lambda>s. s) example_run = Inr r \<and> in_time_order (report_instances r) \<and>
    redirects_paired (report_instances r) \<and>
    list_all (linked_at (instance_redirect (builder_after (\<lambda>s. s) example_run))
      (report_instances r) (report_instances r)) [0..<length (report_instances r)]"
  by (rule report_redirects_follow_time [OF example_run_ok(1)])

text \<open>C39: A request displaces an instance the builder holds only when the instance has a strictly lower
  priority, and then no instance held has a lower one; all others stay as they are.\<close>

theorem eviction_spares_priority:
  assumes "no_collision sha1 (obs @ [x])"
    and "instance_at (builder_after sha1 obs) i = Some y"
  shows "instance_at (builder_after sha1 (obs @ [x])) i = Some y \<or>
    displaced (shape x) (builder_after sha1 obs) y"
  using admit(3) [OF _ no_collision_inj [OF assms(1)], of "builder_after sha1 obs" x]
    balanced_after [OF no_collision_inj [OF assms(1)], of obs] assms(2)
  by auto

theorem eviction_spares_priority_witness:
  "\<exists>y. instance_at (builder_after (\<lambda>s. s) (butlast example_run)) ''n0'' = Some y \<and>
    (instance_at (builder_after (\<lambda>s. s) (butlast example_run @ [last example_run])) ''n0'' = Some y \<or>
     displaced (shape (last example_run)) (builder_after (\<lambda>s. s) (butlast example_run)) y)"
proof -
  have "instance_at (builder_after (\<lambda>s. s) (butlast example_run)) ''n0'' \<noteq> None"
    by code_simp
  then obtain y where "instance_at (builder_after (\<lambda>s. s) (butlast example_run)) ''n0'' = Some y"
    by blast
  with eviction_spares_priority [OF example_run_ok(2) this] show ?thesis by blast
qed

end
