(* ===== verification/ReporterText.thy ===== *)
theory ReporterText
  imports NetworkBuilder
begin

section \<open>Text and values from a trace\<close>

text \<open>
  \<^verbatim>\<open>playwright-reporter-llm/src/lib/internal\<close>: \<^verbatim>\<open>typeGuards.ts\<close>,
  \<^verbatim>\<open>textProcessing.ts\<close>, \<^verbatim>\<open>traceparent.ts\<close>, \<^verbatim>\<open>traceTiming.ts\<close>,
  \<^verbatim>\<open>clientLifecycleSanitization.ts\<close> and \<^verbatim>\<open>consoleProcessing.ts\<close>: what reads
  untrusted values out of traces and attachments, and what each of them lets through.

  A value is a \<^verbatim>\<open>js\<close> value; \<open>None\<close> is \<open>undefined\<close>. \<open>new URL(s)\<close> is a parameter that gives
  the protocol, the origin and the path name, or \<open>None\<close> where the constructor throws, and so is what
  \<open>Date.parse\<close> makes of the texts that are not in the ISO form.
\<close>

subsection \<open>Type guards\<close>

text \<open>An array is an object too; none of the names read from one is an index.\<close>

definition as_record :: "js \<Rightarrow> js_object option" where
  "as_record v =
     (case v of
        JObj ps \<Rightarrow> Some ps
      | JArr vs \<Rightarrow> Some []
      | JDate d \<Rightarrow> Some []
      | JError m ps \<Rightarrow> Some ((''message'', JStr m) # ps)
      | _ \<Rightarrow> None)"

definition field_of :: "js_object \<Rightarrow> string \<Rightarrow> js" where
  "field_of ps k = (case map_get ps k of None \<Rightarrow> JUndefined | Some v \<Rightarrow> v)"

definition as_string :: "js \<Rightarrow> string option" where
  "as_string v = (case v of JStr s \<Rightarrow> Some s | _ \<Rightarrow> None)"

definition js_number_value :: "js_number \<Rightarrow> rat option" where
  "js_number_value x =
     (case x of
        Finite m e \<Rightarrow>
          Some (if 0 \<le> e then rat_of_int (m * 2 ^ nat e) else rat_of_int m / rat_of_int (2 ^ nat (- e)))
      | _ \<Rightarrow> None)"

text \<open>\<open>asNumber\<close> gives the number, which \<open>number_value\<close> reads as a rational.\<close>

definition number_value :: "js \<Rightarrow> rat option" where
  "number_value v =
     (case v of JInt n \<Rightarrow> Some (rat_of_int n) | JReal s \<Rightarrow> js_number_value (to_number s) | _ \<Rightarrow> None)"

definition as_number :: "js \<Rightarrow> js option" where
  "as_number v = (if number_value v = None then None else Some v)"

definition as_boolean :: "js \<Rightarrow> bool option" where
  "as_boolean v = (case v of JBool b \<Rightarrow> Some b | _ \<Rightarrow> None)"

text \<open>\<open>asString(x)\<close> followed by the test \<open>if (!s)\<close>: the empty string counts as absent.\<close>

definition non_empty :: "string option \<Rightarrow> string option" where
  "non_empty s = (case s of Some [] \<Rightarrow> None | _ \<Rightarrow> s)"

subsection \<open>Text\<close>

definition truncation_marker :: string where "truncation_marker = ''[truncated]''"
definition stdout_cap :: nat where "stdout_cap = 4096"
definition network_body_cap :: nat where "network_body_cap = 2048"
definition console_text_cap :: nat where "console_text_cap = 2048"
definition header_value_cap :: nat where "header_value_cap = 256"

definition escape_char_code :: char where "escape_char_code = CHR 0x1B"

definition is_sgr_char :: "char \<Rightarrow> bool" where
  "is_sgr_char c \<longleftrightarrow> is_digit c \<or> c = CHR '';''"

text \<open>\<open>text.replaceAll(/\u001B\[[0-9;]*m/g, "")\<close>\<close>

definition after_ansi :: "string \<Rightarrow> string option" where
  "after_ansi s =
     (case s of
        c # d # r \<Rightarrow>
          if c = escape_char_code \<and> d = CHR ''[''
          then (case dropWhile is_sgr_char r of e # t \<Rightarrow> if e = CHR ''m'' then Some t else None | [] \<Rightarrow> None)
          else None
      | _ \<Rightarrow> None)"

lemma after_ansi_length: "after_ansi s = Some t \<Longrightarrow> length t < length s"
proof -
  assume "after_ansi s = Some t"
  then obtain c d r e where "s = c # d # r" "dropWhile is_sgr_char r = e # t"
    by (auto simp: after_ansi_def split: list.splits if_splits)
  moreover have "length (dropWhile is_sgr_char r) \<le> length r"
    by (rule length_dropWhile_le)
  ultimately show ?thesis by simp
qed

function strip_ansi :: "string \<Rightarrow> string" where
  "strip_ansi s =
     (case s of
        [] \<Rightarrow> []
      | c # r \<Rightarrow> (case after_ansi s of Some t \<Rightarrow> strip_ansi t | None \<Rightarrow> c # strip_ansi r))"
  by pat_completeness auto
termination
  by (relation "measure length") (auto dest: after_ansi_length)

declare strip_ansi.simps [simp del]

text \<open>\<open>value.slice(0, n)\<close>: a negative \<open>n\<close> counts from the end.\<close>

definition slice_to :: "int \<Rightarrow> string \<Rightarrow> string" where
  "slice_to n s = (if n < 0 then take (length s - nat (- n)) s else take (nat n) s)"

definition cap_text :: "string \<Rightarrow> nat \<Rightarrow> string" where
  "cap_text s limit =
     (if length s \<le> limit then s
      else slice_to (int limit - int (length truncation_marker)) s @ truncation_marker)"

definition cap_output :: "string \<Rightarrow> string" where
  "cap_output s =
     (if length s \<le> stdout_cap then s
      else slice_to (int stdout_cap - int (length truncation_marker)) s @ truncation_marker)"

definition cap_network_body :: "string \<Rightarrow> string" where
  "cap_network_body s = cap_text s network_body_cap"

definition cap_console_message_text :: "string \<Rightarrow> string" where
  "cap_console_message_text s = cap_text s console_text_cap"

text \<open>The media type of a content type, \<open>None\<close> when it is missing or empty.\<close>

definition media_type :: "string option \<Rightarrow> string option" where
  "media_type content_type' =
     (case non_empty content_type' of
        None \<Rightarrow> None
      | Some t \<Rightarrow> non_empty (Some (to_lower (trim (hd (split_char CHR '';'' t))))))"

definition is_json_or_text_content_type :: "string option \<Rightarrow> bool" where
  "is_json_or_text_content_type t =
     (case media_type t of None \<Rightarrow> False | Some m \<Rightarrow> starts_with m ''text/'' \<or> str_includes m ''json'')"

definition extract_first_line :: "string option \<Rightarrow> string option" where
  "extract_first_line t =
     (case non_empty t of
        None \<Rightarrow> None
      | Some s \<Rightarrow> non_empty (Some (trim (hd (split_char LF (strip_ansi s))))))"

text \<open>\<open>toUpperCase\<close>; the two characters whose upper case is not Latin-1 are left alone.\<close>

definition upper_char :: "char \<Rightarrow> string" where
  "upper_char c =
     (if 97 \<le> code c \<and> code c \<le> 122 \<or> 224 \<le> code c \<and> code c \<le> 254 \<and> code c \<noteq> 247
      then [char_of (code c - 32)] else if code c = 223 then ''SS'' else [c])"

definition to_upper :: "string \<Rightarrow> string" where
  "to_upper s = concat (map upper_char s)"

subsection \<open>Trace context\<close>

definition is_lower_hex :: "char \<Rightarrow> bool" where
  "is_lower_hex c \<longleftrightarrow> is_digit c \<or> 97 \<le> code c \<and> code c \<le> 102"

text \<open>A text of the given number of hexadecimal digits.\<close>

definition lower_hex :: "nat \<Rightarrow> string \<Rightarrow> bool" where
  "lower_hex n s \<longleftrightarrow> length s = n \<and> list_all is_lower_hex s"

definition all_zero :: "string \<Rightarrow> bool" where
  "all_zero s \<longleftrightarrow> list_all (\<lambda>c. c = CHR ''0'') s"

record trace_context =
  context_trace :: string
  context_span :: "string option"

definition parse_traceparent :: "string option \<Rightarrow> trace_context option" where
  "parse_traceparent header =
     (case non_empty header of
        None \<Rightarrow> None
      | Some h \<Rightarrow>
          (case split_char CHR ''-'' (to_lower (trim h)) of
             [version, tid, sid, flags] \<Rightarrow>
               if lower_hex 2 version \<and> lower_hex 32 tid \<and> lower_hex 16 sid \<and> lower_hex 2 flags \<and>
                  version \<noteq> ''ff'' \<and> tid \<noteq> replicate 32 CHR ''0'' \<and> sid \<noteq> replicate 16 CHR ''0''
               then Some \<lparr>context_trace = tid, context_span = Some sid\<rparr> else None
           | _ \<Rightarrow> None))"

subsection \<open>Times\<close>

record monotonic_anchor =
  wall_time :: rat
  monotonic_time :: rat

text \<open>\<open>Math.round\<close> rounds half up.\<close>

definition math_round :: "rat \<Rightarrow> int" where
  "math_round x = \<lfloor>x + 1 / 2\<rfloor>"

definition monotonic_to_offset_ms :: "rat \<Rightarrow> monotonic_anchor \<Rightarrow> rat \<Rightarrow> rat" where
  "monotonic_to_offset_ms t anchor start =
     of_int (math_round (wall_time anchor + (t - monotonic_time anchor))) - start"

definition extract_monotonic_anchor :: "string \<Rightarrow> monotonic_anchor option" where
  "extract_monotonic_anchor trace =
     (case non_empty (Some (trim (hd (split_char LF trace)))) of
        None \<Rightarrow> None
      | Some line \<Rightarrow>
          (case parse_json line of
             None \<Rightarrow> None
           | Some v \<Rightarrow>
               (case as_record v of
                  None \<Rightarrow> None
                | Some r \<Rightarrow>
                    if field_of r ''type'' \<noteq> JStr ''context-options'' then None
                    else (case (number_value (field_of r ''wallTime''), number_value (field_of r ''monotonicTime'')) of
                            (Some w, Some m) \<Rightarrow> Some \<lparr>wall_time = w, monotonic_time = m\<rparr>
                          | _ \<Rightarrow> None))))"

definition compute_network_offset_ms ::
  "(string \<Rightarrow> int option) \<Rightarrow> js_object \<Rightarrow> monotonic_anchor option \<Rightarrow> rat \<Rightarrow> rat option" where
  "compute_network_offset_ms other_date r anchor start =
     (case (number_value (field_of r ''_monotonicTime''), anchor) of
        (Some t, Some a) \<Rightarrow> Some (monotonic_to_offset_ms t a start)
      | _ \<Rightarrow>
          (case non_empty (as_string (field_of r ''startedDateTime'')) of
             None \<Rightarrow> None
           | Some s \<Rightarrow>
               (case parse_date other_date s of None \<Rightarrow> None | Some ms \<Rightarrow> Some (of_int ms - start))))"

subsection \<open>Sanitizing a lifecycle record\<close>

record url_parts =
  protocol :: string
  origin :: string
  pathname :: string

definition client_lifecycle_classification_priority :: "string list" where
  "client_lifecycle_classification_priority =
     [''no_response_headers'', ''headers_without_body_completion'', ''network_failure'', ''completed'']"

definition client_lifecycle_path_cap :: nat where "client_lifecycle_path_cap = 512"
definition client_lifecycle_identifier_cap :: nat where "client_lifecycle_identifier_cap = 256"

definition is_upper :: "char \<Rightarrow> bool" where
  "is_upper c \<longleftrightarrow> 65 \<le> code c \<and> code c \<le> 90"

definition is_letter :: "char \<Rightarrow> bool" where
  "is_letter c \<longleftrightarrow> is_upper c \<or> 97 \<le> code c \<and> code c \<le> 122"

text \<open>\<open>/^[...]+$/\<close>: one character of the class at least, and no other.\<close>

definition matches_class :: "(char \<Rightarrow> bool) \<Rightarrow> string \<Rightarrow> bool" where
  "matches_class p s \<longleftrightarrow> s \<noteq> [] \<and> list_all p s"

definition safe_identifier_char :: "char \<Rightarrow> bool" where
  "safe_identifier_char c \<longleftrightarrow> is_letter c \<or> is_digit c \<or> c \<in> set ''_:=./+-''"

definition safe_protocol_char :: "char \<Rightarrow> bool" where
  "safe_protocol_char c \<longleftrightarrow> is_letter c \<or> is_digit c \<or> c \<in> set ''./_-''"

definition safe_network_error :: "string \<Rightarrow> bool" where
  "safe_network_error s \<longleftrightarrow>
     starts_with s ''net::'' \<and> matches_class (\<lambda>c. is_upper c \<or> is_digit c \<or> c = CHR ''_'') (drop 5 s)"

definition safe_ip_char :: "char \<Rightarrow> bool" where
  "safe_ip_char c \<longleftrightarrow>
     is_digit c \<or> 97 \<le> code c \<and> code c \<le> 102 \<or> 65 \<le> code c \<and> code c \<le> 70 \<or> c \<in> set '':.''"

definition sanitize_lifecycle_method :: "js \<Rightarrow> string option" where
  "sanitize_lifecycle_method v =
     (case map_option (\<lambda>s. to_upper (trim s)) (as_string v) of
        None \<Rightarrow> None
      | Some m \<Rightarrow> if m = [] \<or> 16 < length m \<or> \<not> matches_class is_upper m then None else Some m)"

definition sanitize_lifecycle_origin :: "(string \<Rightarrow> url_parts option) \<Rightarrow> js \<Rightarrow> string option" where
  "sanitize_lifecycle_origin new_url v =
     (case non_empty (as_string v) of
        None \<Rightarrow> None
      | Some t \<Rightarrow>
          if client_lifecycle_identifier_cap < length t then None
          else case new_url t of
                 None \<Rightarrow> None
               | Some u \<Rightarrow>
                   if protocol u \<noteq> ''http:'' \<and> protocol u \<noteq> ''https:'' then None else Some (origin u))"

definition sanitize_lifecycle_path_template :: "js \<Rightarrow> string option" where
  "sanitize_lifecycle_path_template v =
     (case non_empty (as_string v) of
        None \<Rightarrow> None
      | Some t \<Rightarrow>
          let p = takeWhile (\<lambda>c. c \<noteq> CHR ''?'' \<and> c \<noteq> CHR ''#'') t in
          if p = [] \<or> \<not> starts_with p ''/'' \<or> client_lifecycle_path_cap < length p then None else Some p)"

definition sanitize_lifecycle_classification :: "js \<Rightarrow> string option" where
  "sanitize_lifecycle_classification v =
     (case non_empty (as_string v) of
        None \<Rightarrow> None
      | Some c \<Rightarrow> if c \<in> set client_lifecycle_classification_priority then Some c else None)"

definition sanitize_text :: "(string \<Rightarrow> bool) \<Rightarrow> js \<Rightarrow> string option" where
  "sanitize_text p v =
     (case non_empty (as_string v) of
        None \<Rightarrow> None
      | Some s \<Rightarrow> if length s \<le> client_lifecycle_identifier_cap \<and> p s then Some s else None)"

definition sanitize_lifecycle_identifier :: "js \<Rightarrow> string option" where
  "sanitize_lifecycle_identifier v = sanitize_text (matches_class safe_identifier_char) v"

definition sanitize_lifecycle_protocol :: "js \<Rightarrow> string option" where
  "sanitize_lifecycle_protocol v = sanitize_text (matches_class safe_protocol_char) v"

definition sanitize_lifecycle_network_error :: "js \<Rightarrow> string option" where
  "sanitize_lifecycle_network_error v =
     (case non_empty (as_string v) of
        None \<Rightarrow> None
      | Some e \<Rightarrow>
          let t = trim (strip_ansi e) in if safe_network_error t then Some t else None)"

definition sanitize_lifecycle_ip_address :: "js \<Rightarrow> string option" where
  "sanitize_lifecycle_ip_address v = sanitize_text (matches_class safe_ip_char) v"

definition sanitize_lifecycle_hex_identifier :: "nat \<Rightarrow> js \<Rightarrow> string option" where
  "sanitize_lifecycle_hex_identifier n v =
     (case map_option to_lower (as_string v) of
        None \<Rightarrow> None
      | Some s \<Rightarrow>
          if length s = n \<and> matches_class is_lower_hex s \<and> \<not> matches_class (\<lambda>c. c = CHR ''0'') s
          then Some s else None)"

definition sanitize_lifecycle_trace_id :: "js \<Rightarrow> string option" where
  "sanitize_lifecycle_trace_id v = sanitize_lifecycle_hex_identifier 32 v"

definition sanitize_lifecycle_span_id :: "js \<Rightarrow> string option" where
  "sanitize_lifecycle_span_id v = sanitize_lifecycle_hex_identifier 16 v"

definition max_safe_integer :: rat where "max_safe_integer = 9007199254740991"

definition sanitize_lifecycle_non_negative_number :: "js \<Rightarrow> js option" where
  "sanitize_lifecycle_non_negative_number v =
     (case number_value v of
        None \<Rightarrow> None
      | Some x \<Rightarrow> if x < 0 \<or> max_safe_integer < x then None else Some v)"

subsection \<open>Console entries\<close>

definition extract_page_error_text :: "js_object \<Rightarrow> string option" where
  "extract_page_error_text ev =
     (case as_record (field_of ev ''params'') of
        None \<Rightarrow> None
      | Some params \<Rightarrow>
          let err = field_of params ''error'' in
          (case non_empty (as_string err) of
             Some t \<Rightarrow> Some t
           | None \<Rightarrow>
               (case as_record err of
                  None \<Rightarrow> None
                | Some r \<Rightarrow> as_string (field_of r ''message''))))"

definition compute_console_offset_ms :: "js_object \<Rightarrow> monotonic_anchor option \<Rightarrow> rat \<Rightarrow> rat option" where
  "compute_console_offset_ms ev anchor start =
     (case (number_value (field_of ev ''time''), anchor) of
        (Some t, Some a) \<Rightarrow> Some (monotonic_to_offset_ms t a start)
      | _ \<Rightarrow> None)"

definition build_console_entry_from_event ::
  "js_object \<Rightarrow> monotonic_anchor option \<Rightarrow> rat \<Rightarrow> console_entry option" where
  "build_console_entry_from_event ev anchor start =
     (let off = compute_console_offset_ms ev anchor start;
          kind = field_of ev ''type''; meth = field_of ev ''method'';
          entry = (\<lambda>t x. Some \<lparr>entry_type = t, entry_text = x, entry_offset = off\<rparr>)
      in if kind = JStr ''console''
         then (case map_option to_lower (as_string (field_of ev ''messageType'')) of
                 None \<Rightarrow> None
               | Some t \<Rightarrow>
                   if t \<noteq> ''warning'' \<and> t \<noteq> ''error'' then None
                   else (case non_empty (as_string (field_of ev ''text'')) of
                           None \<Rightarrow> None
                         | Some x \<Rightarrow> entry t (cap_console_message_text (strip_ansi x))))
         else if kind \<noteq> JStr ''event'' then None
         else if meth = JStr ''pageError''
         then (case non_empty (extract_page_error_text ev) of
                 None \<Rightarrow> None
               | Some x \<Rightarrow> entry ''pageerror'' (cap_console_message_text (strip_ansi x)))
         else if meth = JStr ''pageClosed'' then entry ''page-closed'' ''Page closed''
         else if meth = JStr ''pageCrashed'' \<or> meth = JStr ''pageCrash''
         then entry ''page-crashed''
                (cap_console_message_text (strip_ansi
                  (case extract_page_error_text ev of None \<Rightarrow> ''Page crashed'' | Some x \<Rightarrow> x)))
         else None)"

subsection \<open>What the readers let through\<close>

lemma non_empty_Some: "non_empty x = Some s \<longleftrightarrow> x = Some s \<and> s \<noteq> []"
  by (auto simp: non_empty_def split: option.splits list.splits)

lemma non_empty_str [simp]: "s \<noteq> [] \<Longrightarrow> non_empty (Some s) = Some s"
  by (simp add: non_empty_Some)

lemma as_string_str [simp]: "as_string (JStr s) = Some s"
  by (simp add: as_string_def)

lemma as_string_Some: "as_string v = Some s \<longleftrightarrow> v = JStr s"
  by (cases v) (auto simp: as_string_def)

lemma length_cap_text:
  assumes "length truncation_marker \<le> limit"
  shows "length (cap_text s limit) \<le> limit"
  using assms by (simp add: cap_text_def slice_to_def nat_diff_distrib)

text \<open>Sanitizing what was sanitized changes nothing.\<close>

lemma upper_upper [simp]: "list_all is_upper s \<Longrightarrow> to_upper s = s"
  by (induction s) (auto simp: to_upper_def upper_char_def is_upper_def)

lemma trim_plain: "s \<noteq> [] \<Longrightarrow> list_all (\<lambda>c. \<not> is_space c) s \<Longrightarrow> trim s = s"
  by (simp add: trim_def trim_start_def trim_end_def list_all_iff hd_rev
      dropWhile_eq_self_iff [THEN iffD2] del: dropWhile_eq_self_iff)

lemma strip_plain: "list_all (\<lambda>c. c \<noteq> escape_char_code) s \<Longrightarrow> strip_ansi s = s"
proof (induction s)
  case Nil
  then show ?case by (simp add: strip_ansi.simps)
next
  case (Cons c s)
  then have "after_ansi (c # s) = None"
    by (auto simp: after_ansi_def split: list.splits)
  then show ?case
    using Cons by (simp add: strip_ansi.simps [of "c # s"])
qed

lemma not_space_simps:
  "is_upper c \<Longrightarrow> \<not> is_space c" "is_digit c \<Longrightarrow> \<not> is_space c" "is_lower_hex c \<Longrightarrow> \<not> is_space c"
  by (auto simp: is_upper_def is_digit_def is_lower_hex_def is_space_def)

lemma lower_hex_lower: "list_all is_lower_hex s \<Longrightarrow> to_lower s = s"
  by (induction s) (auto simp: to_lower_def lower_char_def is_lower_hex_def is_digit_def)

lemma sanitize_method_again:
  "sanitize_lifecycle_method v = Some m \<Longrightarrow> sanitize_lifecycle_method (JStr m) = Some m"
proof -
  assume "sanitize_lifecycle_method v = Some m"
  then have m: "m \<noteq> []" "length m \<le> 16" "list_all is_upper m"
    by (auto simp: sanitize_lifecycle_method_def matches_class_def split: option.splits if_splits)
  then have "trim m = m"
    by (intro trim_plain) (auto simp: list_all_iff not_space_simps)
  with m show ?thesis
    by (simp add: sanitize_lifecycle_method_def matches_class_def)
qed

lemma sanitize_path_again:
  assumes "sanitize_lifecycle_path_template v = Some p"
  shows "sanitize_lifecycle_path_template (JStr p) = Some p"
proof -
  obtain t where "p = takeWhile (\<lambda>c. c \<noteq> CHR ''?'' \<and> c \<noteq> CHR ''#'') t" "p \<noteq> []"
    "starts_with p ''/''" "length p \<le> client_lifecycle_path_cap"
    using assms by (auto simp: sanitize_lifecycle_path_template_def Let_def split: option.splits if_splits)
  moreover from this(1) have "takeWhile (\<lambda>c. c \<noteq> CHR ''?'' \<and> c \<noteq> CHR ''#'') p = p"
    by simp
  ultimately show ?thesis
    by (simp add: sanitize_lifecycle_path_template_def)
qed

lemma sanitize_classification_again:
  "sanitize_lifecycle_classification v = Some c \<Longrightarrow> sanitize_lifecycle_classification (JStr c) = Some c"
  by (auto simp: sanitize_lifecycle_classification_def non_empty_Some split: option.splits if_splits)

lemma sanitize_text_again: "sanitize_text p v = Some s \<Longrightarrow> sanitize_text p (JStr s) = Some s"
  by (auto simp: sanitize_text_def non_empty_Some split: option.splits if_splits)

lemma sanitize_text_ne: "sanitize_text p v = Some s \<Longrightarrow> s \<noteq> []"
  by (auto simp: sanitize_text_def non_empty_Some split: option.splits if_splits)

lemma sanitize_hex_again:
  "sanitize_lifecycle_hex_identifier n v = Some s \<Longrightarrow> sanitize_lifecycle_hex_identifier n (JStr s) = Some s"
  by (auto simp: sanitize_lifecycle_hex_identifier_def matches_class_def lower_hex_lower
      split: option.splits if_splits)

lemma sanitize_error_again:
  assumes "sanitize_lifecycle_network_error v = Some e"
  shows "sanitize_lifecycle_network_error (JStr e) = Some e"
proof -
  have e: "safe_network_error e"
    using assms by (auto simp: sanitize_lifecycle_network_error_def Let_def split: option.splits if_splits)
  then obtain r where r: "e = ''net::'' @ r" "list_all (\<lambda>c. is_upper c \<or> is_digit c \<or> c = CHR ''_'') r"
    by (auto simp: safe_network_error_def starts_with_def matches_class_def prefix_def)
  have chars: "list_all (\<lambda>c. \<not> is_space c \<and> c \<noteq> escape_char_code) e"
    using r by (auto simp: list_all_iff is_upper_def is_digit_def is_space_def code_def escape_char_code_def)
  have "strip_ansi e = e"
    by (rule strip_plain) (use chars in \<open>simp add: list_all_iff\<close>)
  moreover have "trim e = e"
    by (rule trim_plain) (use chars r(1) in \<open>simp_all add: list_all_iff\<close>)
  ultimately show ?thesis
    using e r(1) by (simp add: sanitize_lifecycle_network_error_def)
qed

lemma sanitize_number_again:
  "sanitize_lifecycle_non_negative_number v = Some w \<Longrightarrow>
   w = v \<and> sanitize_lifecycle_non_negative_number w = Some w"
  by (auto simp: sanitize_lifecycle_non_negative_number_def split: option.splits if_splits)

subsection \<open>Where the documentation says otherwise\<close>

text \<open>A network entry gets an offset also without the anchor of the trace's context options.\<close>

theorem offset_without_anchor:
  "compute_network_offset_ms (\<lambda>_. None) [(''startedDateTime'', JStr ''1970-01-01T00:00:02.000Z'')] None 500 =
     Some 1500"
  by code_simp

text \<open>A network error text is kept whatever follows \<open>net::\<close>, not only errors of Chromium.\<close>

theorem network_error_not_only_err:
  "sanitize_lifecycle_network_error (JStr ''net::OK'') = Some ''net::OK''"
  by code_simp

end
