(* ===== verification/ClientLifecycleContract.thy ===== *)
theory ClientLifecycleContract
  imports ReporterText "HOL-Library.Multiset"
begin

section \<open>The browser lifecycle attachment\<close>

text \<open>
  \<^verbatim>\<open>playwright-reporter-llm/src/lib/clientLifecycleContract.ts\<close>: what a test attaches about its
  requests (\<open>encodeBrowserLifecycleAttachment\<close>) and what the reporter reads back from an attachment it
  does not trust (\<open>parseBrowserLifecycleAttachment\<close>). Both sides put every record through
  \<open>sanitizeRecord\<close>.

  A record is the object the code builds, with its properties in the order the code sets them: a
  function \<open>copyX\<close> of the code is the list of the properties it adds to its target, none of which
  is set before. The body of an attachment is its text; its size is counted in UTF-8.
\<close>

definition schema_version :: int where "schema_version = 2"
definition maximum_bytes :: nat where "maximum_bytes = 65536"
definition maximum_records :: nat where "maximum_records = 100"

subsection \<open>Sanitizing\<close>

definition opt_field :: "string \<Rightarrow> js option \<Rightarrow> js_object" where
  "opt_field k v = (case v of None \<Rightarrow> [] | Some x \<Rightarrow> [(k, x)])"

definition opt_text :: "string \<Rightarrow> string option \<Rightarrow> js_object" where
  "opt_text k v = opt_field k (map_option JStr v)"

definition opt_object :: "string \<Rightarrow> js_object \<Rightarrow> js_object" where
  "opt_object k ps = (if ps = [] then [] else [(k, JObj ps)])"

definition sanitize_timestamp :: "(string \<Rightarrow> int option) \<Rightarrow> js \<Rightarrow> js_object option" where
  "sanitize_timestamp other_date v =
     (case as_record v of
        None \<Rightarrow> None
      | Some r \<Rightarrow>
          (case non_empty (as_string (field_of r ''utc'')) of
             None \<Rightarrow> None
           | Some utc \<Rightarrow>
               (case parse_date other_date utc of
                  None \<Rightarrow> None
                | Some t \<Rightarrow>
                    Some ((''utc'', JStr (iso_string t)) #
                      opt_field ''monotonicMilliseconds''
                        (sanitize_lifecycle_non_negative_number (field_of r ''monotonicMilliseconds''))))))"

definition sanitize_event :: "(string \<Rightarrow> int option) \<Rightarrow> js \<Rightarrow> js_object option" where
  "sanitize_event other_date v =
     (case as_record v of
        None \<Rightarrow> None
      | Some r \<Rightarrow>
          let cdp = sanitize_timestamp other_date (field_of r ''cdp'');
              playwright = sanitize_timestamp other_date (field_of r ''playwright'')
          in (case cdp of
                Some c \<Rightarrow> Some ((''cdp'', JObj c) # opt_field ''playwright'' (map_option JObj playwright))
              | None \<Rightarrow> map_option (\<lambda>p. [(''playwright'', JObj p)]) playwright))"

definition copy_event :: "(string \<Rightarrow> int option) \<Rightarrow> js_object \<Rightarrow> string \<Rightarrow> js_object" where
  "copy_event other_date source field =
     opt_field field (map_option JObj (sanitize_event other_date (field_of source field)))"

definition copy_failure_identifier :: "js_object \<Rightarrow> string \<Rightarrow> js_object" where
  "copy_failure_identifier source field = opt_text field (sanitize_lifecycle_identifier (field_of source field))"

definition copy_failure_event :: "(string \<Rightarrow> int option) \<Rightarrow> js_object \<Rightarrow> js_object" where
  "copy_failure_event other_date source =
     (let v = field_of source ''loadingFailed'' in
      case as_record v of
        None \<Rightarrow> []
      | Some r \<Rightarrow>
          opt_object ''loadingFailed''
            ((case sanitize_event other_date v of None \<Rightarrow> [] | Some e \<Rightarrow> e) @
             opt_text ''errorText'' (sanitize_lifecycle_network_error (field_of r ''errorText'')) @
             opt_field ''canceled'' (map_option JBool (as_boolean (field_of r ''canceled''))) @
             copy_failure_identifier r ''blockedReason'' @
             copy_failure_identifier r ''corsErrorStatus''))"

definition copy_safe_identifier :: "js_object \<Rightarrow> string \<Rightarrow> js_object" where
  "copy_safe_identifier source field = opt_text field (sanitize_lifecycle_identifier (field_of source field))"

definition copy_trace_identifiers :: "js_object \<Rightarrow> js_object" where
  "copy_trace_identifiers source =
     opt_text ''traceId'' (sanitize_lifecycle_trace_id (field_of source ''traceId'')) @
     opt_text ''spanId'' (sanitize_lifecycle_span_id (field_of source ''spanId''))"

definition copy_number :: "js_object \<Rightarrow> string \<Rightarrow> js_object" where
  "copy_number source field =
     opt_field field (sanitize_lifecycle_non_negative_number (field_of source field))"

definition copy_connection :: "js_object \<Rightarrow> js_object" where
  "copy_connection source =
     (case as_record (field_of source ''connection'') of
        None \<Rightarrow> []
      | Some c \<Rightarrow>
          opt_object ''connection''
            (copy_number c ''id'' @
             opt_field ''reused'' (map_option JBool (as_boolean (field_of c ''reused''))) @
             (case as_record (field_of c ''remoteEndpoint'') of
                None \<Rightarrow> []
              | Some e \<Rightarrow>
                  opt_object ''remoteEndpoint''
                    (opt_text ''ipAddress'' (sanitize_lifecycle_ip_address (field_of e ''ipAddress'')) @
                     copy_number e ''port''))))"

definition copy_encoded_bytes :: "js_object \<Rightarrow> js_object" where
  "copy_encoded_bytes source =
     (case as_record (field_of source ''encodedBytes'') of
        None \<Rightarrow> []
      | Some e \<Rightarrow>
          opt_object ''encodedBytes'' (copy_number e ''data'' @ copy_number e ''responseHeaders'' @ copy_number e ''total''))"

definition sanitize_record ::
  "(string \<Rightarrow> url_parts option) \<Rightarrow> (string \<Rightarrow> int option) \<Rightarrow> js \<Rightarrow> js_object option" where
  "sanitize_record new_url other_date v =
     (case as_record v of
        None \<Rightarrow> None
      | Some r \<Rightarrow>
          (case (sanitize_lifecycle_method (field_of r ''method''),
                 non_empty (sanitize_lifecycle_origin new_url (field_of r ''origin'')),
                 sanitize_lifecycle_path_template (field_of r ''pathTemplate''),
                 sanitize_lifecycle_classification (field_of r ''classification''),
                 sanitize_event other_date (field_of r ''requestStarted'')) of
             (Some m, Some org, Some p, Some c, Some e) \<Rightarrow>
               Some ([(''method'', JStr m), (''origin'', JStr org), (''pathTemplate'', JStr p),
                      (''requestStarted'', JObj e), (''classification'', JStr c)] @
                     copy_event other_date r ''responseReceived'' @
                     copy_event other_date r ''loadingFinished'' @
                     copy_failure_event other_date r @
                     copy_safe_identifier r ''playwrightRequestKey'' @
                     copy_safe_identifier r ''cdpRequestId'' @
                     copy_safe_identifier r ''loaderId'' @
                     copy_safe_identifier r ''apiGatewayRequestId'' @
                     copy_trace_identifiers r @
                     copy_connection r @
                     copy_encoded_bytes r @
                     copy_number r ''httpStatus'' @
                     opt_text ''protocol'' (sanitize_lifecycle_protocol (field_of r ''protocol'')))
           | _ \<Rightarrow> None))"

subsection \<open>Encoding\<close>

record lifecycle_attachment =
  attachment_truncated :: bool
  attachment_records :: "js_object list"

record encoded_attachment =
  encoded_body :: string
  encoded :: lifecycle_attachment
  observed_count :: nat
  included_count :: nat
  dropped_count :: nat

definition utf8_length :: "string \<Rightarrow> nat" where
  "utf8_length s = sum_list (map (\<lambda>c. if code c < 128 then 1 else 2) s)"

definition classification_of :: "js_object \<Rightarrow> js" where
  "classification_of r = field_of r ''classification''"

definition prioritize_records :: "js_object list \<Rightarrow> js_object list" where
  "prioritize_records rs =
     concat (map (\<lambda>c. filter (\<lambda>r. classification_of r = JStr c) rs) client_lifecycle_classification_priority)"

definition attachment_json :: "lifecycle_attachment \<Rightarrow> js" where
  "attachment_json a =
     JObj [(''schemaVersion'', JInt schema_version), (''truncated'', JBool (attachment_truncated a)),
           (''records'', JArr (map JObj (attachment_records a)))]"

definition json_text :: "js \<Rightarrow> string" where
  "json_text v = (case stringify v of None \<Rightarrow> ''undefined'' | Some t \<Rightarrow> t)"

definition serialize_attachment :: "js_object list \<Rightarrow> bool \<Rightarrow> lifecycle_attachment \<times> string" where
  "serialize_attachment rs trunc =
     (let a = \<lparr>attachment_truncated = trunc, attachment_records = rs\<rparr> in (a, json_text (attachment_json a)))"

definition empty_attachment_bytes :: nat where
  "empty_attachment_bytes =
     max (utf8_length (snd (serialize_attachment [] False))) (utf8_length (snd (serialize_attachment [] True)))"

text \<open>The loop over the prioritized records, with what it has included so far and its size.\<close>

fun include_records :: "js_object list \<Rightarrow> nat \<Rightarrow> js_object list \<Rightarrow> js_object list" where
  "include_records acc size' [] = acc"
| "include_records acc size' (r # rs) =
     (if maximum_records \<le> length acc then acc
      else
        let record_bytes = utf8_length (json_text (JObj r));
            separator = (if length acc = 0 then 0 else 1)
        in if empty_attachment_bytes + size' + separator + record_bytes \<le> maximum_bytes
           then include_records (acc @ [r]) (size' + separator + record_bytes) rs
           else include_records acc size' rs)"

fun filter_some :: "'a option list \<Rightarrow> 'a list" where
  "filter_some [] = []"
| "filter_some (None # xs) = filter_some xs"
| "filter_some (Some x # xs) = x # filter_some xs"

definition encode_attachment ::
  "(string \<Rightarrow> url_parts option) \<Rightarrow> (string \<Rightarrow> int option) \<Rightarrow> js list \<Rightarrow> bool \<Rightarrow> encoded_attachment" where
  "encode_attachment new_url other_date rs trunc =
     (let sanitized = filter_some (map (sanitize_record new_url other_date) rs);
          included = include_records [] 0 (prioritize_records sanitized);
          (a, body) = serialize_attachment included (trunc \<or> length included < length rs)
      in \<lparr>encoded_body = body, encoded = a, observed_count = length rs,
          included_count = length (attachment_records a),
          dropped_count = length rs - length (attachment_records a)\<rparr>)"

subsection \<open>Parsing\<close>

definition parse_attachment ::
  "(string \<Rightarrow> url_parts option) \<Rightarrow> (string \<Rightarrow> int option) \<Rightarrow> string \<Rightarrow> lifecycle_attachment option" where
  "parse_attachment new_url other_date body =
     (if maximum_bytes < utf8_length body then None
      else case parse_json body of
        None \<Rightarrow> None
      | Some v \<Rightarrow>
          (case as_record v of
             None \<Rightarrow> None
           | Some a \<Rightarrow>
               (case (number_value (field_of a ''schemaVersion''), field_of a ''records'',
                      as_boolean (field_of a ''truncated'')) of
                  (Some ver, JArr rs, Some t) \<Rightarrow>
                    if ver \<noteq> of_int schema_version then None
                    else
                      let out = filter_some (map (sanitize_record new_url other_date) (take maximum_records rs))
                      in if rs \<noteq> [] \<and> out = [] then None
                         else Some \<lparr>attachment_truncated = t \<or> length out < length rs,
                                    attachment_records = out\<rparr>
                | _ \<Rightarrow> None)))"

subsection \<open>Objects read field by field\<close>

text \<open>\<open>fields\<close> sets the given properties in order and leaves out the absent ones. A reader turns
  an untrusted value into a value of the record or leaves it out; \<open>fields_of\<close> applies a reader to
  each property of a source.\<close>

type_synonym reader = "js \<Rightarrow> js option"

definition fields :: "(string \<times> js option) list \<Rightarrow> js_object" where
  "fields kvs = concat (map (\<lambda>(k, v). opt_field k v) kvs)"

definition fields_of :: "(string \<times> reader) list \<Rightarrow> js_object \<Rightarrow> js_object" where
  "fields_of readers r = fields (map (\<lambda>(k, f). (k, f (field_of r k))) readers)"

definition or_undefined :: "js option \<Rightarrow> js" where
  "or_undefined v = (case v of None \<Rightarrow> JUndefined | Some x \<Rightarrow> x)"

lemma or_undefined_simps [simp]: "or_undefined None = JUndefined" "or_undefined (Some x) = x"
  by (simp_all add: or_undefined_def)

lemma fields_simps:
  "fields [] = []" "fields ((k, v) # kvs) = opt_field k v @ fields kvs"
  by (simp_all add: fields_def)

lemma fields_append: "fields (xs @ ys) = fields xs @ fields ys"
  by (simp add: fields_def)

lemma fields_of_simps:
  "fields_of [] r = []" "fields_of ((k, f) # fs) r = opt_field k (f (field_of r k)) @ fields_of fs r"
  by (simp_all add: fields_of_def fields_simps)

lemma fields_of_append: "fields_of (fs @ gs) r = fields_of fs r @ fields_of gs r"
  by (simp add: fields_of_def fields_append)

lemma set_fields: "(k, x) \<in> set (fields kvs) \<longleftrightarrow> (k, Some x) \<in> set kvs"
  by (induction kvs) (auto simp: fields_simps opt_field_def fields_def split: option.splits)

lemma fields_keys: "fst ` set (fields kvs) \<subseteq> fst ` set kvs"
  by (force simp: set_fields)

lemma map_of_fields:
  "distinct (map fst kvs) \<Longrightarrow> map_of (fields kvs) k = (case map_of kvs k of None \<Rightarrow> None | Some v \<Rightarrow> v)"
proof (induction kvs)
  case (Cons p kvs)
  obtain j v where p: "p = (j, v)" by fastforce
  have "map_of (fields kvs) j = None"
    using Cons.prems fields_keys [of kvs] by (auto simp: p map_of_eq_None_iff)
  then show ?case
    using Cons by (cases v) (auto simp: p fields_simps opt_field_def)
qed (simp add: fields_def)

lemma distinct_fields: "distinct (map fst kvs) \<Longrightarrow> distinct (map fst (fields kvs))"
proof (induction kvs)
  case (Cons p kvs)
  then show ?case
    using fields_keys [of kvs] by (cases p) (auto simp: fields_simps opt_field_def split: option.splits)
qed (simp add: fields_def)

lemma names_of_readers [simp]: "map fst (map (\<lambda>(k, f). (k, f (field_of r k))) readers) = map fst readers"
  by (induction readers) auto

lemma field_of_fields_of:
  assumes "distinct (map fst readers)" "(k, f) \<in> set readers"
  shows "field_of (fields_of readers r) k = or_undefined (f (field_of r k))"
proof -
  have "(k, f (field_of r k)) \<in> set (map (\<lambda>(k, f). (k, f (field_of r k))) readers)"
    using imageI [OF assms(2), of "\<lambda>(k, f). (k, f (field_of r k))"] by simp
  moreover have d: "distinct (map fst (map (\<lambda>(k, f). (k, f (field_of r k))) readers))"
    using assms(1) by (simp only: names_of_readers)
  ultimately have "map_of (map (\<lambda>(k, f). (k, f (field_of r k))) readers) k = Some (f (field_of r k))"
    by (intro map_of_is_SomeI)
  then have "map_of (fields_of readers r) k = f (field_of r k)"
    by (simp only: fields_of_def map_of_fields [OF d] option.case)
  then show ?thesis
    by (simp add: field_of_def [of "fields_of readers r"] or_undefined_def)
qed

lemma set_fields_of:
  "(k, x) \<in> set (fields_of readers r) \<longleftrightarrow> (\<exists>f. (k, f) \<in> set readers \<and> f (field_of r k) = Some x)"
  by (induction readers) (auto simp: fields_of_simps fields_of_def fields_simps opt_field_def split: option.splits)

text \<open>A reader that gives back what it read, and one that gives back what it read from one value.\<close>

definition settles :: "reader \<Rightarrow> js \<Rightarrow> bool" where
  "settles f v \<longleftrightarrow> f (or_undefined (f v)) = f v"

definition steady :: "reader \<Rightarrow> bool" where
  "steady f \<longleftrightarrow> f JUndefined = None \<and> (\<forall>v x. f v = Some x \<longrightarrow> f x = Some x)"

lemma steadyI: "f JUndefined = None \<Longrightarrow> (\<And>v x. f v = Some x \<Longrightarrow> f x = Some x) \<Longrightarrow> steady f"
  by (simp add: steady_def)

lemma steady_settles: "steady f \<Longrightarrow> settles f v"
  by (cases "f v") (auto simp: steady_def settles_def)

lemma fields_of_again:
  assumes "distinct (map fst readers)" "\<forall>(k, f) \<in> set readers. settles f (field_of r k)"
  shows "fields_of readers (fields_of readers r) = fields_of readers r"
proof -
  have "map (\<lambda>(k, f). (k, f (field_of (fields_of readers r) k))) readers =
      map (\<lambda>(k, f). (k, f (field_of r k))) readers"
    using assms by (intro map_cong) (auto simp: field_of_fields_of settles_def)
  then show ?thesis
    by (simp only: fields_of_def [of readers "fields_of readers r"] fields_of_def [of readers r, symmetric])
qed

text \<open>An object that is left out when nothing was read from its source.\<close>

definition object_reader :: "(string \<times> reader) list \<Rightarrow> reader" where
  "object_reader readers v =
     (case as_record v of
        None \<Rightarrow> None
      | Some r \<Rightarrow> if fields_of readers r = [] then None else Some (JObj (fields_of readers r)))"

lemma undefined_guards [simp]:
  "as_record JUndefined = None" "as_string JUndefined = None" "as_boolean JUndefined = None"
  "number_value JUndefined = None" "as_record (JObj ps) = Some ps" "non_empty None = None"
  by (simp_all add: as_record_def as_string_def as_boolean_def number_value_def non_empty_def)

lemma steady_object:
  assumes "distinct (map fst readers)" "\<forall>(k, f) \<in> set readers. steady f"
  shows "steady (object_reader readers)"
proof (rule steadyI)
  show "object_reader readers JUndefined = None"
    by (simp add: object_reader_def)
  fix v x
  assume "object_reader readers v = Some x"
  then obtain r where "x = JObj (fields_of readers r)" "fields_of readers r \<noteq> []"
    by (auto simp: object_reader_def split: option.splits if_splits)
  moreover have "fields_of readers (fields_of readers r) = fields_of readers r"
    using assms(2) by (intro fields_of_again [OF assms(1)]) (auto intro: steady_settles)
  ultimately show "object_reader readers x = Some x"
    by (simp add: object_reader_def)
qed

definition text_reader :: "(js \<Rightarrow> string option) \<Rightarrow> reader" where
  "text_reader f v = map_option JStr (f v)"

definition flag_reader :: reader where
  "flag_reader v = map_option JBool (as_boolean v)"

lemma steady_text: "f JUndefined = None \<Longrightarrow> (\<And>v s. f v = Some s \<Longrightarrow> f (JStr s) = Some s) \<Longrightarrow> steady (text_reader f)"
  by (rule steadyI) (auto simp: text_reader_def)

lemma steady_readers:
  "steady (text_reader sanitize_lifecycle_method)" "steady (text_reader sanitize_lifecycle_path_template)"
  "steady (text_reader sanitize_lifecycle_classification)" "steady (text_reader sanitize_lifecycle_identifier)"
  "steady (text_reader sanitize_lifecycle_protocol)" "steady (text_reader sanitize_lifecycle_network_error)"
  "steady (text_reader sanitize_lifecycle_ip_address)" "steady (text_reader sanitize_lifecycle_trace_id)"
  "steady (text_reader sanitize_lifecycle_span_id)" "steady flag_reader"
  "steady sanitize_lifecycle_non_negative_number"
proof -
  show "steady (text_reader sanitize_lifecycle_method)"
    by (rule steady_text) (simp add: sanitize_lifecycle_method_def, rule sanitize_method_again)
  show "steady (text_reader sanitize_lifecycle_path_template)"
    by (rule steady_text) (simp add: sanitize_lifecycle_path_template_def, rule sanitize_path_again)
  show "steady (text_reader sanitize_lifecycle_classification)"
    by (rule steady_text) (simp add: sanitize_lifecycle_classification_def, rule sanitize_classification_again)
  show "steady (text_reader sanitize_lifecycle_identifier)" "steady (text_reader sanitize_lifecycle_protocol)"
    "steady (text_reader sanitize_lifecycle_ip_address)"
    unfolding sanitize_lifecycle_identifier_def sanitize_lifecycle_protocol_def sanitize_lifecycle_ip_address_def
    by (rule steady_text, simp add: sanitize_text_def, erule sanitize_text_again)+
  show "steady (text_reader sanitize_lifecycle_network_error)"
    by (rule steady_text) (simp add: sanitize_lifecycle_network_error_def, rule sanitize_error_again)
  show "steady (text_reader sanitize_lifecycle_trace_id)" "steady (text_reader sanitize_lifecycle_span_id)"
    unfolding sanitize_lifecycle_trace_id_def sanitize_lifecycle_span_id_def
    by (rule steady_text, simp add: sanitize_lifecycle_hex_identifier_def, erule sanitize_hex_again)+
  show "steady flag_reader"
    by (rule steadyI) (auto simp: flag_reader_def as_boolean_def split: js.splits)
  show "steady sanitize_lifecycle_non_negative_number"
    by (rule steadyI) (simp add: sanitize_lifecycle_non_negative_number_def, drule sanitize_number_again, simp)
qed

subsection \<open>The readers of a record\<close>

text \<open>The texts the code prints for dates are read back as the dates they stand for.\<close>

definition dates_read_back :: "(string \<Rightarrow> int option) \<Rightarrow> bool" where
  "dates_read_back other_date \<longleftrightarrow>
     (\<forall>s t. parse_date other_date s = Some t \<longrightarrow> parse_date other_date (iso_string t) = Some t)"

lemma iso_string_ne [simp]: "iso_string t \<noteq> []"
  by (simp add: iso_string_def Let_def split: prod.splits)

definition timestamp_reader :: "(string \<Rightarrow> int option) \<Rightarrow> reader" where
  "timestamp_reader other_date v = map_option JObj (sanitize_timestamp other_date v)"

definition event_readers :: "(string \<Rightarrow> int option) \<Rightarrow> (string \<times> reader) list" where
  "event_readers od = [(''cdp'', timestamp_reader od), (''playwright'', timestamp_reader od)]"

definition failure_readers :: "(string \<Rightarrow> int option) \<Rightarrow> (string \<times> reader) list" where
  "failure_readers od =
     event_readers od @
     [(''errorText'', text_reader sanitize_lifecycle_network_error), (''canceled'', flag_reader),
      (''blockedReason'', text_reader sanitize_lifecycle_identifier),
      (''corsErrorStatus'', text_reader sanitize_lifecycle_identifier)]"

definition endpoint_readers :: "(string \<times> reader) list" where
  "endpoint_readers =
     [(''ipAddress'', text_reader sanitize_lifecycle_ip_address),
      (''port'', sanitize_lifecycle_non_negative_number)]"

definition connection_readers :: "(string \<times> reader) list" where
  "connection_readers =
     [(''id'', sanitize_lifecycle_non_negative_number), (''reused'', flag_reader),
      (''remoteEndpoint'', object_reader endpoint_readers)]"

definition bytes_readers :: "(string \<times> reader) list" where
  "bytes_readers =
     [(''data'', sanitize_lifecycle_non_negative_number),
      (''responseHeaders'', sanitize_lifecycle_non_negative_number),
      (''total'', sanitize_lifecycle_non_negative_number)]"

definition origin_reader :: "(string \<Rightarrow> url_parts option) \<Rightarrow> reader" where
  "origin_reader new_url = text_reader (\<lambda>v. non_empty (sanitize_lifecycle_origin new_url v))"

definition required_readers ::
  "(string \<Rightarrow> url_parts option) \<Rightarrow> (string \<Rightarrow> int option) \<Rightarrow> (string \<times> reader) list" where
  "required_readers new_url od =
     [(''method'', text_reader sanitize_lifecycle_method), (''origin'', origin_reader new_url),
      (''pathTemplate'', text_reader sanitize_lifecycle_path_template),
      (''requestStarted'', object_reader (event_readers od)),
      (''classification'', text_reader sanitize_lifecycle_classification)]"

definition optional_readers :: "(string \<Rightarrow> int option) \<Rightarrow> (string \<times> reader) list" where
  "optional_readers od =
     [(''responseReceived'', object_reader (event_readers od)),
      (''loadingFinished'', object_reader (event_readers od)),
      (''loadingFailed'', object_reader (failure_readers od)),
      (''playwrightRequestKey'', text_reader sanitize_lifecycle_identifier),
      (''cdpRequestId'', text_reader sanitize_lifecycle_identifier),
      (''loaderId'', text_reader sanitize_lifecycle_identifier),
      (''apiGatewayRequestId'', text_reader sanitize_lifecycle_identifier),
      (''traceId'', text_reader sanitize_lifecycle_trace_id),
      (''spanId'', text_reader sanitize_lifecycle_span_id),
      (''connection'', object_reader connection_readers),
      (''encodedBytes'', object_reader bytes_readers),
      (''httpStatus'', sanitize_lifecycle_non_negative_number),
      (''protocol'', text_reader sanitize_lifecycle_protocol)]"

lemmas reader_tables =
  event_readers_def failure_readers_def endpoint_readers_def connection_readers_def bytes_readers_def

lemma steady_timestamp:
  assumes "dates_read_back od"
  shows "steady (timestamp_reader od)"
proof (rule steadyI)
  show "timestamp_reader od JUndefined = None"
    by (simp add: timestamp_reader_def sanitize_timestamp_def)
  fix v x
  assume "timestamp_reader od v = Some x"
  then obtain u t w where x: "parse_date od u = Some t" "x = JObj ((''utc'', JStr (iso_string t)) #
      opt_field ''monotonicMilliseconds'' (sanitize_lifecycle_non_negative_number w))"
    by (auto simp: timestamp_reader_def sanitize_timestamp_def split: option.splits)
  have "parse_date od (iso_string t) = Some t"
    using assms x(1) by (auto simp: dates_read_back_def)
  moreover have "settles sanitize_lifecycle_non_negative_number w"
    by (rule steady_settles) (rule steady_readers)
  ultimately show "timestamp_reader od x = Some x"
    by (cases "sanitize_lifecycle_non_negative_number w")
      (auto simp: timestamp_reader_def sanitize_timestamp_def x(2) field_of_def opt_field_def settles_def)
qed

lemma steady_events:
  assumes "dates_read_back od"
  shows "steady (object_reader (event_readers od))" "steady (object_reader (failure_readers od))"
    "steady (object_reader connection_readers)" "steady (object_reader bytes_readers)"
proof -
  note simple = steady_timestamp [OF assms] steady_readers
  have endpoint: "steady (object_reader endpoint_readers)"
    by (rule steady_object) (simp_all add: endpoint_readers_def simple)
  show "steady (object_reader (event_readers od))" "steady (object_reader (failure_readers od))"
    "steady (object_reader bytes_readers)"
    by (rule steady_object; simp add: reader_tables simple)+
  show "steady (object_reader connection_readers)"
    by (rule steady_object) (simp_all add: connection_readers_def simple endpoint)
qed

lemma event_reader_eq: "map_option JObj (sanitize_event od v) = object_reader (event_readers od) v"
  by (auto simp: sanitize_event_def object_reader_def event_readers_def fields_of_simps opt_field_def
      timestamp_reader_def Let_def split: option.splits)

lemma copy_event_eq: "copy_event od r k = opt_field k (object_reader (event_readers od) (field_of r k))"
  by (simp add: copy_event_def event_reader_eq)

lemma sanitize_event_record:
  "as_record v = Some r \<Longrightarrow> (case sanitize_event od v of None \<Rightarrow> [] | Some e \<Rightarrow> e) = fields_of (event_readers od) r"
  by (auto simp: sanitize_event_def event_readers_def fields_of_simps opt_field_def
      timestamp_reader_def Let_def split: option.splits)

lemma copy_failure_eq:
  "copy_failure_event od r = opt_field ''loadingFailed'' (object_reader (failure_readers od) (field_of r ''loadingFailed''))"
  by (simp add: copy_failure_event_def object_reader_def failure_readers_def Let_def sanitize_event_record
      opt_object_def opt_field_def opt_text_def text_reader_def flag_reader_def copy_failure_identifier_def
      fields_of_simps fields_of_append split: option.split)

lemma copy_connection_eq:
  "copy_connection r = opt_field ''connection'' (object_reader connection_readers (field_of r ''connection''))"
  by (simp add: copy_connection_def object_reader_def connection_readers_def endpoint_readers_def
      opt_object_def opt_field_def opt_text_def copy_number_def text_reader_def flag_reader_def
      fields_of_simps split: option.split)

lemma copy_bytes_eq:
  "copy_encoded_bytes r = opt_field ''encodedBytes'' (object_reader bytes_readers (field_of r ''encodedBytes''))"
  by (simp add: copy_encoded_bytes_def object_reader_def bytes_readers_def copy_number_def
      opt_object_def opt_field_def fields_of_simps split: option.split)


definition record_readers ::
  "(string \<Rightarrow> url_parts option) \<Rightarrow> (string \<Rightarrow> int option) \<Rightarrow> (string \<times> reader) list" where
  "record_readers new_url od = required_readers new_url od @ optional_readers od"

definition all_read :: "(string \<times> reader) list \<Rightarrow> js_object \<Rightarrow> bool" where
  "all_read readers r \<longleftrightarrow> list_all (\<lambda>(k, f). f (field_of r k) \<noteq> None) readers"

lemma optional_fields:
  "copy_event od r ''responseReceived'' @ copy_event od r ''loadingFinished'' @ copy_failure_event od r @
   copy_safe_identifier r ''playwrightRequestKey'' @ copy_safe_identifier r ''cdpRequestId'' @
   copy_safe_identifier r ''loaderId'' @ copy_safe_identifier r ''apiGatewayRequestId'' @
   copy_trace_identifiers r @ copy_connection r @ copy_encoded_bytes r @ copy_number r ''httpStatus'' @
   opt_text ''protocol'' (sanitize_lifecycle_protocol (field_of r ''protocol'')) =
   fields_of (optional_readers od) r"
  by (simp add: optional_readers_def fields_of_simps copy_event_eq copy_failure_eq copy_connection_eq
      copy_bytes_eq copy_safe_identifier_def copy_trace_identifiers_def copy_number_def opt_text_def text_reader_def)

lemma sanitize_record_eq:
  "sanitize_record new_url od v =
     (case as_record v of
        None \<Rightarrow> None
      | Some r \<Rightarrow>
          if all_read (required_readers new_url od) r then Some (fields_of (record_readers new_url od) r) else None)"
proof (cases "as_record v")
  case (Some r)
  show ?thesis
  proof (cases "all_read (required_readers new_url od) r")
    case True
    then obtain m org p e c where
      "sanitize_lifecycle_method (field_of r ''method'') = Some m"
      "non_empty (sanitize_lifecycle_origin new_url (field_of r ''origin'')) = Some org"
      "sanitize_lifecycle_path_template (field_of r ''pathTemplate'') = Some p"
      "sanitize_event od (field_of r ''requestStarted'') = Some e"
      "sanitize_lifecycle_classification (field_of r ''classification'') = Some c"
      by (auto simp: all_read_def required_readers_def text_reader_def origin_reader_def event_reader_eq [symmetric])
    then show ?thesis
      using Some True unfolding record_readers_def fields_of_append optional_fields [symmetric]
      by (simp add: sanitize_record_def required_readers_def fields_of_simps text_reader_def
          origin_reader_def event_reader_eq [symmetric] opt_field_def)
  next
    case False
    then show ?thesis
      using Some by (auto simp: sanitize_record_def all_read_def required_readers_def text_reader_def
          origin_reader_def event_reader_eq [symmetric] split: option.splits)
  qed
qed (simp add: sanitize_record_def)

lemma record_names: "distinct (map fst (record_readers new_url od))"
  by (simp add: record_readers_def required_readers_def optional_readers_def)

lemma sanitize_record_Some:
  "sanitize_record new_url od v = Some x \<Longrightarrow>
   \<exists>r. all_read (required_readers new_url od) r \<and> x = fields_of (record_readers new_url od) r"
  by (auto simp: sanitize_record_eq split: option.splits if_splits)

text \<open>Sanitizing again changes nothing, when the origin is read back as itself.\<close>

lemma sanitize_record_again:
  assumes dates: "dates_read_back od"
    and x: "sanitize_record new_url od v = Some x"
    and origin: "origin_reader new_url (field_of x ''origin'') = Some (field_of x ''origin'')"
  shows "sanitize_record new_url od (JObj x) = Some x"
proof -
  obtain r where r: "all_read (required_readers new_url od) r" "x = fields_of (record_readers new_url od) r"
    using sanitize_record_Some [OF x] by blast
  have read: "field_of x k = or_undefined (f (field_of r k))" if "(k, f) \<in> set (record_readers new_url od)" for k f
    using field_of_fields_of [OF record_names that] r(2) by simp
  have "settles f (field_of r k)" if f: "(k, f) \<in> set (record_readers new_url od)" for k f
  proof (cases "k = ''origin''")
    case True
    then have "f = origin_reader new_url"
      using f by (auto simp: record_readers_def required_readers_def optional_readers_def)
    moreover from this have "f (field_of r k) \<noteq> None"
      using r(1) True by (simp add: all_read_def required_readers_def)
    ultimately show ?thesis
      using origin read [OF f] True by (auto simp: settles_def)
  next
    case False
    then have "steady f"
      using f steady_readers steady_events [OF dates]
      by (auto simp: record_readers_def required_readers_def optional_readers_def)
    then show ?thesis by (rule steady_settles)
  qed
  then have settled: "\<forall>(k, f) \<in> set (record_readers new_url od). settles f (field_of r k)"
    by blast
  have "f (field_of x k) \<noteq> None" if f: "(k, f) \<in> set (required_readers new_url od)" for k f
  proof -
    have mem: "(k, f) \<in> set (record_readers new_url od)"
      using f by (simp add: record_readers_def)
    moreover have "f (field_of r k) \<noteq> None"
      using r(1) f by (auto simp: all_read_def list_all_iff)
    ultimately show ?thesis
      using settled read [OF mem] by (auto simp: settles_def)
  qed
  then have "all_read (required_readers new_url od) x"
    by (auto simp: all_read_def list_all_iff)
  moreover have "fields_of (record_readers new_url od) x = x"
    using fields_of_again [OF record_names settled] r(2) by simp
  ultimately show ?thesis
    by (simp add: sanitize_record_eq)
qed


subsection \<open>The type of a record\<close>

text \<open>The interfaces of the file as predicates: which properties an object may have, which it must
  have, and what their values may be. The content of every text is pinned down, not only its type.\<close>

type_synonym shape_test = "js \<Rightarrow> bool"

definition text_where :: "(string \<Rightarrow> bool) \<Rightarrow> shape_test" where
  "text_where p v = (case v of JStr s \<Rightarrow> p s | _ \<Rightarrow> False)"

definition short_text :: "(char \<Rightarrow> bool) \<Rightarrow> shape_test" where
  "short_text c = text_where (\<lambda>s. s \<noteq> [] \<and> length s \<le> 256 \<and> list_all c s)"

definition flag :: shape_test where
  "flag v = (case v of JBool b \<Rightarrow> True | _ \<Rightarrow> False)"

definition amount :: shape_test where
  "amount v = (case number_value v of None \<Rightarrow> False | Some x \<Rightarrow> 0 \<le> x \<and> x \<le> 9007199254740991)"

definition hex_id :: "nat \<Rightarrow> shape_test" where
  "hex_id n = text_where (\<lambda>s. lower_hex n s \<and> \<not> all_zero s)"

definition object_with :: "string list \<Rightarrow> (string \<times> shape_test) list \<Rightarrow> shape_test" where
  "object_with required tests v =
     (case v of
        JObj ps \<Rightarrow>
          distinct (map fst ps) \<and> ps \<noteq> [] \<and> list_all (map_has ps) required \<and>
          list_all (\<lambda>(k, x). case map_of tests k of None \<Rightarrow> False | Some p \<Rightarrow> p x) ps
      | _ \<Rightarrow> False)"

definition timestamp_shape :: shape_test where
  "timestamp_shape =
     object_with [''utc''] [(''utc'', text_where (\<lambda>s. \<exists>t. s = iso_string t)), (''monotonicMilliseconds'', amount)]"

definition event_tests :: "(string \<times> shape_test) list" where
  "event_tests = [(''cdp'', timestamp_shape), (''playwright'', timestamp_shape)]"

definition failure_tests :: "(string \<times> shape_test) list" where
  "failure_tests =
     event_tests @
     [(''errorText'', text_where safe_network_error), (''canceled'', flag),
      (''blockedReason'', short_text safe_identifier_char), (''corsErrorStatus'', short_text safe_identifier_char)]"

definition connection_tests :: "(string \<times> shape_test) list" where
  "connection_tests =
     [(''id'', amount), (''reused'', flag),
      (''remoteEndpoint'', object_with [] [(''ipAddress'', short_text safe_ip_char), (''port'', amount)])]"

definition is_web_origin :: "(string \<Rightarrow> url_parts option) \<Rightarrow> string \<Rightarrow> bool" where
  "is_web_origin new_url s \<longleftrightarrow>
     s \<noteq> [] \<and> (\<exists>t u. new_url t = Some u \<and> origin u = s \<and> protocol u \<in> {''http:'', ''https:''})"

definition is_path_template :: "string \<Rightarrow> bool" where
  "is_path_template s \<longleftrightarrow>
     starts_with s ''/'' \<and> length s \<le> 512 \<and> list_all (\<lambda>c. c \<noteq> CHR ''?'' \<and> c \<noteq> CHR ''#'') s"

definition record_tests :: "(string \<Rightarrow> url_parts option) \<Rightarrow> (string \<times> shape_test) list" where
  "record_tests new_url =
     [(''method'', text_where (\<lambda>s. s \<noteq> [] \<and> length s \<le> 16 \<and> list_all is_upper s)),
      (''origin'', text_where (is_web_origin new_url)), (''pathTemplate'', text_where is_path_template),
      (''requestStarted'', object_with [] event_tests),
      (''classification'', text_where (\<lambda>s. s \<in> set client_lifecycle_classification_priority)),
      (''responseReceived'', object_with [] event_tests), (''loadingFinished'', object_with [] event_tests),
      (''loadingFailed'', object_with [] failure_tests),
      (''playwrightRequestKey'', short_text safe_identifier_char),
      (''cdpRequestId'', short_text safe_identifier_char), (''loaderId'', short_text safe_identifier_char),
      (''apiGatewayRequestId'', short_text safe_identifier_char),
      (''traceId'', hex_id 32), (''spanId'', hex_id 16),
      (''connection'', object_with [] connection_tests),
      (''encodedBytes'', object_with [] [(''data'', amount), (''responseHeaders'', amount), (''total'', amount)]),
      (''httpStatus'', amount), (''protocol'', short_text safe_protocol_char)]"

definition lifecycle_record :: "(string \<Rightarrow> url_parts option) \<Rightarrow> js_object \<Rightarrow> bool" where
  "lifecycle_record new_url r \<longleftrightarrow>
     object_with [''method'', ''origin'', ''pathTemplate'', ''requestStarted'', ''classification'']
       (record_tests new_url) (JObj r)"

text \<open>A reader gives only values of a type.\<close>

definition gives :: "reader \<Rightarrow> shape_test \<Rightarrow> bool" where
  "gives f p \<longleftrightarrow> (\<forall>v x. f v = Some x \<longrightarrow> p x)"

lemma gives_text: "(\<And>v s. f v = Some s \<Longrightarrow> p s) \<Longrightarrow> gives (text_reader f) (text_where p)"
  by (auto simp: gives_def text_reader_def text_where_def)

lemma gives_sanitized:
  "gives (text_reader (sanitize_text (matches_class c))) (short_text c)"
  unfolding short_text_def
  by (rule gives_text)
    (auto simp: sanitize_text_def non_empty_Some matches_class_def client_lifecycle_identifier_cap_def
      split: option.splits if_splits)

lemma gives_hex: "gives (text_reader (sanitize_lifecycle_hex_identifier n)) (hex_id n)"
  unfolding hex_id_def
  by (rule gives_text)
    (auto simp: sanitize_lifecycle_hex_identifier_def matches_class_def lower_hex_def all_zero_def
      split: option.splits if_splits)

lemma gives_simple:
  "gives (text_reader sanitize_lifecycle_identifier) (short_text safe_identifier_char)"
  "gives (text_reader sanitize_lifecycle_protocol) (short_text safe_protocol_char)"
  "gives (text_reader sanitize_lifecycle_ip_address) (short_text safe_ip_char)"
  "gives (text_reader sanitize_lifecycle_trace_id) (hex_id 32)"
  "gives (text_reader sanitize_lifecycle_span_id) (hex_id 16)"
  "gives flag_reader flag" "gives sanitize_lifecycle_non_negative_number amount"
  using gives_sanitized gives_hex
  by (auto simp: sanitize_lifecycle_identifier_def [abs_def] sanitize_lifecycle_protocol_def [abs_def]
      sanitize_lifecycle_ip_address_def [abs_def] sanitize_lifecycle_trace_id_def [abs_def]
      sanitize_lifecycle_span_id_def [abs_def] gives_def flag_reader_def flag_def amount_def
      sanitize_lifecycle_non_negative_number_def max_safe_integer_def split: option.splits if_splits)

lemma gives_texts:
  "gives (text_reader sanitize_lifecycle_method) (text_where (\<lambda>s. s \<noteq> [] \<and> length s \<le> 16 \<and> list_all is_upper s))"
  "gives (origin_reader new_url) (text_where (is_web_origin new_url))"
  "gives (text_reader sanitize_lifecycle_path_template) (text_where is_path_template)"
  "gives (text_reader sanitize_lifecycle_classification)
     (text_where (\<lambda>s. s \<in> set client_lifecycle_classification_priority))"
  "gives (text_reader sanitize_lifecycle_network_error) (text_where safe_network_error)"
proof -
  show "gives (text_reader sanitize_lifecycle_method) (text_where (\<lambda>s. s \<noteq> [] \<and> length s \<le> 16 \<and> list_all is_upper s))"
    by (rule gives_text) (auto simp: sanitize_lifecycle_method_def matches_class_def split: option.splits if_splits)
  show "gives (origin_reader new_url) (text_where (is_web_origin new_url))"
    unfolding origin_reader_def
    by (rule gives_text) (auto simp: sanitize_lifecycle_origin_def is_web_origin_def non_empty_Some split: option.splits if_splits)
  show "gives (text_reader sanitize_lifecycle_path_template) (text_where is_path_template)"
    by (rule gives_text) (auto simp: sanitize_lifecycle_path_template_def is_path_template_def Let_def
        client_lifecycle_path_cap_def list_all_iff dest: set_takeWhileD split: option.splits if_splits)
  show "gives (text_reader sanitize_lifecycle_classification)
     (text_where (\<lambda>s. s \<in> set client_lifecycle_classification_priority))"
    by (rule gives_text) (auto simp: sanitize_lifecycle_classification_def split: option.splits if_splits)
  show "gives (text_reader sanitize_lifecycle_network_error) (text_where safe_network_error)"
    by (rule gives_text) (auto simp: sanitize_lifecycle_network_error_def Let_def split: option.splits if_splits)
qed


text \<open>Readers and tests name the same properties in the same order.\<close>

definition matched :: "(string \<times> reader) list \<Rightarrow> (string \<times> shape_test) list \<Rightarrow> bool" where
  "matched readers tests \<longleftrightarrow>
     distinct (map fst readers) \<and> list_all2 (\<lambda>q t. fst q = fst t \<and> gives (snd q) (snd t)) readers tests"

lemma matched_names: "matched readers tests \<Longrightarrow> map fst readers = map fst tests"
  by (auto simp: matched_def list_all2_conv_all_nth intro!: nth_equalityI)

lemma matched_test:
  assumes "matched readers tests" "(k, f) \<in> set readers"
  shows "\<exists>p. map_of tests k = Some p \<and> gives f p"
proof -
  obtain i where i: "i < length readers" "readers ! i = (k, f)"
    using assms(2) by (auto simp: in_set_conv_nth)
  then have t: "i < length tests" "fst (tests ! i) = k" "gives f (snd (tests ! i))"
    using assms(1) by (auto simp: matched_def list_all2_conv_all_nth)
  have "distinct (map fst tests)"
    using assms(1) matched_names [OF assms(1)] by (simp add: matched_def)
  then have "map_of tests k = Some (snd (tests ! i))"
    using t(1,2) by (metis map_of_eq_Some_iff nth_mem prod.collapse)
  with t(3) show ?thesis by blast
qed

lemma object_with_fields:
  assumes "matched readers tests" "fields_of readers r \<noteq> []"
    and "\<forall>k \<in> set required. \<exists>f. (k, f) \<in> set readers \<and> f (field_of r k) \<noteq> None"
  shows "object_with required tests (JObj (fields_of readers r))"
proof -
  let ?kvs = "map (\<lambda>(k, f). (k, f (field_of r k))) readers"
  have d: "distinct (map fst ?kvs)"
    using assms(1) by (simp only: names_of_readers matched_def)
  have "case map_of tests k of None \<Rightarrow> False | Some p \<Rightarrow> p x" if "(k, x) \<in> set (fields_of readers r)" for k x
    using that matched_test [OF assms(1)] by (fastforce simp: gives_def set_fields_of)
  moreover have "map_has (fields_of readers r) k" if k: "k \<in> set required" for k
  proof -
    obtain f x where "(k, f) \<in> set readers" "f (field_of r k) = Some x"
      using assms(3) k by blast
    then have "(k, x) \<in> set (fields_of readers r)"
      by (auto simp: set_fields_of)
    then show ?thesis
      by (metis map_has_def map_of_eq_None_iff image_eqI fst_conv)
  qed
  ultimately show ?thesis
    using distinct_fields [OF d] assms(2) by (auto simp: object_with_def list_all_iff fields_of_def)
qed

lemma gives_object: "matched readers tests \<Longrightarrow> gives (object_reader readers) (object_with [] tests)"
  by (auto simp: gives_def object_reader_def object_with_fields split: option.splits if_splits)

lemma matched_simps:
  "matched [] []"
  "matched ((k, f) # readers) ((j, p) # tests) \<longleftrightarrow>
     k = j \<and> k \<notin> fst ` set readers \<and> gives f p \<and> matched readers tests"
  by (auto simp: matched_def)

lemma gives_timestamp: "gives (timestamp_reader od) timestamp_shape"
  using gives_simple(7)
  by (auto simp: gives_def timestamp_reader_def sanitize_timestamp_def timestamp_shape_def object_with_def
      opt_field_def text_where_def map_has_def split: option.splits)

lemma gives_objects:
  "gives (object_reader (event_readers od)) (object_with [] event_tests)"
  "gives (object_reader (failure_readers od)) (object_with [] failure_tests)"
  "gives (object_reader connection_readers) (object_with [] connection_tests)"
  "gives (object_reader bytes_readers) (object_with [] [(''data'', amount), (''responseHeaders'', amount), (''total'', amount)])"
proof -
  have endpoint: "gives (object_reader endpoint_readers) (object_with [] [(''ipAddress'', short_text safe_ip_char), (''port'', amount)])"
    by (rule gives_object) (simp add: endpoint_readers_def matched_simps gives_simple)
  show "gives (object_reader (event_readers od)) (object_with [] event_tests)"
    by (rule gives_object) (simp add: event_readers_def event_tests_def matched_simps gives_timestamp)
  show "gives (object_reader (failure_readers od)) (object_with [] failure_tests)"
    by (rule gives_object)
      (simp add: failure_readers_def event_readers_def failure_tests_def event_tests_def matched_simps
        gives_timestamp gives_simple gives_texts)
  show "gives (object_reader connection_readers) (object_with [] connection_tests)"
    by (rule gives_object)
      (simp add: connection_readers_def connection_tests_def matched_simps gives_simple endpoint)
  show "gives (object_reader bytes_readers) (object_with [] [(''data'', amount), (''responseHeaders'', amount), (''total'', amount)])"
    by (rule gives_object) (simp add: bytes_readers_def matched_simps gives_simple)
qed

lemma record_matched: "matched (record_readers new_url od) (record_tests new_url)"
  by (simp add: record_readers_def required_readers_def optional_readers_def record_tests_def matched_simps
      gives_simple gives_texts gives_objects)

lemma sanitized_lifecycle_record:
  assumes "sanitize_record new_url od v = Some x"
  shows "lifecycle_record new_url x"
proof -
  obtain r where r: "all_read (required_readers new_url od) r" "x = fields_of (record_readers new_url od) r"
    using sanitize_record_Some [OF assms] by blast
  have req: "\<forall>k \<in> set (map fst (required_readers new_url od)).
      \<exists>f. (k, f) \<in> set (record_readers new_url od) \<and> f (field_of r k) \<noteq> None"
    using r(1) by (force simp: all_read_def list_all_iff record_readers_def)
  have "fields_of (record_readers new_url od) r \<noteq> []"
    using r(1) by (auto simp: record_readers_def required_readers_def fields_of_simps all_read_def opt_field_def)
  then show ?thesis
    using object_with_fields [OF record_matched _ req] r(2)
    by (simp add: lifecycle_record_def required_readers_def)
qed

lemma filter_some_map: "filter_some (map f vs) = map (\<lambda>v. the (f v)) (filter (\<lambda>v. f v \<noteq> None) vs)"
  by (induction vs) (auto split: option.splits)

lemma set_filter_some: "x \<in> set (filter_some xs) \<longleftrightarrow> Some x \<in> set xs"
  by (induction xs rule: filter_some.induct) auto

lemma length_filter_some: "length (filter_some xs) \<le> length xs"
  by (induction xs rule: filter_some.induct) auto


subsection \<open>The size of an attachment\<close>

definition record_bytes :: "js_object \<Rightarrow> nat" where
  "record_bytes r = utf8_length (json_text (JObj r))"

text \<open>The bytes of the records of an array, with the commas between them.\<close>

definition array_bytes :: "js_object list \<Rightarrow> nat" where
  "array_bytes rs = sum_list (map record_bytes rs) + (length rs - 1)"

lemma utf8_length_simps [simp]:
  "utf8_length [] = 0" "utf8_length (c # s) = (if code c < 128 then 1 else 2) + utf8_length s"
  "utf8_length (s @ t) = utf8_length s + utf8_length t"
  by (simp_all add: utf8_length_def)

lemma clean_objects: "clean_elements (map JObj rs) = map (\<lambda>r. JObj (clean_members r)) rs"
  by (induction rs) auto

lemma record_bytes_eq: "record_bytes r = utf8_length (print_json (JObj (clean_members r)))"
  by (simp add: record_bytes_def json_text_def stringify_def)

lemma utf8_elements:
  "utf8_length (print_elements (map (\<lambda>r. JObj (clean_members r)) rs)) = array_bytes rs + 1"
proof (induction rs)
  case (Cons r rs)
  then show ?case
    by (cases rs) (simp_all add: array_bytes_def record_bytes_eq code_def)
qed (simp add: array_bytes_def code_def)

lemma show_two: "show_int 2 = ''2''"
  by code_simp

lemma attachment_text:
  "json_text (attachment_json \<lparr>attachment_truncated = t, attachment_records = rs\<rparr>) =
     ''{\"schemaVersion\":2,\"truncated\":'' @ (if t then ''true'' else ''false'') @ '',\"records\":['' @
     print_elements (map (\<lambda>r. JObj (clean_members r)) rs) @ ''}''"
  by (simp add: json_text_def attachment_json_def stringify_def clean_objects schema_version_def
      print_string_def escape_char_def quote_def backslash_def code_def show_two)

lemma serialized_bytes:
  "utf8_length (snd (serialize_attachment rs t)) = utf8_length (snd (serialize_attachment [] t)) + array_bytes rs"
  by (simp add: serialize_attachment_def attachment_text utf8_elements array_bytes_def code_def)

lemma serialized_fits: "utf8_length (snd (serialize_attachment rs t)) \<le> empty_attachment_bytes + array_bytes rs"
  unfolding serialized_bytes [of rs t] by (cases t) (simp_all add: empty_attachment_bytes_def)

lemma empty_attachment_fits: "empty_attachment_bytes + array_bytes [] \<le> maximum_bytes"
  by (simp add: empty_attachment_bytes_def serialize_attachment_def attachment_text array_bytes_def
      maximum_bytes_def code_def)

lemma array_bytes_snoc:
  "array_bytes (rs @ [r]) = array_bytes rs + (if length rs = 0 then 0 else 1) + record_bytes r"
  by (cases rs) (auto simp: array_bytes_def)

lemma include_records:
  assumes "empty_attachment_bytes + array_bytes acc \<le> maximum_bytes" "length acc \<le> maximum_records"
  shows "\<exists>ks. include_records acc (array_bytes acc) rs = acc @ ks \<and> subseq ks rs \<and>
    length (acc @ ks) \<le> maximum_records \<and> empty_attachment_bytes + array_bytes (acc @ ks) \<le> maximum_bytes"
  using assms
proof (induction rs arbitrary: acc)
  case (Cons r rs)
  let ?more = "array_bytes (acc @ [r])"
  consider "maximum_records \<le> length acc"
    | "\<not> maximum_records \<le> length acc" "empty_attachment_bytes + ?more \<le> maximum_bytes"
    | "\<not> maximum_records \<le> length acc" "\<not> empty_attachment_bytes + ?more \<le> maximum_bytes"
    by blast
  then show ?case
  proof cases
    case 2
    then obtain ks where "include_records (acc @ [r]) ?more rs = (acc @ [r]) @ ks" "subseq ks rs"
      "length ((acc @ [r]) @ ks) \<le> maximum_records"
      "empty_attachment_bytes + array_bytes ((acc @ [r]) @ ks) \<le> maximum_bytes"
      using Cons.IH [of "acc @ [r]"] by auto
    then show ?thesis
      using 2 by (intro exI [of _ "r # ks"]) (simp add: array_bytes_snoc record_bytes_def [symmetric] add.assoc)
  next
    case 3
    then show ?thesis
      using Cons.IH [OF Cons.prems]
      by (auto simp: array_bytes_snoc record_bytes_def [symmetric] add.assoc)
  qed (use Cons.prems in auto)
qed simp

lemma include_all:
  assumes "length (acc @ rs) \<le> maximum_records" "empty_attachment_bytes + array_bytes (acc @ rs) \<le> maximum_bytes"
  shows "include_records acc (array_bytes acc) rs = acc @ rs"
  using assms
proof (induction rs arbitrary: acc)
  case (Cons r rs)
  have "array_bytes (acc @ [r]) \<le> array_bytes (acc @ r # rs)"
    by (auto simp: array_bytes_def)
  then have "empty_attachment_bytes + array_bytes (acc @ [r]) \<le> maximum_bytes"
    using Cons.prems(2) by simp
  then show ?case
    using Cons.IH [of "acc @ [r]"] Cons.prems
    by (simp add: array_bytes_snoc record_bytes_def [symmetric] add.assoc)
qed simp


subsection \<open>What is encoded and what is read\<close>

definition sanitized_records ::
  "(string \<Rightarrow> url_parts option) \<Rightarrow> (string \<Rightarrow> int option) \<Rightarrow> js list \<Rightarrow> js_object list" where
  "sanitized_records new_url od rs = filter_some (map (sanitize_record new_url od) rs)"

text \<open>The place of a record's classification in the order of priority, 0 first.\<close>

definition urgency :: "js_object \<Rightarrow> nat" where
  "urgency r =
     (case find_index (\<lambda>c. classification_of r = JStr c) client_lifecycle_classification_priority of
        None \<Rightarrow> length client_lifecycle_classification_priority
      | Some i \<Rightarrow> i)"

definition by_urgency :: "js_object list \<Rightarrow> bool" where
  "by_urgency rs \<longleftrightarrow> sorted (map urgency rs)"

lemma urgency_simps:
  "classification_of r = JStr ''no_response_headers'' \<Longrightarrow> urgency r = 0"
  "classification_of r = JStr ''headers_without_body_completion'' \<Longrightarrow> urgency r = 1"
  "classification_of r = JStr ''network_failure'' \<Longrightarrow> urgency r = 2"
  "classification_of r = JStr ''completed'' \<Longrightarrow> urgency r = 3"
  by (simp_all add: urgency_def client_lifecycle_classification_priority_def)

lemma sorted_same: "\<forall>x \<in> set xs. f x = c \<Longrightarrow> sorted (map f xs)"
  by (induction xs) auto

lemma prioritize_sorted: "by_urgency (prioritize_records rs)"
  unfolding by_urgency_def prioritize_records_def client_lifecycle_classification_priority_def
  by (auto simp: sorted_append urgency_simps intro: sorted_same)

lemma sorted_part: "subseq ks xs \<Longrightarrow> sorted (map f xs) \<Longrightarrow> sorted (map f ks)"
proof (induction rule: list_emb.induct)
  case (list_emb_Cons2 x y xs ys)
  then show ?case
    using list_emb_set [of "(=)" xs ys] by auto
qed auto

lemma by_urgency_subseq: "subseq ks (prioritize_records rs) \<Longrightarrow> by_urgency ks"
  using prioritize_sorted [of rs] unfolding by_urgency_def by (rule sorted_part [rotated])

lemma encode_parts:
  "\<exists>ks. attachment_records (encoded (encode_attachment new_url od rs trunc)) = ks \<and>
     subseq ks (prioritize_records (sanitized_records new_url od rs)) \<and> length ks \<le> maximum_records \<and>
     empty_attachment_bytes + array_bytes ks \<le> maximum_bytes \<and>
     encode_attachment new_url od rs trunc =
       \<lparr>encoded_body = snd (serialize_attachment ks (trunc \<or> length ks < length rs)),
        encoded = \<lparr>attachment_truncated = (trunc \<or> length ks < length rs), attachment_records = ks\<rparr>,
        observed_count = length rs, included_count = length ks, dropped_count = length rs - length ks\<rparr>"
  using include_records [OF empty_attachment_fits, of "prioritize_records (sanitized_records new_url od rs)"]
  by (auto simp: encode_attachment_def serialize_attachment_def Let_def sanitized_records_def array_bytes_def)

definition within_limits :: "encoded_attachment \<Rightarrow> bool" where
  "within_limits e \<longleftrightarrow>
     utf8_length (encoded_body e) \<le> maximum_bytes \<and> length (attachment_records (encoded e)) \<le> maximum_records \<and>
     encoded_body e = json_text (attachment_json (encoded e))"

definition counts_exact :: "js list \<Rightarrow> bool \<Rightarrow> encoded_attachment \<Rightarrow> bool" where
  "counts_exact rs trunc e \<longleftrightarrow>
     observed_count e = length rs \<and> included_count e = length (attachment_records (encoded e)) \<and>
     included_count e + dropped_count e = observed_count e \<and>
     attachment_truncated (encoded e) = (trunc \<or> 0 < dropped_count e)"

lemma length_sanitized: "length (sanitized_records new_url od rs) \<le> length rs"
  unfolding sanitized_records_def by (rule order_trans [OF length_filter_some]) simp

lemma length_prioritized: "length (prioritize_records rs) \<le> length rs"
proof -
  have "length (prioritize_records rs) =
      length (filter (\<lambda>r. urgency r < 4) rs)"
    by (induction rs)
      (auto simp: prioritize_records_def client_lifecycle_classification_priority_def urgency_def)
  then show ?thesis by simp
qed

lemma attachment_limits:
  "within_limits (encode_attachment new_url od rs trunc) \<and>
   counts_exact rs trunc (encode_attachment new_url od rs trunc) \<and>
   by_urgency (attachment_records (encoded (encode_attachment new_url od rs trunc))) \<and>
   subseq (attachment_records (encoded (encode_attachment new_url od rs trunc)))
     (prioritize_records (sanitized_records new_url od rs))"
proof -
  let ?ps = "prioritize_records (sanitized_records new_url od rs)"
  obtain ks where ks: "subseq ks ?ps" "length ks \<le> maximum_records" "empty_attachment_bytes + array_bytes ks \<le> maximum_bytes"
    and e: "encode_attachment new_url od rs trunc =
       \<lparr>encoded_body = snd (serialize_attachment ks (trunc \<or> length ks < length rs)),
        encoded = \<lparr>attachment_truncated = (trunc \<or> length ks < length rs), attachment_records = ks\<rparr>,
        observed_count = length rs, included_count = length ks, dropped_count = length rs - length ks\<rparr>"
    using encode_parts [of new_url od rs trunc] by blast
  have "length ks \<le> length rs"
    using list_emb_length [OF ks(1)] length_prioritized [of "sanitized_records new_url od rs"]
      length_sanitized [of new_url od rs] by simp
  then have "counts_exact rs trunc (encode_attachment new_url od rs trunc)"
    by (auto simp: counts_exact_def e)
  moreover have "within_limits (encode_attachment new_url od rs trunc)"
    using ks(2,3) serialized_fits [of ks "trunc \<or> length ks < length rs"]
    by (simp add: within_limits_def e serialize_attachment_def Let_def)
  ultimately show ?thesis
    using ks(1) by_urgency_subseq [OF ks(1)] by (simp add: e)
qed

lemma encoded_from:
  assumes "x \<in> set (attachment_records (encoded (encode_attachment new_url od rs trunc)))"
  shows "\<exists>v \<in> set rs. sanitize_record new_url od v = Some x"
proof -
  have "x \<in> set (prioritize_records (sanitized_records new_url od rs))"
    using list_emb_set [of "(=)", OF _ assms] attachment_limits [of new_url od rs trunc] by blast
  then have "Some x \<in> set (map (sanitize_record new_url od) rs)"
    by (auto simp: prioritize_records_def sanitized_records_def set_filter_some)
  then show ?thesis
    by (auto dest: sym)
qed

lemma all_encoded:
  assumes "length (prioritize_records (sanitized_records new_url od rs)) = length rs" "length rs \<le> maximum_records"
    and "empty_attachment_bytes + array_bytes (prioritize_records (sanitized_records new_url od rs)) \<le> maximum_bytes"
  shows "encoded (encode_attachment new_url od rs trunc) =
      \<lparr>attachment_truncated = trunc, attachment_records = prioritize_records (sanitized_records new_url od rs)\<rparr>"
    and "dropped_count (encode_attachment new_url od rs trunc) = 0"
  using assms include_all [of "[]" "prioritize_records (sanitized_records new_url od rs)"]
  by (simp_all add: encode_attachment_def serialize_attachment_def Let_def sanitized_records_def array_bytes_def)

text \<open>C40: An encoded attachment is at most 65536 bytes and 100 records long whatever it is given, and
  its body is the text of the attachment it reports; its counts add up and it is marked as truncated
  exactly when it was before or something was dropped; its records are sanitized ones of the input,
  the most urgent first; and nothing is dropped when all records are valid and together fit.\<close>

theorem attachment_within_limits:
  "within_limits (encode_attachment new_url od rs trunc) \<and>
   counts_exact rs trunc (encode_attachment new_url od rs trunc) \<and>
   by_urgency (attachment_records (encoded (encode_attachment new_url od rs trunc))) \<and>
   subseq (attachment_records (encoded (encode_attachment new_url od rs trunc)))
     (prioritize_records (sanitized_records new_url od rs)) \<and>
   (length (prioritize_records (sanitized_records new_url od rs)) = length rs \<and> length rs \<le> maximum_records \<and>
    empty_attachment_bytes + array_bytes (prioritize_records (sanitized_records new_url od rs)) \<le> maximum_bytes \<longrightarrow>
    dropped_count (encode_attachment new_url od rs trunc) = 0)"
  using attachment_limits [of new_url od rs trunc] all_encoded(2) [of new_url od rs trunc] by blast

definition example_record :: js where
  "example_record =
     JObj [(''method'', JStr '' get ''), (''origin'', JStr ''https://a.b''), (''pathTemplate'', JStr ''/x?y''),
           (''classification'', JStr ''completed''),
           (''requestStarted'', JObj [(''cdp'', JObj [(''utc'', JStr ''2024-02-29T12:30:00.000Z'')])]),
           (''cookie'', JStr ''secret'')]"

definition example_url :: "string \<Rightarrow> url_parts option" where
  "example_url s =
     (if starts_with s ''https://'' then Some \<lparr>protocol = ''https:'', origin = s, pathname = ''/''\<rparr> else None)"

definition example_sanitized :: js_object where
  "example_sanitized =
     [(''method'', JStr ''GET''), (''origin'', JStr ''https://a.b''), (''pathTemplate'', JStr ''/x''),
      (''requestStarted'', JObj [(''cdp'', JObj [(''utc'', JStr ''2024-02-29T12:30:00.000Z'')])]),
      (''classification'', JStr ''completed'')]"

lemma example_values:
  "parse_iso ''2024-02-29T12:30:00.000Z'' = Some 1709209800000"
  "iso_string 1709209800000 = ''2024-02-29T12:30:00.000Z''"
  "sanitize_lifecycle_method (JStr '' get '') = Some ''GET''"
  "sanitize_lifecycle_path_template (JStr ''/x?y'') = Some ''/x''"
  "sanitize_lifecycle_classification (JStr ''completed'') = Some ''completed''"
  "sanitize_lifecycle_origin example_url (JStr ''https://a.b'') = Some ''https://a.b''"
  by code_simp+

lemma absent_readers [simp]: "text_reader f JUndefined = map_option JStr (f JUndefined)"
  "object_reader fs JUndefined = None"
  by (simp_all add: text_reader_def object_reader_def)

lemma absent_values [simp]:
  "sanitize_lifecycle_identifier JUndefined = None" "sanitize_lifecycle_trace_id JUndefined = None"
  "sanitize_lifecycle_span_id JUndefined = None" "sanitize_lifecycle_protocol JUndefined = None"
  "sanitize_lifecycle_non_negative_number JUndefined = None" "sanitize_timestamp od JUndefined = None"
  by (simp_all add: sanitize_lifecycle_identifier_def sanitize_lifecycle_trace_id_def
      sanitize_lifecycle_span_id_def sanitize_lifecycle_protocol_def sanitize_lifecycle_hex_identifier_def
      sanitize_text_def sanitize_lifecycle_non_negative_number_def sanitize_timestamp_def)

lemma example_sanitize: "sanitize_record example_url (\<lambda>s. None) example_record = Some example_sanitized"
  by (simp add: sanitize_record_def example_record_def example_sanitized_def field_of_def example_values
      sanitize_event_def sanitize_timestamp_def parse_date_def opt_field_def copy_event_eq copy_failure_eq
      copy_connection_eq copy_bytes_eq copy_safe_identifier_def copy_trace_identifiers_def copy_number_def
      opt_text_def)

lemma example_sanitized_records [simp]:
  "sanitized_records example_url (\<lambda>s. None) [example_record] = [example_sanitized]"
  "prioritize_records [example_sanitized] = [example_sanitized]"
  by (simp_all add: sanitized_records_def example_sanitize prioritize_records_def classification_of_def
      field_of_def client_lifecycle_classification_priority_def example_sanitized_def)

lemma example_fits: "empty_attachment_bytes + array_bytes [example_sanitized] \<le> maximum_bytes"
  by (simp add: empty_attachment_bytes_def serialize_attachment_def attachment_text array_bytes_def
      maximum_bytes_def record_bytes_eq example_sanitized_def print_string_def escape_char_def code_def
      quote_def backslash_def)

lemma example_encoded:
  "encoded (encode_attachment example_url (\<lambda>s. None) [example_record] False) =
     \<lparr>attachment_truncated = False, attachment_records = [example_sanitized]\<rparr>"
  using all_encoded(1) [of example_url "\<lambda>s. None" "[example_record]" False] example_fits
  by (simp add: maximum_records_def)

theorem attachment_within_limits_witness:
  "within_limits (encode_attachment example_url (\<lambda>s. None) [example_record] False) \<and>
   dropped_count (encode_attachment example_url (\<lambda>s. None) [example_record] False) = 0"
  using attachment_within_limits [of example_url "\<lambda>s. None" "[example_record]" False] example_fits
  by (simp add: maximum_records_def)

text \<open>C8: Every record that is written to an attachment or read from one is of the record type, however
  hostile the input: it has the required properties, none but the listed ones, and each value is
  within its alphabet and length or range; and no more than 100 are read.\<close>

theorem attachment_records_typed:
  "list_all (lifecycle_record new_url) (attachment_records (encoded (encode_attachment new_url od rs trunc))) \<and>
   (case parse_attachment new_url od body of
      None \<Rightarrow> True
    | Some a \<Rightarrow> list_all (lifecycle_record new_url) (attachment_records a) \<and>
        length (attachment_records a) \<le> maximum_records)"
proof -
  have "list_all (lifecycle_record new_url) (attachment_records (encoded (encode_attachment new_url od rs trunc)))"
    using encoded_from [of _ new_url od rs trunc] sanitized_lifecycle_record by (fastforce simp: list_all_iff)
  moreover have "length (filter_some (map f (take maximum_records vs))) \<le> maximum_records"
    for f :: "js \<Rightarrow> js_object option" and vs
    by (rule order_trans [OF length_filter_some]) simp
  moreover have "lifecycle_record new_url r" if "Some r \<in> sanitize_record new_url od ` X" for r X
    using that by (auto intro: sanitized_lifecycle_record dest: sym)
  then have "list_all (lifecycle_record new_url) (filter_some (map (sanitize_record new_url od) vs))" for vs
    by (simp add: list_all_iff set_filter_some)
  ultimately show ?thesis
    by (auto simp: parse_attachment_def Let_def split: option.splits js.splits)
qed

end
