(* ===== verification/IsoDates.thy ===== *)
theory IsoDates
  imports Json
begin

section \<open>Dates that are printed and read back\<close>

text \<open>
  The date that \<open>toISOString\<close> prints is the date that \<open>Date.parse\<close> reads: the calendar of \<^verbatim>\<open>Json\<close>
  turns days into dates and back, and the fixed-width text keeps every part. This is what lets a
  timestamp be sanitized on both sides of an attachment.
\<close>

subsection \<open>The calendar\<close>

lemma int_div_eqI: "b * q \<le> a \<Longrightarrow> a < b * q + b \<Longrightarrow> a div b = (q :: int)"
  using int_div_pos_eq [of a b q "a - b * q"] by simp

text \<open>Days before a year of the era, which starts in March; a year has its leap day at its end.\<close>

definition days_before_year :: "int \<Rightarrow> int" where
  "days_before_year y = 365 * y + y div 4 - y div 100"

definition long_year :: "int \<Rightarrow> bool" where
  "long_year y \<longleftrightarrow> (y + 1) mod 4 = 0 \<and> ((y + 1) mod 100 \<noteq> 0 \<or> (y + 1) mod 400 = 0)"

lemma year_of_day:
  assumes y: "0 \<le> y" "y < 400" and doy: "0 \<le> doy" "doy \<le> 364 + (if long_year y then 1 else 0)"
    and doe: "doe = days_before_year y + doy"
  shows "(doe - doe div 1460 + doe div 36524 - doe div 146096) div 365 = y"
    and "0 \<le> doe" and "doe < 146097"
proof -
  define c k j where "c = y div 100" "k = y mod 100 div 4" "j = y mod 100 mod 4"
  have parts: "y = 100 * c + 4 * k + j" "0 \<le> c" "c \<le> 3" "0 \<le> k" "k \<le> 24" "0 \<le> j" "j \<le> 3"
    using y unfolding c_k_j_def
    by (simp_all add: pos_imp_zdiv_nonneg_iff)
  have d: "doe = 36524 * c + 1461 * k + 365 * j + doy"
  proof -
    have "y div 4 = 25 * c + k" "y div 100 = c"
      using parts by (auto intro!: int_div_eqI)
    then show ?thesis
      using parts(1) by (simp add: doe days_before_year_def)
  qed
  have long: "j = 3 \<and> (k = 24 \<longrightarrow> c = 3)" if "doy = 365"
  proof -
    have "long_year y"
      using that doy(2) by (auto split: if_splits)
    then have y4: "(y + 1) mod 4 = 0" and y100: "(y + 1) mod 100 = 0 \<Longrightarrow> (y + 1) mod 400 = 0"
      by (auto simp: long_year_def)
    have "y + 1 = (j + 1) + (25 * c + k) * 4"
      using parts(1) by simp
    then have "(y + 1) mod 4 = (j + 1) mod 4"
      by (simp only: mod_mult_self1)
    moreover have "j = 0 \<or> j = 1 \<or> j = 2 \<or> j = 3"
      using parts(6,7) by linarith
    ultimately have "j = 3"
      using y4 by auto
    moreover have "c = 3" if "k = 24"
    proof -
      have "c = 0 \<or> c = 1 \<or> c = 2 \<or> c = 3"
        using parts(2,3) by linarith
      then show ?thesis
        using y100 parts(1) \<open>j = 3\<close> that by auto
    qed
    ultimately show ?thesis by blast
  qed
  have small: "doy \<le> 365"
    using doy(2) by (auto split: if_splits)
  show "0 \<le> doe"
    using parts doy(1) d by simp
  have in_century: "1461 * k + 365 * j + doy \<le> 36523 \<or> (c = 3 \<and> k = 24 \<and> j = 3 \<and> doy = 365)"
    using parts small long by (cases "doy = 365"; cases "k = 24"; cases "j = 3") auto
  show "doe < 146097"
    using parts in_century d small by auto
  show "(doe - doe div 1460 + doe div 36524 - doe div 146096) div 365 = y"
  proof (cases "c = 3 \<and> k = 24 \<and> j = 3 \<and> doy = 365")
    case True
    then show ?thesis
      using d parts(1) by simp
  next
    case False
    define q :: int where "q = (if 24 * c + k + 365 * j + doy < 1460 then 0 else 1)"
    have a: "doe div 36524 = c" "doe div 146096 = 0"
      using False in_century parts doy(1) d by (auto intro!: int_div_eqI)
    have b: "doe div 1460 = 25 * c + k + q"
      using False parts doy(1) small d long by (auto intro!: int_div_eqI simp: q_def)
    have "doy = 365 \<or> doy \<le> 364"
      using small by linarith
    then have "0 \<le> doy - q \<and> doy - q \<le> 364"
      using parts doy(1) long by (cases "j = 3") (auto simp: q_def)
    moreover have "doe - doe div 1460 + c - 0 = 365 * y + (doy - q)"
      using b d parts(1) by linarith
    ultimately have "(doe - doe div 1460 + c - 0) div 365 = y"
      by (intro int_div_eqI) simp_all
    then show ?thesis
      by (simp only: a)
  qed
qed

text \<open>Days before a month of a year that starts in March, and the length of the month.\<close>

definition days_before_month :: "int \<Rightarrow> int" where
  "days_before_month mp = (153 * mp + 2) div 5"

definition march_month :: "int \<Rightarrow> int" where
  "march_month m = (if 2 < m then m - 3 else m + 9)"

definition march_year :: "int \<Rightarrow> int \<Rightarrow> int" where
  "march_year y m = (if m \<le> 2 then y - 1 else y)"

lemma months: "0 \<le> mp \<Longrightarrow> mp \<le> 11 \<Longrightarrow> mp \<in> {0, 1, 2, 3, 4, 5, 6, 7, 8, 9, 10, 11 :: int}"
proof -
  assume "0 \<le> mp" "mp \<le> 11"
  then have "mp \<in> set [0..11]" by simp
  then show ?thesis by (simp add: upto.simps)
qed

lemma month_of_day:
  assumes "0 \<le> mp" "mp \<le> 11" "1 \<le> d" "d \<le> days_before_month (mp + 1) - days_before_month mp"
  shows "(5 * (days_before_month mp + d - 1) + 2) div 153 = mp"
  using months [OF assms(1,2)] assms(3,4)
  by (auto simp: days_before_month_def intro!: int_div_eqI)

definition days_before :: "int \<Rightarrow> int" where
  "days_before y = 365 * y + y div 4 - y div 100 + y div 400"

lemma split_era:
  "(y :: int) div 4 = 100 * (y div 400) + (y mod 400) div 4"
  "y div 100 = 4 * (y div 400) + (y mod 400) div 100"
  "365 * y = 365 * (y mod 400) + 146000 * (y div 400)"
proof -
  have div_shift: "(b * a + r) div b = a + r div b" if "b \<noteq> 0" for a b r :: int
    using that by simp
  have y: "y = 4 * (100 * (y div 400)) + y mod 400" "y = 100 * (4 * (y div 400)) + y mod 400"
    using mult_div_mod_eq [of 400 y] by linarith+
  show "y div 4 = 100 * (y div 400) + (y mod 400) div 4"
    by (rule trans [OF arg_cong [OF y(1), of "\<lambda>x. x div 4"] div_shift]) simp
  show "y div 100 = 4 * (y div 400) + (y mod 400) div 100"
    by (rule trans [OF arg_cong [OF y(2), of "\<lambda>x. x div 100"] div_shift]) simp
  show "365 * y = 365 * (y mod 400) + 146000 * (y div 400)"
    using mult_div_mod_eq [of 400 y] by linarith
qed

lemma add_eras:
  assumes "a = 100 * q + e" "b = 4 * q + f" "365 * y = 365 * r + 146000 * (q :: int)"
  shows "365 * y + a - b + q = q * 146097 + (365 * r + e - f)"
  using assms by simp

lemma era_days: "days_before y = (y div 400) * 146097 + days_before_year (y mod 400)"
  unfolding days_before_def days_before_year_def by (rule add_eras [OF split_era])

lemma days_of_civil_eq:
  "days_of_civil y m d =
     days_before (march_year y m) + days_before_month (march_month m) + d - 1 - 719468"
  unfolding days_of_civil_def Let_def march_month_def [symmetric] march_year_def [symmetric]
    days_before_month_def [symmetric] era_days days_before_year_def
  by (simp only: mult.commute [of _ 365] diff_conv_add_uminus add_ac)

lemma next_div:
  assumes "0 < (n :: int)"
  shows "(y + 1) div n = y div n + (if (y + 1) mod n = 0 then 1 else 0)"
proof -
  have y: "n * (y div n) + y mod n = y" "0 \<le> y mod n" "y mod n < n"
    using assms by simp_all
  show ?thesis
  proof (cases "y mod n + 1 = n")
    case True
    then have "y + 1 = n * (y div n + 1)"
      using y(1) by (simp only: distrib_left mult_1_right)
    then show ?thesis
      using assms by simp
  next
    case False
    have q: "(y + 1) div n = y div n"
      by (rule int_div_eqI) (use y False in linarith)+
    have "n * (y div n) + (y + 1) mod n = y + 1"
      using mult_div_mod_eq [of n "y + 1"] by (simp only: q)
    then have "(y + 1) mod n = y mod n + 1"
      using y(1) by linarith
    with q y(2) show ?thesis by simp
  qed
qed

lemma leap_count:
  assumes "a' = a + (if p then 1 else 0)" "b' = b + (if q then 1 else 0)" "c' = c + (if r then 1 else 0)"
    and "r \<Longrightarrow> q" "q \<Longrightarrow> p"
  shows "365 * (y + 1) + a' - b' + c' = 365 * y + a - b + c + 365 + (if p \<and> (\<not> q \<or> r) then 1 else 0 :: int)"
  using assms by (cases p; cases q; cases r) simp_all

lemma next_year: "days_before (y + 1) = days_before y + 365 + (if long_year y then 1 else 0)"
  unfolding days_before_def long_year_def
proof (rule leap_count)
  show "(y + 1) div 4 = y div 4 + (if (y + 1) mod 4 = 0 then 1 else 0)"
    "(y + 1) div 100 = y div 100 + (if (y + 1) mod 100 = 0 then 1 else 0)"
    "(y + 1) div 400 = y div 400 + (if (y + 1) mod 400 = 0 then 1 else 0)"
    by (rule next_div, simp)+
  show "(y + 1) mod 100 = 0" if "(y + 1) mod 400 = 0"
    using dvd_trans [of 100 400 "y + 1"] that by (simp add: mod_eq_0_iff_dvd)
  show "(y + 1) mod 4 = 0" if "(y + 1) mod 100 = 0"
    using dvd_trans [of 4 100 "y + 1"] that by (simp add: mod_eq_0_iff_dvd)
qed

lemma days_in_month_eq:
  assumes "1 \<le> m" "m \<le> 12"
  shows "days_in_month y m =
     (if m = 2 then 28 + (if long_year (y - 1) then 1 else 0)
      else days_before_month (march_month m + 1) - days_before_month (march_month m))"
proof -
  have "m \<in> set [1..12]"
    using assms by simp
  then have "m \<in> {1, 2, 3, 4, 5, 6, 7, 8, 9, 10, 11, 12}"
    by (simp add: upto.simps)
  then show ?thesis
    using next_year [of "y - 1"]
    by (auto simp: days_in_month_def days_of_civil_eq march_month_def march_year_def days_before_month_def)
qed

theorem civil_of_days_of_civil:
  assumes m: "1 \<le> m" "m \<le> 12" and d: "1 \<le> d" "d \<le> days_in_month y m"
  shows "civil_of_days (days_of_civil y m d) = (y, m, d)"
proof -
  let ?y = "march_year y m" and ?mp = "march_month m"
  let ?e = "?y mod 400"
  have mp: "0 \<le> ?mp" "?mp \<le> 11"
    using m by (auto simp: march_month_def)
  have long: "long_year ?e = long_year ?y"
  proof -
    have "(?e + 1) mod n = (?y + 1) mod n" if "n dvd 400" for n :: int
      using that by (metis mod_add_left_eq mod_mod_cancel)
    then show ?thesis
      by (simp add: long_year_def)
  qed
  define doy where "doy = days_before_month ?mp + d - 1"
  have day: "d \<le> days_before_month (?mp + 1) - days_before_month ?mp"
    "doy \<le> 364 + (if long_year ?e then 1 else 0)" "0 \<le> doy"
    using months [OF mp] d days_in_month_eq [OF m, of y] m unfolding long doy_def
    by (auto simp: days_before_month_def march_month_def march_year_def split: if_splits)
  define doe where "doe = days_before_year ?e + doy"
  note year = year_of_day [of ?e doy doe, OF _ _ day(3,2) doe_def]
  have z: "days_of_civil y m d + 719468 = ?y div 400 * 146097 + doe"
    unfolding days_of_civil_eq era_days doe_def doy_def by simp
  have era: "(days_of_civil y m d + 719468) div 146097 = ?y div 400"
    "(days_of_civil y m d + 719468) mod 146097 = doe"
    using year(2,3) unfolding z by simp_all
  have yoe: "(doe - doe div 1460 + doe div 36524 - doe div 146096) div 365 = ?e"
    by (rule year(1)) simp_all
  have month: "(5 * doy + 2) div 153 = ?mp"
    unfolding doy_def by (rule month_of_day [OF mp d(1) day(1)])
  have whole: "?e + ?y div 400 * 400 = ?y"
    using mult_div_mod_eq [of 400 ?y] by linarith
  have day_of_year: "doe - (365 * ?e + ?e div 4 - ?e div 100) = doy"
    unfolding doe_def days_before_year_def by linarith
  have day_of_month: "doy - (153 * ?mp + 2) div 5 + 1 = d"
    unfolding doy_def days_before_month_def by linarith
  show ?thesis
    unfolding civil_of_days_def era yoe Let_def day_of_year month day_of_month whole
    using m by (auto simp: march_month_def march_year_def)
qed

subsection \<open>Fields of fixed width\<close>

lemma length_show_nat:
  assumes "0 \<le> n" "n < 10 ^ k" "0 < k"
  shows "length (show_nat n) \<le> k"
  using assms
proof (induction n arbitrary: k rule: show_nat.induct)
  case (1 n)
  show ?case
  proof (cases "n < 10")
    case True
    then show ?thesis using "1.prems" by (simp add: show_nat.simps [of n])
  next
    case False
    then obtain j where j: "k = Suc j" "0 < j"
      using "1.prems" by (cases k; cases "k - 1") auto
    then have "n div 10 < 10 ^ j"
      using "1.prems"(2) by (simp add: div_less_iff_less_mult)
    then show ?thesis
      using "1.IH" [OF False, of j] "1.prems"(1) j False
      by (simp add: show_nat.simps [of n] pos_imp_zdiv_nonneg_iff)
  qed
qed

lemma digits_value_append_zeros: "digits_value 10 (replicate j CHR ''0'' @ s) = digits_value 10 s"
proof (induction j)
  case (Suc j)
  have "digits_value 10 (CHR ''0'' # r) = digits_value 10 r" for r
    by (simp add: digits_value_def digit_value_def is_digit_def code_def)
  then show ?case using Suc by simp
qed simp

lemma pad:
  assumes "0 \<le> n" "n < 10 ^ k" "0 < k"
  shows "length (pad k n) = k" "list_all is_digit (pad k n)" "digits_value 10 (pad k n) = n"
  using length_show_nat [OF assms] show_nat_digits [OF assms(1)] assms(1)
  by (auto simp: pad_def Let_def digits_value_append_zeros digits_value_show_nat list_all_iff is_digit_def code_def)

lemma parse_iso_fields:
  assumes "length a = 4" "length b = 2" "length c = 2" "length d = 2" "length e = 2" "length f = 2" "length g = 3"
    and "list_all is_digit (a @ b @ c @ d @ e @ f @ g)"
  shows "parse_iso (a @ ''-'' @ b @ ''-'' @ c @ ''T'' @ d @ '':'' @ e @ '':'' @ f @ ''.'' @ g @ ''Z'') =
    (let v = digits_value 10 in
     if 1 \<le> v b \<and> v b \<le> 12 \<and> 1 \<le> v c \<and> v c \<le> days_in_month (v a) (v b) \<and> v d \<le> 23 \<and> v e \<le> 59 \<and> v f \<le> 59
     then Some (days_of_civil (v a) (v b) (v c) * 86400000 + v d * 3600000 + v e * 60000 + v f * 1000 + v g)
     else None)"
proof -
  obtain a0 a1 a2 a3 b0 b1 c0 c1 d0 d1 e0 e1 f0 f1 g0 g1 g2 where
    "a = [a0, a1, a2, a3]" "b = [b0, b1]" "c = [c0, c1]" "d = [d0, d1]" "e = [e0, e1]" "f = [f0, f1]" "g = [g0, g1, g2]"
    using assms(1-7) by (auto simp: numeral_eq_Suc length_Suc_conv)
  then show ?thesis
    using assms(8) by (simp add: parse_iso_def Let_def)
qed

lemma digits_value_nonneg: "0 \<le> digits_value 10 s"
proof (induction s rule: rev_induct)
  case (snoc c s)
  then show ?case
    by (auto simp: digits_value_snoc digit_value_def is_digit_def split: option.splits)
qed (simp add: digits_value_def)

lemma digits_value_less: "list_all is_digit s \<Longrightarrow> digits_value 10 s < 10 ^ length s"
proof (induction s rule: rev_induct)
  case (snoc c s)
  moreover have "(case digit_value c of None \<Rightarrow> 0 | Some v \<Rightarrow> v) \<le> 9" if "is_digit c"
    using that by (auto simp: digit_value_def is_digit_def split: option.splits)
  ultimately show ?case
    by (auto simp: digits_value_snoc)
qed (simp add: digits_value_def)

lemma if_Some: "(if c then Some x else None) = Some y \<longleftrightarrow> c \<and> y = x"
  by auto

lemma parse_iso_parts:
  assumes "parse_iso s = Some t"
  shows "\<exists>y m d h mi sec ms. 0 \<le> y \<and> y < 10000 \<and> 1 \<le> m \<and> m \<le> 12 \<and> 1 \<le> d \<and> d \<le> days_in_month y m \<and>
    0 \<le> h \<and> h \<le> 23 \<and> 0 \<le> mi \<and> mi \<le> 59 \<and> 0 \<le> sec \<and> sec \<le> 59 \<and> 0 \<le> ms \<and> ms < 1000 \<and>
    t = days_of_civil y m d * 86400000 + h * 3600000 + mi * 60000 + sec * 1000 + ms"
proof -
  let ?num = "\<lambda>i k. digits_value 10 (take k (drop i s))"
  have len: "length s = 24"
    and digits: "list_all (\<lambda>i. is_digit (s ! i)) [0, 1, 2, 3, 5, 6, 8, 9, 11, 12, 14, 15, 17, 18, 20, 21, 22]"
    and bounds: "1 \<le> ?num 5 2" "?num 5 2 \<le> 12" "1 \<le> ?num 8 2" "?num 8 2 \<le> days_in_month (?num 0 4) (?num 5 2)"
      "?num 11 2 \<le> 23" "?num 14 2 \<le> 59" "?num 17 2 \<le> 59"
    and t: "t = days_of_civil (?num 0 4) (?num 5 2) (?num 8 2) * 86400000 + ?num 11 2 * 3600000 +
      ?num 14 2 * 60000 + ?num 17 2 * 1000 + ?num 20 3"
    using assms unfolding parse_iso_def Let_def if_Some by - ((elim conjE, assumption)+)
  have field: "take k (drop i s) = map (\<lambda>j. s ! (i + j)) [0..<k]" if "i + k \<le> 24" for i k
    using that len by (auto intro: nth_equalityI)
  have "list_all is_digit (take 4 (drop 0 s))" "list_all is_digit (take 3 (drop 20 s))"
    using digits by (simp_all only: field) (simp_all add: upt_rec numeral_eq_Suc)
  then have "?num 0 4 < 10000" "?num 20 3 < 1000"
    using digits_value_less [of "take 4 (drop 0 s)"] digits_value_less [of "take 3 (drop 20 s)"] len
    by simp_all
  then show ?thesis
    using bounds t digits_value_nonneg by blast
qed

text \<open>A date read from the ISO form is printed in that form again and read as the same date.\<close>

theorem iso_round_trip:
  assumes "parse_iso s = Some t"
  shows "parse_iso (iso_string t) = Some t"
proof -
  obtain y m d h mi sec ms where y: "0 \<le> y" "y < 10000" and m: "1 \<le> m" "m \<le> 12"
    and d: "1 \<le> d" "d \<le> days_in_month y m" and h: "0 \<le> h" "h \<le> 23" and mi: "0 \<le> mi" "mi \<le> 59"
    and sec: "0 \<le> sec" "sec \<le> 59" and ms: "0 \<le> ms" "ms < 1000"
    and t: "t = days_of_civil y m d * 86400000 + h * 3600000 + mi * 60000 + sec * 1000 + ms"
    using parse_iso_parts [OF assms] by blast
  have day: "t div 86400000 = days_of_civil y m d"
    using h mi sec ms unfolding t by (intro int_div_eqI) linarith+
  define r where "r = h * 3600000 + mi * 60000 + sec * 1000 + ms"
  have rest: "t mod 86400000 = r"
    using mult_div_mod_eq [of 86400000 t] unfolding day r_def by (simp add: t)
  have hours: "r div 3600000 = h" and minutes: "r div 60000 mod 60 = mi"
    and seconds: "r div 1000 mod 60 = sec" and millis: "r mod 1000 = ms"
  proof -
    show "r div 3600000 = h"
      using mi sec ms unfolding r_def by (intro int_div_eqI) linarith+
    have "r div 60000 = h * 60 + mi"
      using sec ms unfolding r_def by (intro int_div_eqI) (simp_all add: distrib_left)
    then show "r div 60000 mod 60 = mi"
      using mi by simp
    have thousands: "r div 1000 = (h * 60 + mi) * 60 + sec"
      using ms unfolding r_def by (intro int_div_eqI) (simp_all add: distrib_left)
    then show "r div 1000 mod 60 = sec"
      using sec by (simp only: thousands mod_mult_self3) simp
    have "r = (h * 3600 + mi * 60 + sec) * 1000 + ms"
      by (simp add: r_def ring_distribs)
    then show "r mod 1000 = ms"
      using ms by (simp only: mod_mult_self3) simp
  qed
  have "d < 100"
    using d days_in_month_eq [OF m, of y] months [of "march_month m"] m
    by (auto simp: march_month_def days_before_month_def split: if_splits)
  then have widths: "y < 10 ^ 4" "m < 10 ^ 2" "d < 10 ^ 2" "h < 10 ^ 2" "mi < 10 ^ 2" "sec < 10 ^ 2" "ms < 10 ^ 3"
    using y m h mi sec ms by simp_all
  have text_eq: "iso_string t = pad 4 y @ ''-'' @ pad 2 m @ ''-'' @ pad 2 d @ ''T'' @ pad 2 h @ '':'' @
      pad 2 mi @ '':'' @ pad 2 sec @ ''.'' @ pad 3 ms @ ''Z''"
    unfolding iso_string_def Let_def day rest civil_of_days_of_civil [OF m d] hours minutes seconds millis
    using y by (simp add: iso_year_def)
  note fields = pad [OF y(1) widths(1)] pad [OF _ widths(2)] pad [OF _ widths(3)] pad [OF h(1) widths(4)]
    pad [OF mi(1) widths(5)] pad [OF sec(1) widths(6)] pad [OF ms(1) widths(7)]
  show ?thesis
    unfolding text_eq using fields m d h mi sec ms
    by (subst parse_iso_fields) (simp_all add: t Let_def)
qed

end
