(* ===== verification/LifecycleRoundTrip.thy ===== *)
theory LifecycleRoundTrip
  imports ClientLifecycleContract IsoDates
begin

section \<open>An attachment that is encoded is read back\<close>

text \<open>
  Both sides of \<^verbatim>\<open>clientLifecycleContract.ts\<close> together: what the encoder writes, the parser
  reads as the very attachment the encoder reported. A record goes through \<open>sanitizeRecord\<close> twice, so
  this rests on sanitizing being idempotent, on dates and numbers being read back as they were
  printed, and on the laws of the URL parser on the origins it gives out.
\<close>

subsection \<open>Dates\<close>

text \<open>What other forms of dates give is a parameter; it is enough that those dates are read back.\<close>

definition other_dates_read_back :: "(string \<Rightarrow> int option) \<Rightarrow> bool" where
  "other_dates_read_back od \<longleftrightarrow> (\<forall>s t. od s = Some t \<longrightarrow> parse_date od (iso_string t) = Some t)"

lemma dates_read_back: "other_dates_read_back od \<Longrightarrow> dates_read_back od"
  using iso_round_trip
  by (fastforce simp: dates_read_back_def other_dates_read_back_def parse_date_def split: option.splits)

subsection \<open>Values that JSON keeps\<close>

text \<open>Every number in the value that is not an integer is known by the text JSON prints for it.\<close>

fun canonical :: "js \<Rightarrow> bool"
and canonical_elements :: "js list \<Rightarrow> bool"
and canonical_members :: "(string \<times> js) list \<Rightarrow> bool" where
  "canonical (JReal s) = plain (JReal s)"
| "canonical (JArr vs) = canonical_elements vs"
| "canonical (JObj ps) = canonical_members ps"
| "canonical (JError m ps) = canonical_members ps"
| "canonical JNull = True"
| "canonical JUndefined = True"
| "canonical (JBool b) = True"
| "canonical (JInt n) = True"
| "canonical (JStr s) = True"
| "canonical (JDate d) = True"
| "canonical_elements [] = True"
| "canonical_elements (v # vs) = (canonical v \<and> canonical_elements vs)"
| "canonical_members [] = True"
| "canonical_members ((k, v) # ps) = (canonical v \<and> canonical_members ps)"

lemma canonical_members_get: "canonical_members ps \<Longrightarrow> map_of ps k = Some v \<Longrightarrow> canonical v"
  by (induction ps) (auto split: if_splits)

lemma canonical_field: "canonical v \<Longrightarrow> as_record v = Some r \<Longrightarrow> canonical (field_of r k)"
  using canonical_members_get
  by (cases v) (auto simp: as_record_def field_of_def split: option.splits if_splits)

text \<open>A reader that gives only values JSON keeps.\<close>

definition prints :: "reader \<Rightarrow> bool" where
  "prints f \<longleftrightarrow> (\<forall>v x. canonical v \<longrightarrow> f v = Some x \<longrightarrow> plain x)"

lemma printsD: "prints f \<Longrightarrow> canonical v \<Longrightarrow> f v = Some x \<Longrightarrow> plain x"
  by (simp add: prints_def)

lemma prints_text: "prints (text_reader f)"
  by (auto simp: prints_def text_reader_def)

lemma prints_flag: "prints flag_reader"
  by (auto simp: prints_def flag_reader_def)

lemma prints_number: "prints sanitize_lifecycle_non_negative_number"
proof -
  have "plain v" if v: "canonical v" "sanitize_lifecycle_non_negative_number v = Some x" for v x
  proof (cases v)
    case (JInt n)
    then have "0 \<le> rat_of_int n" "rat_of_int n \<le> rat_of_int 9007199254740991"
      using v(2) by (auto simp: sanitize_lifecycle_non_negative_number_def number_value_def
          max_safe_integer_def split: if_splits)
    then show ?thesis
      unfolding JInt by (simp only: of_int_le_iff of_int_0_le_iff) simp
  qed (use v in \<open>auto simp: sanitize_lifecycle_non_negative_number_def number_value_def\<close>)
  then show ?thesis
    using sanitize_number_again by (auto simp: prints_def)
qed

lemma plain_fields:
  assumes "distinct (map fst readers)" "\<forall>(k, f) \<in> set readers. prints f" "\<forall>k. canonical (field_of r k)"
  shows "plain (JObj (fields_of readers r))"
proof -
  have "plain x" if x: "(k, x) \<in> set (fields_of readers r)" for k x
  proof -
    obtain f where "(k, f) \<in> set readers" "f (field_of r k) = Some x"
      using x by (auto simp: set_fields_of)
    then show ?thesis
      using assms(2,3) printsD [of f "field_of r k" x] by blast
  qed
  moreover have "distinct (map fst (fields_of readers r))"
    unfolding fields_of_def by (rule distinct_fields) (simp only: names_of_readers assms(1))
  ultimately show ?thesis
    by (auto simp: plain_members_all list_all_iff)
qed

lemma prints_object:
  assumes "distinct (map fst readers)" "\<forall>(k, f) \<in> set readers. prints f"
  shows "prints (object_reader readers)"
  using plain_fields [OF assms] canonical_field
  by (auto simp: prints_def object_reader_def split: option.splits if_splits)

lemma prints_timestamp: "prints (timestamp_reader od)"
  using printsD [OF prints_number canonical_field]
  by (fastforce simp: prints_def timestamp_reader_def sanitize_timestamp_def opt_field_def split: option.splits)

lemma prints_objects:
  "prints (object_reader (event_readers od))" "prints (object_reader (failure_readers od))"
  "prints (object_reader connection_readers)" "prints (object_reader bytes_readers)"
proof -
  note simple = prints_timestamp prints_number prints_text prints_flag
  have endpoint: "prints (object_reader endpoint_readers)"
    by (rule prints_object) (simp_all add: endpoint_readers_def simple)
  show "prints (object_reader (event_readers od))" "prints (object_reader (failure_readers od))"
    "prints (object_reader bytes_readers)"
    by (rule prints_object; simp add: reader_tables simple)+
  show "prints (object_reader connection_readers)"
    by (rule prints_object) (simp_all add: connection_readers_def simple endpoint)
qed

lemma prints_records: "\<forall>(k, f) \<in> set (record_readers new_url od). prints f"
  by (simp add: record_readers_def required_readers_def optional_readers_def origin_reader_def
      prints_objects prints_text prints_number)

lemma sanitized_plain:
  assumes "canonical v" "sanitize_record new_url od v = Some x"
  shows "plain (JObj x)"
  using assms(2) canonical_field [OF assms(1)] plain_fields [OF record_names prints_records]
  by (auto simp: sanitize_record_eq split: option.splits if_splits)

subsection \<open>The round trip\<close>

text \<open>The law of the URL parser on the origin it gives for a web URL, which is such a URL with
  that origin, and that the origin is no longer than the limit.\<close>

definition origins_read_back :: "(string \<Rightarrow> url_parts option) \<Rightarrow> bool" where
  "origins_read_back new_url \<longleftrightarrow>
     (\<forall>s u. new_url s = Some u \<and> protocol u \<in> {''http:'', ''https:''} \<longrightarrow>
        (\<exists>w. new_url (origin u) = Some w \<and> protocol w \<in> {''http:'', ''https:''} \<and> origin w = origin u))"

definition short_origin :: "(string \<Rightarrow> url_parts option) \<Rightarrow> js \<Rightarrow> bool" where
  "short_origin new_url v =
     (case as_record v of
        None \<Rightarrow> True
      | Some r \<Rightarrow>
          (case sanitize_lifecycle_origin new_url (field_of r ''origin'') of
             None \<Rightarrow> True
           | Some s \<Rightarrow> length s \<le> client_lifecycle_identifier_cap))"

lemma origin_again:
  assumes "origins_read_back new_url" "short_origin new_url v" "sanitize_record new_url od v = Some x"
  shows "origin_reader new_url (field_of x ''origin'') = Some (field_of x ''origin'')"
proof -
  obtain r where r: "as_record v = Some r" "all_read (required_readers new_url od) r"
    "x = fields_of (record_readers new_url od) r"
    using assms(3) by (auto simp: sanitize_record_eq split: option.splits if_splits)
  obtain s where s: "non_empty (sanitize_lifecycle_origin new_url (field_of r ''origin'')) = Some s"
    using r(2) by (auto simp: all_read_def required_readers_def origin_reader_def text_reader_def)
  have "(''origin'', origin_reader new_url) \<in> set (record_readers new_url od)"
    by (simp add: record_readers_def required_readers_def)
  then have x: "field_of x ''origin'' = JStr s"
    using field_of_fields_of [OF record_names] s by (simp add: r(3) origin_reader_def text_reader_def)
  have s': "sanitize_lifecycle_origin new_url (field_of r ''origin'') = Some s" "s \<noteq> []"
    using s by (simp_all add: non_empty_Some)
  then obtain t u where "new_url t = Some u" "protocol u \<in> {''http:'', ''https:''}" "origin u = s"
    by (auto simp: sanitize_lifecycle_origin_def split: option.splits if_splits)
  then obtain w where "new_url s = Some w" "protocol w \<in> {''http:'', ''https:''}" "origin w = s"
    using assms(1) by (auto simp: origins_read_back_def)
  moreover have "length s \<le> client_lifecycle_identifier_cap"
    using assms(2) r(1) s'(1) by (simp add: short_origin_def)
  ultimately have "sanitize_lifecycle_origin new_url (JStr s) = Some s"
    using s'(2) by (auto simp: sanitize_lifecycle_origin_def)
  then show ?thesis
    using s'(2) by (simp add: x origin_reader_def text_reader_def)
qed

lemma filter_some_again:
  assumes "\<forall>x \<in> set xs. f (e x) = Some x"
  shows "filter_some (map f (map e xs)) = xs"
  using assms by (induction xs) auto

lemma parse_printed_attachment:
  assumes "within_limits e" "\<forall>x \<in> set (attachment_records (encoded e)). plain (JObj x)"
    and "\<forall>x \<in> set (attachment_records (encoded e)). sanitize_record new_url od (JObj x) = Some x"
  shows "parse_attachment new_url od (encoded_body e) = Some (encoded e)"
proof -
  let ?a = "encoded e"
  have "plain (attachment_json ?a)"
    using assms(2) by (simp add: attachment_json_def schema_version_def plain_elements_all list_all_iff)
  then have "parse_json (encoded_body e) = Some (attachment_json ?a)"
    using parse_stringify assms(1) by (fastforce simp: within_limits_def json_text_def)
  moreover have "take maximum_records (map JObj (attachment_records ?a)) = map JObj (attachment_records ?a)"
    using assms(1) by (simp add: within_limits_def)
  moreover have "filter_some (map (sanitize_record new_url od) (map JObj (attachment_records ?a))) = attachment_records ?a"
    using assms(3) by (rule filter_some_again)
  moreover have "\<not> maximum_bytes < utf8_length (encoded_body e)" "length (attachment_records ?a) \<le> maximum_records"
    using assms(1) unfolding within_limits_def not_less by blast+
  ultimately show ?thesis
    by (simp add: parse_attachment_def attachment_json_def field_of_def as_boolean_def number_value_def
        schema_version_def Let_def del: map_map)
qed

text \<open>C7: What the encoder writes is read back as the attachment the encoder reports, record for
  record, when the numbers given are ones JSON can print, dates in other forms are dates that are
  read back, and the origins obey the URL parser and stay within their limit.\<close>

theorem attachment_round_trip:
  assumes "origins_read_back new_url" "other_dates_read_back od"
    and "list_all (short_origin new_url) rs" "list_all canonical rs"
  shows "parse_attachment new_url od (encoded_body (encode_attachment new_url od rs trunc)) =
    Some (encoded (encode_attachment new_url od rs trunc))"
proof (rule parse_printed_attachment)
  let ?ks = "attachment_records (encoded (encode_attachment new_url od rs trunc))"
  note limits = attachment_limits [of new_url od rs trunc]
  show "within_limits (encode_attachment new_url od rs trunc)"
    using limits by blast
  have source: "\<exists>v \<in> set rs. sanitize_record new_url od v = Some x" if "x \<in> set ?ks" for x
    using encoded_from [OF that] .
  show "\<forall>x \<in> set ?ks. plain (JObj x)"
    using source sanitized_plain assms(4) unfolding list_all_iff by blast
  show "\<forall>x \<in> set ?ks. sanitize_record new_url od (JObj x) = Some x"
  proof
    fix x
    assume "x \<in> set ?ks"
    then obtain v where v: "v \<in> set rs" "sanitize_record new_url od v = Some x"
      using source by blast
    have "short_origin new_url v"
      using assms(3) v(1) by (simp add: list_all_iff)
    then show "sanitize_record new_url od (JObj x) = Some x"
      by (intro sanitize_record_again [OF dates_read_back [OF assms(2)] v(2)] origin_again [OF assms(1) _ v(2)])
  qed
qed

lemma example_url_origins: "origins_read_back example_url"
  by (auto simp: origins_read_back_def example_url_def split: if_splits)

theorem attachment_round_trip_witness:
  "parse_attachment example_url (\<lambda>s. None) (encoded_body (encode_attachment example_url (\<lambda>s. None) [example_record] False)) =
    Some \<lparr>attachment_truncated = False, attachment_records = [example_sanitized]\<rparr>"
proof -
  have "short_origin example_url example_record" "canonical example_record"
    by (simp_all add: short_origin_def example_record_def field_of_def example_values
        client_lifecycle_identifier_cap_def)
  moreover have "encoded (encode_attachment example_url (\<lambda>s. None) [example_record] False) =
      \<lparr>attachment_truncated = False, attachment_records = [example_sanitized]\<rparr>"
    using example_encoded by simp
  ultimately show ?thesis
    using attachment_round_trip [of example_url "\<lambda>s. None" "[example_record]" False] example_url_origins
    by (simp add: other_dates_read_back_def)
qed

end
