(* ===== verification/ClientLifecycle.thy ===== *)
theory ClientLifecycle
  imports ClientLifecycleContract
begin

section \<open>Lifecycles attached to requests\<close>

text \<open>
  \<^verbatim>\<open>playwright-reporter-llm/src/lib/internal/clientLifecycle.ts\<close>: the lifecycle attachments of
  a test are read in the current and in the older form, and each record is joined to the request
  it describes.

  An attachment is its name, its body if it has one, and its path; the contents of files are a
  parameter, \<open>None\<close> where reading throws. A lifecycle is the object the code builds, with its
  properties in the order they are set. The instances of the report are objects the join mutates:
  a candidate refers to one by its position in the list.
\<close>

definition attachment_names :: "string list" where
  "attachment_names = [''browser-network-lifecycle'', ''browser-network-lifecycle.json'']"

text \<open>\<open>requestOffsetMs\<close> may be absent, and is \<open>NaN\<close>, here \<open>Some None\<close>, when a date is not read.\<close>

record parsed_lifecycle =
  lifecycle :: js_object
  request_offset :: "rat option option"

record parsed_attachment =
  parsed_records :: "parsed_lifecycle list"
  parsed_truncated :: bool

record attachment =
  attachment_name :: string
  attachment_body :: "string option"
  attachment_path :: "string option"

subsection \<open>Reading records\<close>

text \<open>\<open>a?.b\<close> on a value, and a property that is set only when its value is defined.\<close>

definition member_of :: "js \<Rightarrow> string \<Rightarrow> js" where
  "member_of v k = (case as_record v of None \<Rightarrow> JUndefined | Some r \<Rightarrow> field_of r k)"

definition copy_defined :: "string \<Rightarrow> js \<Rightarrow> js_object" where
  "copy_defined k v = (if v = JUndefined then [] else [(k, v)])"

definition copy_shared_event :: "js \<Rightarrow> string \<Rightarrow> string \<Rightarrow> js_object" where
  "copy_shared_event event timestamp_field monotonic_field =
     (let cdp = member_of event ''cdp'';
          timestamp = (if cdp = JUndefined \<or> cdp = JNull then member_of event ''playwright'' else cdp)
      in if timestamp = JUndefined \<or> timestamp = JNull then []
         else (timestamp_field, member_of timestamp ''utc'') #
              copy_defined monotonic_field (member_of timestamp ''monotonicMilliseconds''))"

definition copy_shared_identifiers :: "js_object \<Rightarrow> js_object" where
  "copy_shared_identifiers r =
     concat (map (\<lambda>k. copy_defined k (field_of r k))
       [''playwrightRequestKey'', ''cdpRequestId'', ''loaderId'', ''traceId'', ''spanId'',
        ''apiGatewayRequestId'', ''protocol''])"

definition copy_shared_connection :: "js_object \<Rightarrow> js_object" where
  "copy_shared_connection r =
     (let c = field_of r ''connection''; e = member_of c ''remoteEndpoint'' in
      copy_defined ''connectionId'' (member_of c ''id'') @
      copy_defined ''connectionReused'' (member_of c ''reused'') @
      copy_defined ''remoteIPAddress'' (member_of e ''ipAddress'') @
      copy_defined ''remotePort'' (member_of e ''port''))"

definition copy_shared_encoded_bytes :: "js_object \<Rightarrow> js_object" where
  "copy_shared_encoded_bytes r =
     (let b = field_of r ''encodedBytes'' in
      copy_defined ''dataEncodedDataLength'' (member_of b ''data'') @
      copy_defined ''responseEncodedDataLength'' (member_of b ''responseHeaders'') @
      copy_defined ''completedEncodedDataLength'' (member_of b ''total''))"

definition copy_shared_failure :: "js_object \<Rightarrow> js_object" where
  "copy_shared_failure r =
     (let f = field_of r ''loadingFailed'' in
      concat (map (\<lambda>k. copy_defined k (member_of f k))
        [''errorText'', ''canceled'', ''blockedReason'', ''corsErrorStatus'']))"

definition has_field :: "js_object \<Rightarrow> string \<Rightarrow> js" where
  "has_field r k = JBool (field_of r k \<noteq> JUndefined)"

text \<open>\<open>Date.parse(requestStartedAt) - attemptStartTimeMs\<close> when the property is set.\<close>

definition offset_of_start :: "(string \<Rightarrow> int option) \<Rightarrow> js_object \<Rightarrow> rat \<Rightarrow> rat option option" where
  "offset_of_start other_date l start =
     (let v = field_of l ''requestStartedAt'' in
      if v = JUndefined then None
      else Some (map_option (\<lambda>t. of_int t - start) (Option.bind (as_string v) (parse_date other_date))))"

definition shared_lifecycle :: "js_object \<Rightarrow> js_object" where
  "shared_lifecycle r =
     [(''method'', field_of r ''method''), (''origin'', field_of r ''origin''),
      (''pathTemplate'', field_of r ''pathTemplate''), (''classification'', field_of r ''classification''),
      (''requestStarted'', has_field r ''requestStarted''),
      (''responseHeadersReceived'', has_field r ''responseReceived''),
      (''loadingFinished'', has_field r ''loadingFinished''), (''loadingFailed'', has_field r ''loadingFailed''),
      (''pendingAtTimeout'',
         JBool (field_of r ''classification'' \<in> {JStr ''no_response_headers'', JStr ''headers_without_body_completion''}))] @
     copy_shared_event (field_of r ''requestStarted'') ''requestStartedAt'' ''requestStartedMonotonicMs'' @
     copy_shared_event (field_of r ''responseReceived'') ''responseHeadersAt'' ''responseHeadersMonotonicMs'' @
     copy_shared_event (field_of r ''loadingFinished'') ''completedAt'' ''completedMonotonicMs'' @
     copy_shared_event (field_of r ''loadingFailed'') ''failedAt'' ''failedMonotonicMs'' @
     copy_shared_identifiers r @ copy_shared_connection r @ copy_shared_encoded_bytes r @ copy_shared_failure r"

definition parse_shared_lifecycle_record ::
  "(string \<Rightarrow> int option) \<Rightarrow> rat \<Rightarrow> js_object \<Rightarrow> parsed_lifecycle" where
  "parse_shared_lifecycle_record other_date start r =
     (let l = shared_lifecycle r in \<lparr>lifecycle = l, request_offset = offset_of_start other_date l start\<rparr>)"

subsection \<open>Reading records of the older form\<close>

definition copy_timestamp :: "(string \<Rightarrow> int option) \<Rightarrow> js_object \<Rightarrow> string \<Rightarrow> js_object" where
  "copy_timestamp other_date r k =
     (case non_empty (as_string (field_of r k)) of
        None \<Rightarrow> []
      | Some s \<Rightarrow> (case parse_date other_date s of None \<Rightarrow> [] | Some t \<Rightarrow> [(k, JStr (iso_string t))]))"

definition copy_boolean :: "js_object \<Rightarrow> string \<Rightarrow> js_object" where
  "copy_boolean r k = opt_field k (map_option JBool (as_boolean (field_of r k)))"

definition copy_lifecycle_event_fields :: "(string \<Rightarrow> int option) \<Rightarrow> js_object \<Rightarrow> js_object" where
  "copy_lifecycle_event_fields other_date r =
     concat (map (copy_timestamp other_date r)
       [''requestStartedAt'', ''responseHeadersAt'', ''completedAt'', ''failedAt'']) @
     concat (map (copy_number r)
       [''requestStartedMonotonicMs'', ''responseHeadersMonotonicMs'', ''completedMonotonicMs'', ''failedMonotonicMs'']) @
     concat (map (copy_boolean r)
       [''requestStarted'', ''responseHeadersReceived'', ''loadingFinished'', ''loadingFailed'', ''pendingAtTimeout''])"

definition copy_lifecycle_connection_fields :: "js_object \<Rightarrow> js_object" where
  "copy_lifecycle_connection_fields r =
     concat (map (copy_number r)
       [''connectionId'', ''remotePort'', ''responseEncodedDataLength'', ''completedEncodedDataLength'']) @
     copy_boolean r ''connectionReused'' @
     opt_text ''protocol'' (sanitize_lifecycle_protocol (field_of r ''protocol'')) @
     opt_text ''remoteIPAddress'' (sanitize_lifecycle_ip_address (field_of r ''remoteIPAddress''))"

definition copy_lifecycle_correlation_fields :: "js_object \<Rightarrow> js_object" where
  "copy_lifecycle_correlation_fields r =
     concat (map (copy_safe_identifier r) [''playwrightRequestKey'', ''cdpRequestId'', ''loaderId'', ''apiGatewayRequestId'']) @
     opt_text ''traceId'' (sanitize_lifecycle_trace_id (field_of r ''traceId'')) @
     opt_text ''spanId'' (sanitize_lifecycle_span_id (field_of r ''spanId''))"

definition copy_lifecycle_failure_fields :: "js_object \<Rightarrow> js_object" where
  "copy_lifecycle_failure_fields r =
     copy_boolean r ''canceled'' @ copy_safe_identifier r ''blockedReason'' @
     copy_safe_identifier r ''corsErrorStatus'' @
     opt_text ''errorText'' (sanitize_lifecycle_network_error (field_of r ''errorText''))"

definition parse_lifecycle_record ::
  "(string \<Rightarrow> url_parts option) \<Rightarrow> (string \<Rightarrow> int option) \<Rightarrow> rat \<Rightarrow> js \<Rightarrow> parsed_lifecycle option" where
  "parse_lifecycle_record new_url other_date start v =
     (case as_record v of
        None \<Rightarrow> None
      | Some r \<Rightarrow>
          (case (sanitize_lifecycle_method (field_of r ''method''),
                 non_empty (sanitize_lifecycle_origin new_url (field_of r ''origin'')),
                 sanitize_lifecycle_path_template (field_of r ''pathTemplate'')) of
             (Some m, Some org, Some p) \<Rightarrow>
               let l = [(''method'', JStr m), (''origin'', JStr org), (''pathTemplate'', JStr p)] @
                       copy_lifecycle_event_fields other_date r @ copy_lifecycle_connection_fields r @
                       copy_lifecycle_correlation_fields r @ copy_lifecycle_failure_fields r @
                       opt_text ''classification'' (sanitize_lifecycle_classification (field_of r ''classification''))
               in Some \<lparr>lifecycle = l, request_offset = offset_of_start other_date l start\<rparr>
           | _ \<Rightarrow> None))"

subsection \<open>Reading attachments\<close>

definition parse_legacy_attachment ::
  "(string \<Rightarrow> url_parts option) \<Rightarrow> (string \<Rightarrow> int option) \<Rightarrow> rat \<Rightarrow> string \<Rightarrow> parsed_attachment option" where
  "parse_legacy_attachment new_url other_date start body =
     (case Option.bind (parse_json body) as_record of
        None \<Rightarrow> None
      | Some a \<Rightarrow>
          (case field_of a ''records'' of
             JArr rs \<Rightarrow>
               if number_value (field_of a ''schemaVersion'') \<noteq> Some 1 then None
               else Some
                 \<lparr>parsed_records =
                    filter_some (map (parse_lifecycle_record new_url other_date start) (take maximum_records rs)),
                  parsed_truncated =
                    (as_boolean (field_of a ''truncated'') = Some True \<or> maximum_records < length rs)\<rparr>
           | _ \<Rightarrow> None))"

definition parse_any_attachment ::
  "(string \<Rightarrow> url_parts option) \<Rightarrow> (string \<Rightarrow> int option) \<Rightarrow> rat \<Rightarrow> string \<Rightarrow> parsed_attachment option" where
  "parse_any_attachment new_url other_date start body =
     (case parse_attachment new_url other_date body of
        Some a \<Rightarrow>
          Some \<lparr>parsed_records = map (parse_shared_lifecycle_record other_date start) (attachment_records a),
                parsed_truncated = attachment_truncated a\<rparr>
      | None \<Rightarrow> parse_legacy_attachment new_url other_date start body)"

definition read_bounded_attachment :: "(string \<Rightarrow> string option) \<Rightarrow> attachment \<Rightarrow> string option" where
  "read_bounded_attachment read_file a =
     (case attachment_body a of
        Some body \<Rightarrow> if maximum_bytes < utf8_length body then None else Some body
      | None \<Rightarrow>
          (case non_empty (attachment_path a) of
             None \<Rightarrow> None
           | Some path \<Rightarrow>
               (case read_file path of
                  None \<Rightarrow> None
                | Some body \<Rightarrow> if maximum_bytes < utf8_length body then None else Some body)))"

text \<open>The loop over the records of one attachment: the cap stops it and marks the result.\<close>

fun collect_records :: "parsed_lifecycle list \<Rightarrow> parsed_lifecycle list \<Rightarrow> bool \<Rightarrow> parsed_lifecycle list \<times> bool" where
  "collect_records acc [] trunc = (acc, trunc)"
| "collect_records acc (r # rs) trunc =
     (if maximum_records \<le> length acc then (acc, True) else collect_records (acc @ [r]) rs trunc)"

definition collect_attachment ::
  "(string \<Rightarrow> string option) \<Rightarrow> (string \<Rightarrow> url_parts option) \<Rightarrow> (string \<Rightarrow> int option) \<Rightarrow> rat \<Rightarrow>
   parsed_lifecycle list \<times> bool \<Rightarrow> attachment \<Rightarrow> parsed_lifecycle list \<times> bool" where
  "collect_attachment read_file new_url other_date start st a =
     (if to_lower (attachment_name a) \<notin> set attachment_names then st
      else case Option.bind (read_bounded_attachment read_file a) (parse_any_attachment new_url other_date start) of
             None \<Rightarrow> st
           | Some p \<Rightarrow> collect_records (fst st) (parsed_records p) (snd st \<or> parsed_truncated p))"

definition mark_truncated :: "parsed_lifecycle \<Rightarrow> parsed_lifecycle" where
  "mark_truncated r = r\<lparr>lifecycle := map_set ''truncated'' (JBool True) (lifecycle r)\<rparr>"

definition collect_lifecycles ::
  "(string \<Rightarrow> string option) \<Rightarrow> (string \<Rightarrow> url_parts option) \<Rightarrow> (string \<Rightarrow> int option) \<Rightarrow> rat \<Rightarrow>
   attachment list \<Rightarrow> parsed_lifecycle list" where
  "collect_lifecycles read_file new_url other_date start as =
     (let (rs, trunc) = foldl (collect_attachment read_file new_url other_date start) ([], False) as in
      if trunc then map mark_truncated rs else rs)"

subsection \<open>Joining\<close>

record joined_instance = network_instance +
  client_lifecycle :: "js_object option"

record join_candidate =
  candidate_position :: nat
  pathname_segments :: "string list"

definition build_join_key :: "string \<Rightarrow> string \<Rightarrow> string" where
  "build_join_key m org = json_text (JArr [JStr m, JStr org])"

definition add_candidate ::
  "(string \<Rightarrow> url_parts option) \<Rightarrow> (string, join_candidate list) js_map \<Rightarrow> nat \<times> joined_instance \<Rightarrow>
   (string, join_candidate list) js_map" where
  "add_candidate new_url index p =
     (case new_url (inst_url (snd p)) of
        None \<Rightarrow> index
      | Some u \<Rightarrow>
          let key = build_join_key (to_upper (inst_method (snd p))) (origin u);
              c = \<lparr>candidate_position = fst p, pathname_segments = split_char CHR ''/'' (pathname u)\<rparr>
          in map_set key ((case map_get index key of None \<Rightarrow> [] | Some cs \<Rightarrow> cs) @ [c]) index)"

definition build_join_candidate_index ::
  "(string \<Rightarrow> url_parts option) \<Rightarrow> joined_instance list \<Rightarrow> (string, join_candidate list) js_map" where
  "build_join_candidate_index new_url xs = foldl (add_candidate new_url) [] (enumerate 0 xs)"

definition segment_matches :: "string \<Rightarrow> string \<Rightarrow> bool" where
  "segment_matches t s \<longleftrightarrow>
     (if starts_with t '':'' \<or> (starts_with t ''{'' \<and> ends_with t ''}'') then s \<noteq> [] else t = s)"

definition matches_path_template :: "string list \<Rightarrow> string list \<Rightarrow> bool" where
  "matches_path_template ts ss \<longleftrightarrow> length ts = length ss \<and> list_all2 segment_matches ts ss"

text \<open>Whether the offset \<open>a\<close> is nearer to the record's than \<open>b\<close>; nothing is nearer to \<open>NaN\<close>.\<close>

definition nearer :: "rat option \<Rightarrow> rat \<Rightarrow> rat \<Rightarrow> bool" where
  "nearer r a b \<longleftrightarrow> (case r of None \<Rightarrow> False | Some t \<Rightarrow> \<bar>a - t\<bar> < \<bar>b - t\<bar>)"

definition closer_instance :: "joined_instance list \<Rightarrow> rat option \<Rightarrow> nat option \<Rightarrow> nat \<Rightarrow> nat option" where
  "closer_instance xs r closest c =
     (case (closest, inst_offset (xs ! c)) of
        (None, _) \<Rightarrow> Some c
      | (Some k, None) \<Rightarrow> Some k
      | (Some k, Some a) \<Rightarrow>
          (case inst_offset (xs ! k) of
             None \<Rightarrow> Some c
           | Some b \<Rightarrow> if nearer r a b then Some c else Some k))"

definition pick_closest_instance :: "joined_instance list \<Rightarrow> rat option option \<Rightarrow> nat list \<Rightarrow> nat option" where
  "pick_closest_instance xs off cs =
     (case off of
        None \<Rightarrow> (case cs of [] \<Rightarrow> None | c # _ \<Rightarrow> Some c)
      | Some r \<Rightarrow> foldl (closer_instance xs r) None cs)"

definition text_of :: "js_object \<Rightarrow> string \<Rightarrow> string" where
  "text_of l k = (case field_of l k of JStr s \<Rightarrow> s | _ \<Rightarrow> [])"

definition join_candidates ::
  "(string, join_candidate list) js_map \<Rightarrow> joined_instance list \<Rightarrow> string list \<Rightarrow> js_object \<Rightarrow> nat list" where
  "join_candidates index xs taken l =
     (let key = build_join_key (text_of l ''method'') (text_of l ''origin'');
          ts = split_char CHR ''/'' (text_of l ''pathTemplate'')
      in map candidate_position
           (filter (\<lambda>c. inst_id (xs ! candidate_position c) \<notin> set taken \<and> matches_path_template ts (pathname_segments c))
             (case map_get index key of None \<Rightarrow> [] | Some cs \<Rightarrow> cs)))"

definition join_record ::
  "(string, join_candidate list) js_map \<Rightarrow> joined_instance list \<times> string list \<Rightarrow> parsed_lifecycle \<Rightarrow>
   joined_instance list \<times> string list" where
  "join_record index st r =
     (case st of (xs, taken) \<Rightarrow>
        (case pick_closest_instance xs (request_offset r) (join_candidates index xs taken (lifecycle r)) of
           None \<Rightarrow> (xs, taken)
         | Some i \<Rightarrow>
             (xs[i := (xs ! i)\<lparr>client_lifecycle := Some (lifecycle r)\<rparr>], set_add (inst_id (xs ! i)) taken)))"

definition join_client_lifecycles ::
  "(string \<Rightarrow> url_parts option) \<Rightarrow> parsed_lifecycle list \<Rightarrow> joined_instance list \<Rightarrow> joined_instance list" where
  "join_client_lifecycles new_url rs xs =
     fst (foldl (join_record (build_join_candidate_index new_url xs)) (xs, []) rs)"

definition attach_client_lifecycles ::
  "(string \<Rightarrow> string option) \<Rightarrow> (string \<Rightarrow> url_parts option) \<Rightarrow> (string \<Rightarrow> int option) \<Rightarrow> rat \<Rightarrow>
   attachment list \<Rightarrow> joined_instance list \<Rightarrow> joined_instance list" where
  "attach_client_lifecycles read_file new_url other_date start as xs =
     join_client_lifecycles new_url (collect_lifecycles read_file new_url other_date start as) xs"

subsection \<open>The join picks greedily\<close>

text \<open>What the join decides, without its index: a record describes an instance of its method and
  origin whose path fits its template. Records choose in order, each among the instances it describes
  that no earlier record has, and prefer one with an offset, the nearest one, and then the first.\<close>

definition describes :: "(string \<Rightarrow> url_parts option) \<Rightarrow> js_object \<Rightarrow> joined_instance \<Rightarrow> bool" where
  "describes new_url l x \<longleftrightarrow>
     (case new_url (inst_url x) of
        None \<Rightarrow> False
      | Some u \<Rightarrow>
          to_upper (inst_method x) = text_of l ''method'' \<and> origin u = text_of l ''origin'' \<and>
          matches_path_template (split_char CHR ''/'' (text_of l ''pathTemplate'')) (split_char CHR ''/'' (pathname u)))"

definition distance_rank :: "joined_instance \<Rightarrow> rat option option \<Rightarrow> nat \<times> rat" where
  "distance_rank x off =
     (case off of
        None \<Rightarrow> (0, 0)
      | Some r \<Rightarrow>
          (case inst_offset x of
             None \<Rightarrow> (1, 0)
           | Some a \<Rightarrow> (0, case r of None \<Rightarrow> 0 | Some t \<Rightarrow> \<bar>a - t\<bar>)))"

definition free_instances ::
  "(string \<Rightarrow> url_parts option) \<Rightarrow> joined_instance list \<Rightarrow> nat option list \<Rightarrow> js_object \<Rightarrow> nat list" where
  "free_instances new_url xs picks l =
     filter (\<lambda>i. Some i \<notin> set picks \<and> describes new_url l (xs ! i)) [0..<length xs]"

definition best_choice :: "joined_instance list \<Rightarrow> rat option option \<Rightarrow> nat list \<Rightarrow> nat option \<Rightarrow> bool" where
  "best_choice xs off cs choice \<longleftrightarrow>
     (case choice of
        None \<Rightarrow> cs = []
      | Some i \<Rightarrow> i \<in> set cs \<and> list_all (\<lambda>j. (distance_rank (xs ! i) off, i) \<le> (distance_rank (xs ! j) off, j)) cs)"

definition with_lifecycle :: "parsed_lifecycle list \<Rightarrow> nat option list \<Rightarrow> joined_instance list \<Rightarrow> nat \<Rightarrow> joined_instance" where
  "with_lifecycle rs picks xs i =
     (case find_index (\<lambda>p. p = Some i) picks of
        None \<Rightarrow> xs ! i
      | Some k \<Rightarrow> (xs ! i)\<lparr>client_lifecycle := Some (lifecycle (rs ! k))\<rparr>)"

definition greedy_join ::
  "(string \<Rightarrow> url_parts option) \<Rightarrow> joined_instance list \<Rightarrow> parsed_lifecycle list \<Rightarrow> joined_instance list \<Rightarrow>
   nat option list \<Rightarrow> bool" where
  "greedy_join new_url xs rs ys picks \<longleftrightarrow>
     length picks = length rs \<and> ys = map (with_lifecycle rs picks xs) [0..<length xs] \<and>
     list_all (\<lambda>k. best_choice xs (request_offset (rs ! k))
         (free_instances new_url xs (take k picks) (lifecycle (rs ! k))) (picks ! k)) [0..<length rs]"

lemma closer_instance_rank:
  "closer_instance xs r (Some k) c =
     (if distance_rank (xs ! c) (Some r) < distance_rank (xs ! k) (Some r) then Some c else Some k)"
  by (auto simp: closer_instance_def nearer_def distance_rank_def less_prod_def split: option.splits)

lemma best_choice_step:
  assumes "best_choice xs off cs (Some k)" "\<forall>j \<in> set cs. j < c"
  shows "best_choice xs off (cs @ [c])
    (if distance_rank (xs ! c) off < distance_rank (xs ! k) off then Some c else Some k)"
proof -
  let ?d = "\<lambda>i. distance_rank (xs ! i) off"
  have least: "?d k < ?d j \<or> ?d k \<le> ?d j \<and> k \<le> j" if "j \<in> set cs" for j
    using assms that by (auto simp: best_choice_def list_all_iff less_eq_prod_simp)
  have nonempty: "k \<in> set cs"
    using assms(1) by (simp add: best_choice_def)
  show ?thesis
  proof (cases "?d c < ?d k")
    case True
    then have "?d c < ?d j" if "j \<in> set cs" for j
      using least [OF that] by (meson less_le_trans less_imp_le)
    then show ?thesis
      using True by (auto simp: best_choice_def list_all_iff less_eq_prod_simp)
  next
    case False
    then show ?thesis
      using assms nonempty by (auto simp: best_choice_def list_all_iff less_eq_prod_simp)
  qed
qed

lemma pick_closest_best:
  assumes "sorted_wrt (<) cs"
  shows "best_choice xs off cs (pick_closest_instance xs off cs)"
proof (cases off)
  case None
  then show ?thesis
    using assms by (cases cs) (auto simp: pick_closest_instance_def best_choice_def distance_rank_def list_all_iff less_eq_prod_def)
next
  case (Some r)
  have "best_choice xs (Some r) cs (foldl (closer_instance xs r) None cs)"
    using assms
  proof (induction cs rule: rev_induct)
    case (snoc c cs)
    let ?k = "foldl (closer_instance xs r) None cs"
    have IH: "best_choice xs (Some r) cs ?k" and c: "\<forall>j \<in> set cs. j < c"
      using snoc by (simp_all add: sorted_wrt_append)
    show ?case
    proof (cases ?k)
      case None
      then show ?thesis
        using IH by (simp add: best_choice_def closer_instance_def)
    next
      case (Some k)
      then show ?thesis
        using best_choice_step [of xs "Some r" cs k c] IH c by (simp add: closer_instance_rank)
    qed
  qed (simp add: best_choice_def)
  then show ?thesis
    by (simp add: Some pick_closest_instance_def)
qed

lemma join_key_inj: "build_join_key m s = build_join_key m' s' \<longleftrightarrow> m = m' \<and> s = s'"
proof
  assume "build_join_key m s = build_join_key m' s'"
  then have "stringify (JArr [JStr m, JStr s]) = stringify (JArr [JStr m', JStr s'])"
    by (simp add: build_join_key_def json_text_def stringify_def)
  then have "JArr [JStr m, JStr s] = JArr [JStr m', JStr s']"
    by (intro stringify_inj) simp_all
  then show "m = m' \<and> s = s'" by simp
qed simp

text \<open>The index holds, under each key, the instances of that key in the order of the report.\<close>

definition indexed :: "(string, join_candidate list) js_map \<Rightarrow> string \<Rightarrow> join_candidate list" where
  "indexed index key = (case map_get index key of None \<Rightarrow> [] | Some cs \<Rightarrow> cs)"

definition candidate_of ::
  "(string \<Rightarrow> url_parts option) \<Rightarrow> string \<Rightarrow> nat \<times> joined_instance \<Rightarrow> join_candidate list" where
  "candidate_of new_url key p =
     (case new_url (inst_url (snd p)) of
        None \<Rightarrow> []
      | Some u \<Rightarrow>
          if build_join_key (to_upper (inst_method (snd p))) (origin u) = key
          then [\<lparr>candidate_position = fst p, pathname_segments = split_char CHR ''/'' (pathname u)\<rparr>] else [])"

lemma indexed_add: "indexed (add_candidate new_url index p) key = indexed index key @ candidate_of new_url key p"
  by (auto simp: indexed_def add_candidate_def candidate_of_def Let_def map_of_update split: option.splits)

lemma indexed_foldl:
  "indexed (foldl (add_candidate new_url) index ps) key =
     indexed index key @ concat (map (candidate_of new_url key) ps)"
  by (induction ps arbitrary: index) (simp_all add: indexed_add)

lemma indexed_build:
  "indexed (build_join_candidate_index new_url xs) key =
     concat (map (candidate_of new_url key) (map (\<lambda>i. (i, xs ! i)) [0..<length xs]))"
proof -
  have "enumerate 0 xs = map (\<lambda>i. (i, xs ! i)) [0..<length xs]"
    by (rule nth_equalityI) (simp_all add: nth_enumerate_eq)
  moreover have "indexed [] key = []"
    by (simp add: indexed_def)
  ultimately show ?thesis
    by (simp only: build_join_candidate_index_def indexed_foldl append_Nil)
qed

lemma filtered_candidate:
  "map candidate_position
     (filter (\<lambda>c. P (candidate_position c) \<and> matches_path_template ts (pathname_segments c))
       (candidate_of new_url (build_join_key m s) (i, x))) =
   (case new_url (inst_url x) of
      None \<Rightarrow> []
    | Some u \<Rightarrow>
        if to_upper (inst_method x) = m \<and> origin u = s \<and> P i \<and> matches_path_template ts (split_char CHR ''/'' (pathname u))
        then [i] else [])"
  by (auto simp: candidate_of_def join_key_inj split: option.splits)

lemma join_candidates_eq:
  "join_candidates (build_join_candidate_index new_url xs) ys taken l =
     filter (\<lambda>i. inst_id (ys ! i) \<notin> set taken \<and> describes new_url l (xs ! i)) [0..<length xs]"
proof -
  let ?m = "text_of l ''method''" and ?s = "text_of l ''origin''"
  let ?ts = "split_char CHR ''/'' (text_of l ''pathTemplate'')"
  let ?P = "\<lambda>i. inst_id (ys ! i) \<notin> set taken"
  have one: "map candidate_position
      (filter (\<lambda>c. ?P (candidate_position c) \<and> matches_path_template ?ts (pathname_segments c))
        (candidate_of new_url (build_join_key ?m ?s) (i, xs ! i))) =
      (if ?P i \<and> describes new_url l (xs ! i) then [i] else [])" for i
    unfolding filtered_candidate [of ?P ?ts new_url ?m ?s i "xs ! i"]
    by (auto simp: describes_def split: option.splits)
  have single: "filter Q is = concat (map (\<lambda>i. if Q i then [i] else []) is)" for Q :: "nat \<Rightarrow> bool" and "is"
    by (induction "is") auto
  have "join_candidates (build_join_candidate_index new_url xs) ys taken l =
      concat (map (\<lambda>i. map candidate_position
        (filter (\<lambda>c. ?P (candidate_position c) \<and> matches_path_template ?ts (pathname_segments c))
          (candidate_of new_url (build_join_key ?m ?s) (i, xs ! i)))) [0..<length xs])"
    unfolding join_candidates_def Let_def indexed_def [symmetric] indexed_build
    by (simp add: filter_concat map_concat comp_def)
  then show ?thesis
    by (simp only: one single)
qed

lemma find_index_append:
  "find_index p (xs @ ys) =
     (case find_index p xs of
        Some k \<Rightarrow> Some k
      | None \<Rightarrow> map_option (\<lambda>k. k + length xs) (find_index p ys))"
  by (induction xs) (auto simp: option.map_comp comp_def option.map_ident split: option.splits)

lemma find_index_less: "find_index p xs = Some k \<Longrightarrow> k < length xs"
  by (induction xs arbitrary: k) (auto split: if_splits)

lemma find_index_taken: "find_index (\<lambda>p. p = Some i) picks = None \<longleftrightarrow> Some i \<notin> set picks"
  by (induction picks) auto

lemma with_lifecycle_same:
  "inst_id (with_lifecycle rs picks xs i) = inst_id (xs ! i)"
  "inst_offset (with_lifecycle rs picks xs i) = inst_offset (xs ! i)"
  by (simp_all add: with_lifecycle_def split: option.split)

lemma with_lifecycle_snoc:
  assumes "length picks = length rs" "choice \<noteq> Some i \<or> Some i \<notin> set picks"
  shows "with_lifecycle (rs @ [r]) (picks @ [choice]) xs i =
    (if choice = Some i then (with_lifecycle rs picks xs i)\<lparr>client_lifecycle := Some (lifecycle r)\<rparr>
     else with_lifecycle rs picks xs i)"
proof (cases "find_index (\<lambda>p. p = Some i) picks")
  case None
  then show ?thesis
    using assms(1) by (simp add: with_lifecycle_def find_index_append nth_append)
next
  case (Some k)
  then have "k < length rs" "choice \<noteq> Some i"
    using assms find_index_less [OF Some] find_index_taken [of i picks] by auto
  then show ?thesis
    using Some by (simp add: with_lifecycle_def find_index_append nth_append)
qed

lemma greedy_join_snoc:
  assumes "greedy_join new_url xs rs ys picks"
    and "best_choice xs (request_offset r) (free_instances new_url xs picks (lifecycle r)) choice"
  shows "greedy_join new_url xs (rs @ [r])
    (case choice of None \<Rightarrow> ys | Some i \<Rightarrow> ys[i := (ys ! i)\<lparr>client_lifecycle := Some (lifecycle r)\<rparr>])
    (picks @ [choice])"
proof -
  have len: "length picks = length rs" and ys: "ys = map (with_lifecycle rs picks xs) [0..<length xs]"
    using assms(1) by (simp_all add: greedy_join_def)
  have new: "Some i \<notin> set picks \<and> i < length xs" if "choice = Some i" for i
    using assms(2) that by (simp add: best_choice_def free_instances_def)
  have "(case choice of None \<Rightarrow> ys | Some i \<Rightarrow> ys[i := (ys ! i)\<lparr>client_lifecycle := Some (lifecycle r)\<rparr>]) =
      map (with_lifecycle (rs @ [r]) (picks @ [choice]) xs) [0..<length xs]"
    using new len
    by (intro nth_equalityI)
      (auto simp: ys with_lifecycle_snoc nth_list_update split: option.splits)
  moreover have "best_choice xs (request_offset ((rs @ [r]) ! k))
      (free_instances new_url xs (take k (picks @ [choice])) (lifecycle ((rs @ [r]) ! k))) ((picks @ [choice]) ! k)"
    if "k < length (rs @ [r])" for k
  proof (cases "k = length rs")
    case True
    then show ?thesis
      using assms(2) len by (simp add: nth_append)
  next
    case False
    then have "k < length rs"
      using that by simp
    then show ?thesis
      using assms(1) len by (simp add: greedy_join_def list_all_iff nth_append)
  qed
  moreover have "length (picks @ [choice]) = length (rs @ [r])"
    using len by simp
  ultimately show ?thesis
    unfolding greedy_join_def list_all_iff Ball_def set_upt atLeastLessThan_iff by blast
qed

lemma pick_same_offsets:
  assumes "\<forall>i \<in> set cs. inst_offset (ys ! i) = inst_offset (xs ! i)"
  shows "pick_closest_instance ys off cs = pick_closest_instance xs off cs"
proof (cases off)
  case (Some r)
  have "foldl (closer_instance ys r) None cs = foldl (closer_instance xs r) None cs \<and>
      (\<forall>k. foldl (closer_instance xs r) None cs = Some k \<longrightarrow> k \<in> set cs)"
    using assms
  proof (induction cs rule: rev_induct)
    case (snoc c cs)
    then show ?case
      by (auto simp: closer_instance_def split: option.splits)
  qed simp
  then show ?thesis
    by (simp add: Some pick_closest_instance_def)
qed (simp add: pick_closest_instance_def)

lemma join_is_greedy:
  assumes ids: "distinct (map inst_id xs)"
  shows "\<exists>picks. greedy_join new_url xs rs
      (fst (foldl (join_record (build_join_candidate_index new_url xs)) (xs, []) rs)) picks \<and>
    set (snd (foldl (join_record (build_join_candidate_index new_url xs)) (xs, []) rs)) =
      {inst_id (xs ! i) |i. i < length xs \<and> Some i \<in> set picks}"
proof (induction rs rule: rev_induct)
  case Nil
  have "with_lifecycle [] [] xs = (!) xs"
    by (rule ext) (simp add: with_lifecycle_def)
  then show ?case
    by (intro exI [of _ "[]"]) (simp add: greedy_join_def map_nth)
next
  case (snoc r rs)
  let ?index = "build_join_candidate_index new_url xs"
  obtain ys taken where st: "foldl (join_record ?index) (xs, []) rs = (ys, taken)"
    by fastforce
  obtain picks where greedy: "greedy_join new_url xs rs ys picks"
    and taken: "set taken = {inst_id (xs ! i) |i. i < length xs \<and> Some i \<in> set picks}"
    using snoc.IH by (auto simp: st)
  have same: "inst_id (ys ! i) = inst_id (xs ! i)" "inst_offset (ys ! i) = inst_offset (xs ! i)" if "i < length xs" for i
    using greedy that by (simp_all add: greedy_join_def with_lifecycle_same)
  have untaken: "inst_id (ys ! i) \<notin> set taken \<longleftrightarrow> Some i \<notin> set picks" if "i < length xs" for i
    using that ids by (auto simp: taken same distinct_map inj_on_def nth_eq_iff_index_eq distinct_conv_nth)
  have free: "join_candidates ?index ys taken (lifecycle r) = free_instances new_url xs picks (lifecycle r)"
    unfolding join_candidates_eq free_instances_def using untaken by (intro filter_cong) auto
  define choice where "choice = pick_closest_instance ys (request_offset r) (join_candidates ?index ys taken (lifecycle r))"
  have "choice = pick_closest_instance xs (request_offset r) (free_instances new_url xs picks (lifecycle r))"
    unfolding choice_def free by (rule pick_same_offsets) (simp add: free_instances_def same)
  then have best: "best_choice xs (request_offset r) (free_instances new_url xs picks (lifecycle r)) choice"
    by (simp add: pick_closest_best free_instances_def sorted_wrt_filter)
  have chosen: "i < length xs" if "choice = Some i" for i
    using best that by (simp add: best_choice_def free_instances_def)
  have "foldl (join_record ?index) (xs, []) (rs @ [r]) =
      ((case choice of None \<Rightarrow> ys | Some i \<Rightarrow> ys[i := (ys ! i)\<lparr>client_lifecycle := Some (lifecycle r)\<rparr>]),
       (case choice of None \<Rightarrow> taken | Some i \<Rightarrow> set_add (inst_id (ys ! i)) taken))"
    by (simp add: st join_record_def choice_def split: option.split)
  moreover have "set (case choice of None \<Rightarrow> taken | Some i \<Rightarrow> set_add (inst_id (ys ! i)) taken) =
      {inst_id (xs ! i) |i. i < length xs \<and> Some i \<in> set (picks @ [choice])}"
    using chosen same by (auto simp: set_set_add taken split: option.splits)
  ultimately show ?case
    using greedy_join_snoc [OF greedy best] by (intro exI [of _ "picks @ [choice]"]) simp
qed

subsection \<open>What is attached\<close>

definition readable_attachment ::
  "(string \<Rightarrow> string option) \<Rightarrow> (string \<Rightarrow> url_parts option) \<Rightarrow> (string \<Rightarrow> int option) \<Rightarrow> rat \<Rightarrow>
   attachment \<Rightarrow> parsed_attachment option" where
  "readable_attachment read_file new_url od start a =
     (if to_lower (attachment_name a) \<notin> set attachment_names then None
      else Option.bind (read_bounded_attachment read_file a) (parse_any_attachment new_url od start))"

definition readable_attachments ::
  "(string \<Rightarrow> string option) \<Rightarrow> (string \<Rightarrow> url_parts option) \<Rightarrow> (string \<Rightarrow> int option) \<Rightarrow> rat \<Rightarrow>
   attachment list \<Rightarrow> parsed_attachment list" where
  "readable_attachments read_file new_url od start as =
     filter_some (map (readable_attachment read_file new_url od start) as)"

definition capped_lifecycles :: "parsed_attachment list \<Rightarrow> parsed_lifecycle list" where
  "capped_lifecycles ps =
     (let every = concat (map parsed_records ps) in
      if list_ex parsed_truncated ps \<or> maximum_records < length every
      then map mark_truncated (take maximum_records every) else every)"

lemma collect_records_eq:
  "length acc \<le> maximum_records \<Longrightarrow>
   collect_records acc rs trunc = (take maximum_records (acc @ rs), trunc \<or> maximum_records < length (acc @ rs))"
  by (induction rs arbitrary: acc) (auto simp: take_Cons')

lemma collect_step:
  assumes "st = (take maximum_records every, trunc \<or> maximum_records < length every)"
  shows "collect_records (fst st) (parsed_records p) (snd st \<or> parsed_truncated p) =
    (take maximum_records (every @ parsed_records p),
     trunc \<or> parsed_truncated p \<or> maximum_records < length (every @ parsed_records p))"
  using assms by (auto simp: collect_records_eq min_def)

lemma collect_attachments:
  "foldl (collect_attachment read_file new_url od start) ([], False) as =
     (let ps = readable_attachments read_file new_url od start as; every = concat (map parsed_records ps)
      in (take maximum_records every, list_ex parsed_truncated ps \<or> maximum_records < length every))"
proof (induction as rule: rev_induct)
  case (snoc a as)
  let ?ps = "readable_attachments read_file new_url od start as"
  let ?every = "concat (map parsed_records ?ps)"
  let ?st = "foldl (collect_attachment read_file new_url od start) ([], False) as"
  have st: "?st = (take maximum_records ?every, list_ex parsed_truncated ?ps \<or> maximum_records < length ?every)"
    using snoc.IH by (simp add: Let_def)
  have "filter_some (xs @ ys) = filter_some xs @ filter_some ys" for xs ys :: "parsed_attachment option list"
    by (induction xs rule: filter_some.induct) auto
  then have more: "readable_attachments read_file new_url od start (as @ [a]) =
      ?ps @ (case readable_attachment read_file new_url od start a of None \<Rightarrow> [] | Some p \<Rightarrow> [p])"
    by (simp add: readable_attachments_def split: option.split)
  have "collect_attachment read_file new_url od start ?st a =
      (case readable_attachment read_file new_url od start a of
         None \<Rightarrow> ?st
       | Some p \<Rightarrow> collect_records (fst ?st) (parsed_records p) (snd ?st \<or> parsed_truncated p))"
    by (simp add: collect_attachment_def readable_attachment_def)
  then show ?case
    using collect_step [OF st] st by (auto simp: more Let_def split: option.split)
qed (simp add: readable_attachments_def)

lemma collect_lifecycles_eq:
  "collect_lifecycles read_file new_url od start as = capped_lifecycles (readable_attachments read_file new_url od start as)"
  by (auto simp: collect_lifecycles_def collect_attachments capped_lifecycles_def Let_def)

lemma length_capped: "length (capped_lifecycles ps) \<le> maximum_records"
  by (auto simp: capped_lifecycles_def Let_def)

text \<open>C9: The records attached are those of the readable attachments in order, at most 100, all marked
  as truncated exactly when an attachment was or records were left out. They are joined greedily: each
  record takes the request of its method and origin whose path fits its template and that no earlier
  record has, one with a time if there is one, the nearest in time and then the first, and is left
  alone only when there is none; every other part of the requests is unchanged.\<close>

theorem attach_joins_greedily:
  assumes "distinct (map inst_id xs)"
  shows "\<exists>rs picks. rs = capped_lifecycles (readable_attachments read_file new_url od start as) \<and>
    length rs \<le> maximum_records \<and>
    greedy_join new_url xs rs (attach_client_lifecycles read_file new_url od start as xs) picks"
  using join_is_greedy [OF assms, of new_url "collect_lifecycles read_file new_url od start as"]
    length_capped
  by (auto simp: attach_client_lifecycles_def join_client_lifecycles_def collect_lifecycles_eq)

definition example_instance :: "string \<Rightarrow> string \<Rightarrow> rat option \<Rightarrow> joined_instance" where
  "example_instance i u off =
     \<lparr>inst_id = i, inst_group = ''g0'', inst_method = ''GET'', inst_url = u, inst_status = 200,
      inst_offset = off, inst_duration = None, inst_timings = None, inst_trace_id = None, inst_span_id = None,
      inst_request_id = None, inst_correlation_id = None, request_body_ref = None, response_body_ref = None,
      redirect_from_id = None, redirect_to_id = None, client_lifecycle = None\<rparr>"

definition example_requests :: "joined_instance list" where
  "example_requests =
     [example_instance ''n0'' ''https://a.b'' (Some 10), example_instance ''n1'' ''https://a.b'' (Some 900)]"

definition example_attachment :: attachment where
  "example_attachment =
     \<lparr>attachment_name = ''Browser-Network-Lifecycle'',
      attachment_body = Some (json_text (JObj [(''schemaVersion'', JInt 1),
        (''records'', JArr [JObj [(''method'', JStr ''get''), (''origin'', JStr ''https://a.b''),
           (''pathTemplate'', JStr ''/''), (''requestStartedAt'', JStr ''1970-01-01T00:00:00.800Z'')]])])),
      attachment_path = None\<rparr>"

theorem attach_joins_greedily_witness:
  "\<exists>rs picks. rs = capped_lifecycles (readable_attachments (\<lambda>p. None) example_url (\<lambda>s. None) 0 [example_attachment]) \<and>
    length rs \<le> maximum_records \<and>
    greedy_join example_url example_requests rs
      (attach_client_lifecycles (\<lambda>p. None) example_url (\<lambda>s. None) 0 [example_attachment] example_requests) picks"
  by (rule attach_joins_greedily) (simp add: example_requests_def example_instance_def)

end
