(* ===== verification/Spec2Isabelle.thy ===== *)
theory Spec2Isabelle
  imports Embed ClearanceSafety ClearanceLauncher CmuxIntegration NotificationGuarantees
    DeepFreeze AdminAuthSafety AdminAuthLock NetworkReport LifecycleRoundTrip ClientLifecycle
begin

text \<open>
  A verification development for the packages of this repository that carry its own logic. The
  packages are TypeScript; each theory translates the functions and classes of some files under
  \<open>packages/\<close> and proves what makes them correct.

  \<^bold>\<open>Parts and theories.\<close>

  \<^item> The runtime. \<open>Prelude\<close> (code units, maps and sets in insertion order, throwing as a sum,
    \<open>traverse\<close> for a \<open>map\<close> whose function may throw), \<open>JsString\<close> (string methods), \<open>JsNumber\<close>
    (\<open>Number\<close> of a string, rounding to doubles, printing), \<open>Json\<close> (values, dates, spread,
    \<open>JSON.stringify\<close>, \<open>JSON.parse\<close>), \<open>NodePath\<close> (\<open>path\<close>), \<open>NetIp\<close> (\<open>net.isIP\<close>, block lists
    over 32- and 128-bit words).
  \<^item> util-ts. \<open>Functional\<close>: options, eithers, service results, pipe, arrays, nullish values;
    \<open>ServiceErrors\<close>: \<open>errors/serviceError.ts\<close>. The locale \<open>chainable\<close> states the laws a container
    gives to a chain of operations; all three containers are interpretations.
  \<^item> embedex. \<open>EmbedGraph\<close>: \<open>dependencyGraph.ts\<close>, building, cycle search, topological sort;
    \<open>EmbedText\<close>: \<open>processDestinations.ts\<close>, the tag expression, escaping, the edit of one destination;
    \<open>Embed\<close>: \<open>createSourceMap.ts\<close>, \<open>createDestinationMap.ts\<close>, \<open>embed.ts\<close> and the command line.
    A run reads the files, builds the graph, refuses a cycle, and processes the destinations after
    what they embed, handing each updated text on to its dependents.
  \<^item> clearance. \<open>HostRule\<close>: \<open>hostRule.ts\<close>, \<open>allowlist.ts\<close>; \<open>ClearancePolicy\<close>: the configuration,
    targets, headers and address policy of \<open>index.ts\<close>; \<open>ClearanceProxy\<close>: its handlers, the DNS
    cache, tunnels and exchanges; \<open>ClearanceSafety\<close>: what the proxy can reach; \<open>ClearanceLauncher\<close>:
    \<open>launcher.ts\<close>; \<open>CmuxIntegration\<close>: \<open>safehouseCmux.ts\<close>. The handlers use the policy through the
    locale \<open>resolver\<close>, interpreted on the cached DNS resolution.
  \<^item> notifications. \<open>NotificationRequest\<close>: requests, conversions, chunks, keys, redaction, error
    codes; \<open>NotificationClient\<close>: \<open>notificationClient.ts\<close>, every public operation, with all it logs,
    traces and asks of the provider as a list of events; \<open>NotificationQueue\<close>: the job enqueuer;
    \<open>NotificationSafety\<close> and \<open>NotificationGuarantees\<close>: what they promise together. A job enqueued
    with a key is later turned into a trigger with that key, retried as a whole, and deduplicated
    by the provider.
  \<^item> playwright-toolkit. \<open>Retry\<close>: \<open>retry.ts\<close>, \<open>setupRetry.ts\<close>, attempts that may never settle;
    \<open>AdminAuthToken\<close>: the token cache of \<open>adminAuthToken.ts\<close>, which generates a token through a
    classified retry; \<open>AdminAuthSafety\<close>: what it gives its callers; \<open>AdminAuthLock\<close>: its lock file
    between processes, one step per file operation. \<open>DeepFreeze\<close>: \<open>deepFreeze.ts\<close> of util-ts over a
    heap of objects.
  \<^item> playwright-reporter-llm. \<open>NetworkBuilder\<close>: \<open>networkBuilder.ts\<close>, which keeps a bounded choice of
    the requests of a test, with its priorities and caps; \<open>NetworkAccounting\<close>: the invariant of its
    nine maps and its counters, and that every operation keeps it; \<open>NetworkReport\<close>: what the report
    made from it satisfies; \<open>ReporterText\<close>: \<open>typeGuards.ts\<close>, \<open>textProcessing.ts\<close>, \<open>traceparent.ts\<close>,
    \<open>traceTiming.ts\<close>, \<open>clientLifecycleSanitization.ts\<close>, \<open>consoleProcessing.ts\<close>, the readers of
    untrusted values; \<open>ClientLifecycleContract\<close>: \<open>clientLifecycleContract.ts\<close>, the attachment of
    request lifecycles, encoded within its limits and parsed from anything; \<open>IsoDates\<close>: the calendar
    of ISO dates; \<open>LifecycleRoundTrip\<close>: the attachment is read as it was written;
    \<open>ClientLifecycle\<close>: \<open>clientLifecycle.ts\<close>, which joins the lifecycles to the requests the network
    builder kept.

  \<^bold>\<open>What the lemmas show.\<close> The graph search returns, finds a cycle exactly when there is one,
  and the sort agrees with it; a whole run either fails, reports a cycle, or brings every
  destination up to date, and check mode decides exactly that. The proxy opens sockets only to
  public addresses of allowed hosts, over every interleaving of requests and DNS answers; its
  block lists are exactly the special-purpose ranges; its configuration is within bounds. The
  launcher reports a start or a stop only when the ports and processes agree. Errors merge without
  losing issues, and travel through JSON:API up to the paths it can carry. A chunked trigger follows
  its plan and delivers each call once over the retries of a day, the life of a key; a trigger is
  classified as worth a retry or not, and its request line hides what it is told to hide. A poll ends in time and a retry ends whatever its operation does; a cached token
  is usable when it is handed out, and one process at a time holds its lock unless one crashed. The
  network section balances its books over every run, so its self-check never throws, and all its
  references resolve. A lifecycle attachment has only typed and sanitized values, fits its limits,
  keeps what is most urgent, is read back as written, and is joined greedily to the closest
  requests. Where the code falls short of what its documentation says, a property shows
  it on a concrete input.

  \<^bold>\<open>Asynchrony.\<close> An \<open>async\<close> function runs until it awaits; it is split there wherever another
  call could interleave and the code keeps shared state: \<open>authorize\<close> at the DNS lookup,
  \<open>appendPushToken\<close> between reading and writing. \<open>Promise.all\<close> over independent calls is a list of
  calls.

  \<^bold>\<open>Bounds and fuel.\<close> The recursion of the cycle search takes the number of destinations plus one
  as fuel, which is proved to be enough, as is the fuel of the JSON parser (twice the length of
  the text plus two) on every printed text; a launcher polls as often as its attempts allow.
  Recursion over lists needs no bound. Strings have code units below 256. Integers printed to
  JSON are below \<open>2 ^ 53\<close> in the lemmas on keys. Object keys named \<open>__proto__\<close> or like array
  indices are not singled out.

  \<^bold>\<open>Parameters.\<close> What is not in the repository is an argument: the file system, DNS, the URL
  parser, IDNA tables, process spawning, the clock, random identifiers, SHA-1 and SHA-256, the dates
  \<open>Date.parse\<close> reads beyond the ISO form, the phone number library, the notification provider and
  the job queue. What is assumed of one is a hypothesis with an instance: a resolver's answers, a
  provider that honours idempotency keys for 24 hours or keeps the tokens it is given, a URL parser
  that reads its origins as themselves, a hash without collisions.

  \<^bold>\<open>Not modelled.\<close> Lint rules (they work on the syntax trees of other tools), schemas (zod),
  generators, configuration data, scripts, shell preludes and the example application. Of the
  reporter, what reads trace archives and walks the objects of the test runner; of the toolkit, what
  drives a browser, a mail server or an asset host; phone numbers, which wrap an external library.
\<close>

end
